(* ===== verification/Prelude.thy ===== *)
theory Prelude
  imports Main "HOL-Library.Word"
begin

text \<open>
  What every component of the model shares.

  A C function is a HOL function into \<open>'a c\<close>: \<open>Inr x\<close> is a normal return with
  result \<open>x\<close>, \<open>Inl e\<close> is an execution that does not get there, and \<open>e\<close> says why: a
  NULL dereference (page 0 of the kernel's address space is unmapped, so the machine
  takes the page fault whose handler is a kernel panic), an access through a pointer to no
  live object, an access outside the bounds of an object, a signed overflow, a loop that
  never ends, a wait for input that has not arrived, or a call of \<open>kpanic\<close>.
  \<open>bindE\<close> is the sequencing of statements.

  The rest are the loop combinator \<open>foldE\<close> (a counted \<open>for\<close> loop is \<open>foldE\<close> over
  \<open>[a..<b]\<close>), the checked store into an array, 32-bit signed arithmetic, and the
  list lemmas the components use.
\<close>

section \<open>Results of C code\<close>

datatype stop =
    NullDeref
  | BadPointer
  | OutOfBounds
  | SignedOverflow
  | Diverges
  | Panic string

type_synonym 'a c = "stop + 'a"

named_theorems c_simps \<open>unfolding the statements of the modelled C code\<close>

fun bindE :: "'a c \<Rightarrow> ('a \<Rightarrow> 'b c) \<Rightarrow> 'b c" where
  "bindE (Inl e) f = Inl e"
| "bindE (Inr x) f = f x"

lemma bindE_cong [fundef_cong]:
  "m = m' \<Longrightarrow> (\<And>x. m' = Inr x \<Longrightarrow> f x = f' x) \<Longrightarrow> bindE m f = bindE m' f'"
  by (cases m') auto

lemma bindE_eq_Inr: "bindE m f = Inr y \<longleftrightarrow> (\<exists>x. m = Inr x \<and> f x = Inr y)"
  by (cases m) auto

lemma bindE_eq_Inl:
  "bindE m f = Inl e \<longleftrightarrow> m = Inl e \<or> (\<exists>x. m = Inr x \<and> f x = Inl e)"
  by (cases m) auto

lemma bindE_assoc: "bindE (bindE m f) g = bindE m (\<lambda>x. bindE (f x) g)"
  by (cases m) auto

lemma bindE_Inr_right [simp]: "bindE m Inr = m"
  by (cases m) auto

lemma bindE_if: "bindE (if b then m else m') f = (if b then bindE m f else bindE m' f)"
  by simp

text \<open>A loop whose iterations may not end: \<open>None\<close> is the loop that never returns.\<close>

definition loop_result :: "'a c option \<Rightarrow> 'a c" where
  "loop_result r = (case r of None \<Rightarrow> Inl Diverges | Some x \<Rightarrow> x)"

lemma loop_result_Some [simp]: "loop_result (Some x) = x"
  by (simp add: loop_result_def)

text \<open>A loop over a list of values, stopped by the first iteration that stops.\<close>

fun foldE :: "('a \<Rightarrow> 's \<Rightarrow> 's c) \<Rightarrow> 'a list \<Rightarrow> 's \<Rightarrow> 's c" where
  "foldE f [] s = Inr s"
| "foldE f (x # xs) s = bindE (f x s) (foldE f xs)"

lemma foldE_append: "foldE f (xs @ ys) s = bindE (foldE f xs s) (foldE f ys)"
  by (induction xs arbitrary: s) (auto simp: bindE_assoc intro!: bindE_cong)

lemma foldE_cong [fundef_cong]:
  "xs = ys \<Longrightarrow> s = t \<Longrightarrow> (\<And>x u. x \<in> set ys \<Longrightarrow> f x u = g x u) \<Longrightarrow> foldE f xs s = foldE g ys t"
proof (induction ys arbitrary: xs s t)
  case Nil
  then show ?case by simp
next
  case (Cons y ys)
  have "foldE f (y # ys) t = bindE (f y t) (foldE f ys)" by simp
  also have "\<dots> = bindE (g y t) (foldE g ys)"
    using Cons by (cases "g y t") auto
  finally show ?case using Cons.prems by simp
qed

text \<open>An invariant of the body that holds before the loop holds after it.\<close>

lemma foldE_invariant:
  assumes "foldE f xs s = Inr t" and "P s"
    and "\<And>x u v. x \<in> set xs \<Longrightarrow> P u \<Longrightarrow> f x u = Inr v \<Longrightarrow> P v"
  shows "P t"
  using assms
proof (induction xs arbitrary: s)
  case Nil
  then show ?case by simp
next
  case (Cons x xs)
  then obtain u where "f x s = Inr u" "foldE f xs u = Inr t"
    by (auto simp: bindE_eq_Inr)
  with Cons show ?case by (metis list.set_intros(1) list.set_intros(2))
qed

section \<open>Signed 32-bit arithmetic\<close>

text \<open>
  A signed result that does not fit in the 32-bit \<open>int\<close> is undefined behaviour in C;
  division and remainder of C truncate towards zero.
\<close>

definition i32 :: "int \<Rightarrow> int c" where
  "i32 x = (if - 2147483648 \<le> x \<and> x \<le> 2147483647 then Inr x else Inl SignedOverflow)"

lemma i32_in_range [simp]: "- 2147483648 \<le> x \<Longrightarrow> x \<le> 2147483647 \<Longrightarrow> i32 x = Inr x"
  by (simp add: i32_def)

definition cdiv :: "int \<Rightarrow> int \<Rightarrow> int" where
  "cdiv a b = sgn a * sgn b * (\<bar>a\<bar> div \<bar>b\<bar>)"

definition cmod :: "int \<Rightarrow> int \<Rightarrow> int" where
  "cmod a b = a - cdiv a b * b"

lemma cdiv_nonneg [simp]: "0 \<le> a \<Longrightarrow> 0 < b \<Longrightarrow> cdiv a b = a div b"
  by (cases "a = 0") (auto simp: cdiv_def)

lemma cmod_nonneg [simp]: "0 \<le> a \<Longrightarrow> 0 < b \<Longrightarrow> cmod a b = a mod b"
  by (simp add: cmod_def minus_div_mult_eq_mod)

section \<open>Checked array access\<close>

definition put :: "'a list \<Rightarrow> nat \<Rightarrow> 'a \<Rightarrow> 'a list c" where
  "put buf i x = (if i < length buf then Inr (buf[i := x]) else Inl OutOfBounds)"

definition peek :: "'a list \<Rightarrow> nat \<Rightarrow> 'a c" where
  "peek buf i = (if i < length buf then Inr (buf ! i) else Inl OutOfBounds)"

lemma put_in_range [simp]: "i < length buf \<Longrightarrow> put buf i x = Inr (buf[i := x])"
  by (simp add: put_def)

lemma peek_in_range [simp]: "i < length buf \<Longrightarrow> peek buf i = Inr (buf ! i)"
  by (simp add: peek_def)

lemma put_out_of_range [simp]: "length buf \<le> i \<Longrightarrow> put buf i x = Inl OutOfBounds"
  by (simp add: put_def)

lemma peek_out_of_range [simp]: "length buf \<le> i \<Longrightarrow> peek buf i = Inl OutOfBounds"
  by (simp add: peek_def)

lemma put_append [simp]:
  "put (xs @ y # ys) (length xs) x = Inr (xs @ x # ys)"
  by (simp add: put_def)

section \<open>Lists\<close>

text \<open>The first and the last element of a segment, or the pointer beyond it.\<close>

definition first_or :: "'a \<Rightarrow> 'a list \<Rightarrow> 'a" where
  "first_or d xs = (case xs of [] \<Rightarrow> d | x # _ \<Rightarrow> x)"

definition last_or :: "'a \<Rightarrow> 'a list \<Rightarrow> 'a" where
  "last_or d xs = (if xs = [] then d else last xs)"

lemma first_or_simps [simp]:
  "first_or d [] = d" "first_or d (x # xs) = x"
  by (simp_all add: first_or_def)

lemma last_or_simps [simp]:
  "last_or d [] = d" "last_or d (xs @ [x]) = x" "last_or d (x # xs) = last_or x xs"
  by (auto simp: last_or_def)

lemma first_or_append: "first_or d (xs @ ys) = first_or (first_or d ys) xs"
  by (cases xs) auto

lemma last_or_append: "last_or d (xs @ ys) = last_or (last_or d xs) ys"
  by (auto simp: last_or_def)

lemma first_or_in: "xs \<noteq> [] \<Longrightarrow> first_or d xs \<in> set xs"
  by (cases xs) auto

lemma last_or_in: "xs \<noteq> [] \<Longrightarrow> last_or d xs \<in> set xs"
  by (simp add: last_or_def)

lemma takeWhile_eq_take_length: "takeWhile P xs = take (length (takeWhile P xs)) xs"
  by (metis append_eq_conv_conj takeWhile_dropWhile_id)

end
