(* ===== verification/CStrings.thy ===== *)
theory CStrings
  imports Prelude
begin

text \<open>
  The string and character routines of \<^verbatim>\<open>lib/string.c\<close>, \<^verbatim>\<open>lib/ctype.c\<close>,
  \<^verbatim>\<open>lib/stdlib.c\<close> and \<^verbatim>\<open>lib/core.c\<close> (\<open>memcpy\<close>, \<open>memset\<close>), the two
  copy helpers of \<^verbatim>\<open>user/clock.c\<close>, and \<open>trim_Input\<close> of
  \<^verbatim>\<open>kernel/comhand.c\<close>.

  A \<open>char\<close> is an Isabelle \<open>char\<close> (8 bits). A pointer into an object of \<open>char\<close>s is
  the list of the bytes from the pointer to the end of the object, so a read past the end
  is \<open>Inl OutOfBounds\<close>; a pointer that may be NULL is an \<open>option\<close>. A buffer that is
  written is passed and returned. A NUL-terminated string is a list that holds a NUL;
  \<open>text_of\<close> is what stands before it.
\<close>

abbreviation NUL :: char where "NUL \<equiv> CHR 0x00"
abbreviation CR :: char where "CR \<equiv> CHR 0x0D"
abbreviation LF :: char where "LF \<equiv> CHR 0x0A"
abbreviation ESC :: char where "ESC \<equiv> CHR 0x1B"

type_synonym cbuf = "char list"
type_synonym cptr = "char list option"

text \<open>The value of a \<open>char\<close>: \<open>uchar\<close> after a cast to \<open>unsigned char\<close>, \<open>schar\<close>
  as it is (signed on this target).\<close>

definition uchar :: "char \<Rightarrow> int" where
  "uchar ch = of_char ch"

definition schar :: "char \<Rightarrow> int" where
  "schar ch = (let v = of_char ch in if v < 128 then v else v - 256)"

text \<open>Storing an \<open>int\<close> into a \<open>char\<close> keeps its low 8 bits.\<close>

definition to_char :: "int \<Rightarrow> char" where
  "to_char v = char_of (v mod 256)"

definition text_of :: "cbuf \<Rightarrow> string" where
  "text_of s = takeWhile (\<lambda>ch. ch \<noteq> NUL) s"

definition terminated :: "cbuf \<Rightarrow> bool" where
  "terminated s \<longleftrightarrow> NUL \<in> set s"

text \<open>The object of a string literal: its characters and a NUL.\<close>

definition lit :: "string \<Rightarrow> cbuf" where
  "lit s = s @ [NUL]"

section \<open>lib/string.c\<close>

fun strlen_loop :: "cbuf \<Rightarrow> nat \<Rightarrow> nat c" where
  "strlen_loop [] len = Inl OutOfBounds"
| "strlen_loop (ch # s) len = (if ch \<noteq> NUL then strlen_loop s (len + 1) else Inr len)"

definition strlen :: "cbuf \<Rightarrow> nat c" where
  "strlen s = strlen_loop s 0"

fun strcmp :: "cbuf \<Rightarrow> cbuf \<Rightarrow> int c" where
  "strcmp (a # s1) (b # s2) =
     (if a \<noteq> NUL \<and> a = b then strcmp s1 s2 else Inr (uchar a - uchar b))"
| "strcmp s1 s2 = Inl OutOfBounds"

fun strncmp :: "cbuf \<Rightarrow> cbuf \<Rightarrow> nat \<Rightarrow> int c" where
  "strncmp s1 s2 0 = Inr 0"
| "strncmp (a # s1) (b # s2) (Suc n) =
     (if a \<noteq> NUL \<and> b \<noteq> NUL
      then if a \<noteq> b then Inr (uchar a - uchar b) else strncmp s1 s2 n
      else Inr (uchar a - uchar b))"
| "strncmp s1 s2 (Suc n) = Inl OutOfBounds"

text \<open>
  \<open>strncpy\<close>: the first loop copies up to the NUL of the source or \<open>n\<close> characters and
  returns the index it stopped at, the second fills up with NULs.
\<close>

fun strncpy_copy :: "cbuf \<Rightarrow> cbuf \<Rightarrow> nat \<Rightarrow> nat \<Rightarrow> (cbuf \<times> nat) c" where
  "strncpy_copy dest [] i n = (if i < n then Inl OutOfBounds else Inr (dest, i))"
| "strncpy_copy dest (ch # src) i n =
     (if i < n \<and> ch \<noteq> NUL
      then bindE (put dest i ch) (\<lambda>dest. strncpy_copy dest src (i + 1) n)
      else Inr (dest, i))"

definition strncpy :: "cbuf \<Rightarrow> cbuf \<Rightarrow> nat \<Rightarrow> cbuf c" where
  "strncpy dest src n =
     (if n = 0 then Inr dest
      else bindE (strncpy_copy dest src 0 n)
        (\<lambda>(dest, i). foldE (\<lambda>j d. put d j NUL) [i..<n] dest))"

section \<open>lib/core.c: memcpy and memset\<close>

definition memcpy :: "'a list \<Rightarrow> 'a list \<Rightarrow> nat \<Rightarrow> 'a list c" where
  "memcpy s1 s2 n = foldE (\<lambda>i dst. bindE (peek s2 i) (put dst i)) [0..<n] s1"

definition memset :: "cbuf \<Rightarrow> int \<Rightarrow> nat \<Rightarrow> cbuf c" where
  "memset s v n = foldE (\<lambda>i p. put p i (to_char v)) [0..<n] s"

section \<open>user/clock.c: my_strcpy and my_strcat\<close>

text \<open>Both end in the loop that copies \<open>src\<close>, its NUL included, to \<open>dest + off\<close>.\<close>

fun copy_from :: "cbuf \<Rightarrow> nat \<Rightarrow> cbuf \<Rightarrow> cbuf c" where
  "copy_from dest off [] = Inl OutOfBounds"
| "copy_from dest off (ch # src) =
     (if ch \<noteq> NUL then bindE (put dest off ch) (\<lambda>dest. copy_from dest (off + 1) src)
      else put dest off NUL)"

definition my_strcpy :: "cbuf \<Rightarrow> cbuf \<Rightarrow> cbuf c" where
  "my_strcpy dest src = copy_from dest 0 src"

definition my_strcat :: "cbuf \<Rightarrow> cbuf \<Rightarrow> cbuf c" where
  "my_strcat dest src = bindE (strlen_loop dest 0) (\<lambda>off. copy_from dest off src)"

text \<open>A local array of \<open>n\<close> characters that is not initialised: \<open>junk\<close> is what it holds.\<close>

definition local_array :: "(nat \<Rightarrow> char) \<Rightarrow> nat \<Rightarrow> cbuf" where
  "local_array junk n = map junk [0..<n]"

lemma length_local_array [simp]: "length (local_array junk n) = n"
  by (simp add: local_array_def)

section \<open>kernel/comhand.c: trim\_Input\<close>

fun trim_loop :: "cbuf \<Rightarrow> nat \<Rightarrow> cbuf c" where
  "trim_loop str 0 = Inr str"
| "trim_loop str (Suc n) =
     bindE (peek str n) (\<lambda>ch.
       if ch = LF \<or> ch = CR then bindE (put str n NUL) (\<lambda>str. trim_loop str n)
       else Inr str)"

definition trim_Input :: "cbuf \<Rightarrow> cbuf c" where
  "trim_Input str = bindE (strlen str) (trim_loop str)"

section \<open>lib/ctype.c and lib/stdlib.c\<close>

definition isspace :: "char \<Rightarrow> bool" where
  "isspace ch \<longleftrightarrow> ch = CHR '' '' \<or> ch = LF \<or> ch = CR \<or> ch = CHR 0x0C \<or> ch = CHR 0x09 \<or> ch = CHR 0x0B"

fun skip_spaces :: "cbuf \<Rightarrow> cbuf c" where
  "skip_spaces [] = Inl OutOfBounds"
| "skip_spaces (ch # s) = (if isspace ch then skip_spaces s else Inr (ch # s))"

definition is_digit_char :: "char \<Rightarrow> bool" where
  "is_digit_char ch \<longleftrightarrow> schar (CHR ''0'') \<le> schar ch \<and> schar ch \<le> schar (CHR ''9'')"

fun atoi_digits :: "cbuf \<Rightarrow> int \<Rightarrow> int c" where
  "atoi_digits [] res = Inl OutOfBounds"
| "atoi_digits (ch # s) res =
     (if is_digit_char ch
      then bindE (i32 (res * 10)) (\<lambda>r.
           bindE (i32 (r + (schar ch - schar (CHR ''0'')))) (atoi_digits s))
      else Inr res)"

definition atoi :: "cbuf \<Rightarrow> int c" where
  "atoi s =
     bindE (skip_spaces s) (\<lambda>s.
     case s of [] \<Rightarrow> Inl OutOfBounds
     | ch # rest \<Rightarrow>
         let sign = (if ch = CHR ''-'' \<or> ch = CHR ''+'' then ch else CHR '' '');
             s = (if ch = CHR ''-'' \<or> ch = CHR ''+'' then rest else s)
         in bindE (atoi_digits s 0) (\<lambda>res.
            if sign = CHR ''-'' then i32 (res * -1) else Inr res))"

section \<open>Characters and texts\<close>

lemma uchar_range: "0 \<le> uchar ch" "uchar ch < 256"
proof -
  have eq: "uchar ch = int (of_char ch)" by (simp add: uchar_def of_nat_of_char)
  then show "0 \<le> uchar ch" by simp
  have "(of_char ch :: nat) < 256" by simp
  then show "uchar ch < 256" unfolding eq by linarith
qed

lemma uchar_inject [simp]: "uchar a = uchar b \<longleftrightarrow> a = b"
  by (simp add: uchar_def)

lemma schar_alt: "schar ch = (if uchar ch < 128 then uchar ch else uchar ch - 256)"
  by (simp add: schar_def uchar_def Let_def)

lemma schar_inject [simp]: "schar a = schar b \<longleftrightarrow> a = b"
  using uchar_range[of a] uchar_range[of b] by (auto simp: schar_alt split: if_splits)

lemma uchar_to_char [simp]: "uchar (to_char v) = v mod 256"
  by (simp add: uchar_def to_char_def)

lemma to_char_uchar [simp]: "to_char (uchar ch) = ch"
  by (simp add: uchar_def to_char_def)

lemma to_char_schar [simp]: "to_char (schar ch) = ch"
proof -
  have "to_char (schar ch) = to_char (uchar ch)"
    by (simp add: schar_alt to_char_def)
  then show ?thesis by simp
qed

lemma text_of_simps [simp]:
  "text_of [] = []"
  "text_of (ch # s) = (if ch = NUL then [] else ch # text_of s)"
  by (simp_all add: text_of_def)

lemma terminated_simps [simp]:
  "\<not> terminated []"
  "terminated (ch # s) \<longleftrightarrow> ch = NUL \<or> terminated s"
  "terminated (s @ t) \<longleftrightarrow> terminated s \<or> terminated t"
  by (auto simp: terminated_def)

lemma terminated_lit [simp]: "terminated (lit s)"
  by (simp add: lit_def terminated_def)

lemma NUL_notin_text [simp]: "NUL \<notin> set (text_of s)"
  by (induction s) auto

lemma text_of_append_NUL: "NUL \<notin> set a \<Longrightarrow> text_of (a @ NUL # b) = a"
  by (induction a) auto

lemma text_of_lit [simp]: "NUL \<notin> set s \<Longrightarrow> text_of (lit s) = s"
  by (simp add: lit_def text_of_append_NUL)

lemma text_of_no_NUL: "NUL \<notin> set s \<Longrightarrow> text_of s = s"
  by (induction s) auto

lemma terminated_split:
  "terminated s \<Longrightarrow> \<exists>r. s = text_of s @ NUL # r"
  by (induction s) auto

lemma length_text_of: "terminated s \<Longrightarrow> length (text_of s) < length s"
  by (induction s) auto

lemma text_of_append: "text_of (a @ b) = (if NUL \<in> set a then text_of a else a @ text_of b)"
  by (induction a) auto

section \<open>The string routines\<close>

lemma strlen_loop_terminated:
  "terminated s \<Longrightarrow> strlen_loop s n = Inr (n + length (text_of s))"
  by (induction s arbitrary: n) auto

lemma strlen_loop_unterminated: "\<not> terminated s \<Longrightarrow> strlen_loop s n = Inl OutOfBounds"
  by (induction s arbitrary: n) auto

lemma strlen_terminated [simp]: "terminated s \<Longrightarrow> strlen s = Inr (length (text_of s))"
  by (simp add: strlen_def strlen_loop_terminated)

lemma text_of_take:
  assumes "take (length l + 1) b = l @ [NUL]" and "NUL \<notin> set l"
  shows "terminated b \<and> text_of b = l"
proof -
  obtain r where "b = (l @ [NUL]) @ r" using assms(1) by (metis append_take_drop_id)
  then show ?thesis using assms(2) by (simp add: text_of_def takeWhile_append)
qed

lemma terminated_replicate [simp]: "terminated (replicate n NUL) \<longleftrightarrow> n \<noteq> 0"
  by (simp add: terminated_def)

lemma strlen_iff: "strlen s = Inr n \<longleftrightarrow> terminated s \<and> n = length (text_of s)"
  by (cases "terminated s") (auto simp: strlen_def strlen_loop_unterminated strlen_loop_terminated)

lemma strcmp_terminated:
  assumes "terminated s" and "terminated t"
  shows "\<exists>d. strcmp s t = Inr d \<and> (d = 0 \<longleftrightarrow> text_of s = text_of t) \<and>
    (d < 0 \<longleftrightarrow> (text_of s, text_of t) \<in> lexord {(a, b). uchar a < uchar b})"
  using assms
proof (induction s t rule: strcmp.induct)
  case (1 a s1 b s2)
  have pos: "uchar ch > 0" if "ch \<noteq> NUL" for ch
  proof -
    have "uchar ch \<noteq> uchar NUL" using that by simp
    moreover have "uchar NUL = 0" by (simp add: uchar_def)
    ultimately show ?thesis using uchar_range(1)[of ch] by linarith
  qed
  have zero: "uchar NUL = 0" by (simp add: uchar_def)
  show ?case
  proof (cases "a \<noteq> NUL \<and> a = b")
    case True
    with "1.IH" "1.prems" show ?thesis by auto
  next
    case False
    then show ?thesis using pos[of a] pos[of b] by (cases "a = NUL"; cases "b = NUL") (auto simp: zero)
  qed
qed auto

lemma strcmp_eq_0:
  "terminated s \<Longrightarrow> terminated t \<Longrightarrow> strcmp s t = Inr 0 \<longleftrightarrow> text_of s = text_of t"
  using strcmp_terminated[of s t] by auto

lemma strcmp_Inr: "terminated s \<Longrightarrow> terminated t \<Longrightarrow> \<exists>d. strcmp s t = Inr d"
  using strcmp_terminated[of s t] by auto

lemma strncmp_terminated:
  assumes "terminated s" and "terminated t"
  shows "\<exists>d. strncmp s t n = Inr d \<and> (d = 0 \<longleftrightarrow> take n (text_of s) = take n (text_of t))"
  using assms
proof (induction s t n rule: strncmp.induct)
  case (2 a s1 b s2 n)
  then show ?case by (cases "a = NUL"; cases "b = NUL") auto
qed auto

lemma strncmp_eq_0:
  "terminated s \<Longrightarrow> terminated t \<Longrightarrow>
   strncmp s t n = Inr 0 \<longleftrightarrow> take n (text_of s) = take n (text_of t)"
  using strncmp_terminated[of s t n] by auto

lemma strncpy_copy_spec:
  assumes "terminated src \<or> n - i \<le> length src" and "n \<le> length dest" and "i \<le> n"
  shows "strncpy_copy dest src i n =
    (let w = take (n - i) (text_of src)
     in Inr (take i dest @ w @ drop (i + length w) dest, i + length w))"
  using assms
proof (induction dest src i n rule: strncpy_copy.induct)
  case (1 dest i n)
  then show ?case by (auto simp: Let_def)
next
  case (2 dest ch src i n)
  show ?case
  proof (cases "i < n \<and> ch \<noteq> NUL")
    case True
    then have i: "i < length dest" and w: "take (n - i) (ch # text_of src) = ch # take (n - (i + 1)) (text_of src)"
      using "2.prems" by (auto simp: take_Cons' numeral_eq_Suc)
    have "strncpy_copy (dest[i := ch]) src (i + 1) n =
       (let w = take (n - (i + 1)) (text_of src)
        in Inr (take (i + 1) (dest[i := ch]) @ w @ drop (i + 1 + length w) (dest[i := ch]), i + 1 + length w))"
    proof -
      have "terminated src \<or> n - (i + 1) \<le> length src" using "2.prems"(1) True by auto
      with "2.IH" [of "dest[i := ch]"] "2.prems" True i show ?thesis by simp
    qed
    moreover have "take (i + 1) (dest[i := ch]) = take i dest @ [ch]"
      using i by (simp add: take_Suc_conv_app_nth)
    ultimately show ?thesis
      using True i w by (auto simp: Let_def min_def)
  next
    case False
    then show ?thesis using "2.prems" by (auto simp: Let_def)
  qed
qed

lemma fill_spec:
  "i \<le> n \<Longrightarrow> n \<le> length d \<Longrightarrow>
   foldE (\<lambda>j d. put d j v) [i..<n] d = Inr (take i d @ replicate (n - i) v @ drop n d)"
proof (induction "n - i" arbitrary: i d)
  case 0
  then show ?case by simp
next
  case (Suc k)
  then have "i < n" by simp
  then have "[i..<n] = i # [Suc i..<n]" by (simp add: upt_conv_Cons)
  moreover have "foldE (\<lambda>j d. put d j v) [Suc i..<n] (d[i := v]) =
      Inr (take (Suc i) (d[i := v]) @ replicate (n - Suc i) v @ drop n (d[i := v]))"
    using Suc by simp
  moreover have "take (Suc i) (d[i := v]) = take i d @ [v]"
    using \<open>i < n\<close> Suc.prems by (simp add: take_Suc_conv_app_nth)
  moreover have "replicate (n - i) v = v # replicate (n - Suc i) v"
    using \<open>i < n\<close> by (metis Suc_diff_Suc replicate_Suc)
  ultimately show ?case using Suc.prems \<open>i < n\<close> by simp
qed

lemma strncpy_spec:
  assumes "terminated src \<or> n \<le> length src" and "n \<le> length dest"
  shows "strncpy dest src n =
    Inr (take n (text_of src @ replicate n NUL) @ drop n dest)"
proof (cases "n = 0")
  case True
  then show ?thesis by (simp add: strncpy_def)
next
  case False
  let ?w = "take n (text_of src)"
  have "strncpy_copy dest src 0 n = Inr (?w @ drop (length ?w) dest, length ?w)"
    using strncpy_copy_spec[of src n 0 dest] assms by (simp add: Let_def)
  moreover have "foldE (\<lambda>j d. put d j NUL) [length ?w..<n] (?w @ drop (length ?w) dest) =
     Inr (?w @ replicate (n - length ?w) NUL @ drop n dest)"
    using assms by (subst fill_spec) (auto simp: min_def)
  ultimately show ?thesis using False
    by (simp add: strncpy_def min_def)
qed

lemma memset_spec: "n \<le> length s \<Longrightarrow> memset s v n = Inr (replicate n (to_char v) @ drop n s)"
  by (simp add: memset_def fill_spec[of 0 n, simplified])

lemma memcpy_spec:
  "n \<le> length s1 \<Longrightarrow> n \<le> length s2 \<Longrightarrow> memcpy s1 s2 n = Inr (take n s2 @ drop n s1)"
proof (induction n)
  case 0
  then show ?case by (simp add: memcpy_def)
next
  case (Suc n)
  have "memcpy s1 s2 (Suc n) = bindE (memcpy s1 s2 n) (\<lambda>d. bindE (peek s2 n) (put d n))"
    by (simp add: memcpy_def foldE_append cong: bindE_cong)
  also have "\<dots> = Inr ((take n s2 @ drop n s1)[n := s2 ! n])"
    using Suc by simp
  also have "(take n s2 @ drop n s1)[n := s2 ! n] = take (Suc n) s2 @ drop (Suc n) s1"
    using Suc.prems
    by (simp add: list_update_append take_Suc_conv_app_nth Cons_nth_drop_Suc[symmetric, of n s1])
  finally show ?case .
qed

lemma copy_from_spec:
  assumes "terminated src" and "off + length (text_of src) < length dest"
  shows "copy_from dest off src =
    Inr (take off dest @ text_of src @ NUL # drop (off + length (text_of src) + 1) dest)"
  using assms
proof (induction src arbitrary: dest off)
  case Nil
  then show ?case by simp
next
  case (Cons ch src)
  show ?case
  proof (cases "ch = NUL")
    case True
    with Cons.prems show ?thesis by (simp add: upd_conv_take_nth_drop)
  next
    case False
    with Cons have "copy_from (dest[off := ch]) (off + 1) src = Inr (take (off + 1) (dest[off := ch]) @
        text_of src @ NUL # drop (off + 1 + length (text_of src) + 1) (dest[off := ch]))"
      by auto
    with False Cons.prems show ?thesis by (simp add: take_Suc_conv_app_nth)
  qed
qed

lemma my_strcpy_spec:
  "terminated src \<Longrightarrow> length (text_of src) < length dest \<Longrightarrow>
   my_strcpy dest src = Inr (text_of src @ NUL # drop (length (text_of src) + 1) dest)"
  by (simp add: my_strcpy_def copy_from_spec)

lemma my_strcat_spec:
  assumes "terminated dest" and "terminated src"
    and "length (text_of dest) + length (text_of src) < length dest"
  shows "my_strcat dest src = Inr (text_of dest @ text_of src @ NUL #
    drop (length (text_of dest) + length (text_of src) + 1) dest)"
proof -
  have "take (length (text_of dest)) dest = text_of dest"
    using terminated_split[OF assms(1)] by (metis append_eq_conv_conj)
  with assms show ?thesis
    by (simp add: my_strcat_def strlen_loop_terminated copy_from_spec)
qed

section \<open>trim\_Input\<close>

definition line_end :: "char \<Rightarrow> bool" where
  "line_end ch \<longleftrightarrow> ch = LF \<or> ch = CR"

definition rstrip :: "string \<Rightarrow> string" where
  "rstrip s = rev (dropWhile line_end (rev s))"

lemma trim_loop_spec:
  "NUL \<notin> set s \<Longrightarrow> \<exists>pad. trim_loop (s @ NUL # r) (length s) = Inr (rstrip s @ NUL # pad)
     \<and> length (rstrip s @ NUL # pad) = length (s @ NUL # r)"
proof (induction s arbitrary: r rule: rev_induct)
  case Nil
  then show ?case by (simp add: rstrip_def)
next
  case (snoc ch s)
  show ?case
  proof (cases "line_end ch")
    case True
    then have "trim_loop ((s @ [ch]) @ NUL # r) (length (s @ [ch])) =
        trim_loop (s @ NUL # NUL # r) (length s)"
      by (simp add: line_end_def nth_append list_update_append)
    moreover have "rstrip (s @ [ch]) = rstrip s" using True by (simp add: rstrip_def)
    ultimately show ?thesis using snoc.IH [of "NUL # r"] snoc.prems by auto
  next
    case False
    then show ?thesis by (simp add: line_end_def rstrip_def nth_append)
  qed
qed

lemma trim_Input_spec:
  assumes "terminated str"
  shows "\<exists>str'. trim_Input str = Inr str' \<and> length str' = length str \<and> terminated str' \<and>
    text_of str' = rstrip (text_of str)"
proof -
  obtain r where r: "str = text_of str @ NUL # r" using terminated_split[OF assms] by blast
  obtain pad where "trim_loop (text_of str @ NUL # r) (length (text_of str)) =
      Inr (rstrip (text_of str) @ NUL # pad)"
    and "length (rstrip (text_of str) @ NUL # pad) = length str"
    using trim_loop_spec[of "text_of str" r] r by auto
  moreover have "NUL \<notin> set (rstrip (text_of str))"
    by (auto simp: rstrip_def dest!: set_dropWhileD)
  ultimately show ?thesis using assms r
    by (auto simp: trim_Input_def text_of_append_NUL)
qed

section \<open>atoi\<close>

text \<open>The character of a decimal digit and the value of a list of digits.\<close>

definition digit_char :: "nat \<Rightarrow> char" where
  "digit_char d = to_char (48 + int d)"

definition digits_value :: "nat list \<Rightarrow> nat" where
  "digits_value ds = foldl (\<lambda>r d. r * 10 + d) 0 ds"

lemma digits_value_snoc [simp]: "digits_value (ds @ [d]) = digits_value ds * 10 + d"
  by (simp add: digits_value_def)

lemma digits_value_Nil [simp]: "digits_value [] = 0"
  by (simp add: digits_value_def)

lemma schar_digit_char: "d < 10 \<Longrightarrow> schar (digit_char d) = 48 + int d"
  by (simp add: schar_alt digit_char_def)

lemma schar_0_9 [simp]: "schar (CHR ''0'') = 48" "schar (CHR ''9'') = 57"
  by (simp_all add: schar_def)

lemma is_digit_digit_char: "d < 10 \<Longrightarrow> is_digit_char (digit_char d)"
  by (simp add: is_digit_char_def schar_digit_char)

lemma is_digit_char_iff: "is_digit_char ch \<longleftrightarrow> (\<exists>d<10. ch = digit_char d)"
proof
  assume "is_digit_char ch"
  then have b: "48 \<le> schar ch" "schar ch \<le> 57" by (simp_all add: is_digit_char_def)
  then have "ch = digit_char (nat (schar ch - 48))"
    by (metis add.commute diff_add_cancel digit_char_def diff_ge_0_iff_ge nat_0_le to_char_schar)
  moreover have "nat (schar ch - 48) < 10" using b by linarith
  ultimately show "\<exists>d<10. ch = digit_char d" by blast
qed (auto simp: is_digit_digit_char)

lemma foldl_digits: "foldl (\<lambda>r d. r * 10 + d) r ds = r * 10 ^ length ds + digits_value ds"
  for r :: nat
  by (induction ds arbitrary: r rule: rev_induct) (auto simp: algebra_simps)

lemma digits_value_Cons: "digits_value (d # ds) = d * 10 ^ length ds + digits_value ds"
  using foldl_digits[of d ds] by (simp add: digits_value_def)

lemma atoi_digits_spec:
  assumes "\<forall>d\<in>set ds. d < 10" and "\<not> is_digit_char ch"
    and "r * 10 ^ length ds + digits_value ds \<le> 2147483647"
  shows "atoi_digits (map digit_char ds @ ch # rest) (int r) =
    Inr (int (r * 10 ^ length ds + digits_value ds))"
  using assms
proof (induction ds arbitrary: r)
  case Nil
  then show ?case by simp
next
  case (Cons d ds)
  let ?r = "r * 10 + d"
  have val: "r * 10 ^ length (d # ds) + digits_value (d # ds) = ?r * 10 ^ length ds + digits_value ds"
    by (simp add: digits_value_Cons algebra_simps)
  have "?r \<le> ?r * 10 ^ length ds" by simp
  also have "\<dots> \<le> ?r * 10 ^ length ds + digits_value ds" by simp
  also have "\<dots> \<le> 2147483647" using Cons.prems(3) val by simp
  finally have le: "?r \<le> 2147483647" .
  have "atoi_digits (map digit_char (d # ds) @ ch # rest) (int r) =
      atoi_digits (map digit_char ds @ ch # rest) (int ?r)"
    using Cons.prems(1) le by (simp add: is_digit_digit_char schar_digit_char algebra_simps)
  also have "\<dots> = Inr (int (?r * 10 ^ length ds + digits_value ds))"
    using Cons.prems val by (intro Cons.IH) auto
  finally show ?case using val by simp
qed

lemma digit_char_not:
  "d < 10 \<Longrightarrow> digit_char d \<noteq> CHR ''-'' \<and> digit_char d \<noteq> CHR ''+'' \<and> \<not> isspace (digit_char d)
    \<and> digit_char d \<noteq> NUL \<and> digit_char d \<noteq> CHR '' ''"
  using schar_digit_char[of d] by (auto simp: isspace_def schar_def)

lemma atoi_unsigned:
  assumes "ds \<noteq> []" and "\<forall>d\<in>set ds. d < 10" and "\<not> is_digit_char ch"
    and "digits_value ds \<le> 2147483647"
  shows "atoi (map digit_char ds @ ch # rest) = Inr (int (digits_value ds))"
proof -
  obtain d ds' where ds: "ds = d # ds'" using assms(1) by (cases ds) auto
  then have "d < 10" using assms(2) by simp
  note nc = digit_char_not[OF this]
  have "atoi_digits (map digit_char ds @ ch # rest) 0 = Inr (int (digits_value ds))"
    using atoi_digits_spec[of ds ch 0 rest] assms by simp
  then show ?thesis using nc ds by (simp add: atoi_def)
qed

lemma atoi_negative:
  assumes "\<forall>d\<in>set ds. d < 10" and "\<not> is_digit_char ch" and "digits_value ds \<le> 2147483647"
  shows "atoi (CHR ''-'' # map digit_char ds @ ch # rest) = Inr (- int (digits_value ds))"
proof -
  have "atoi_digits (map digit_char ds @ ch # rest) 0 = Inr (int (digits_value ds))"
    using atoi_digits_spec[of ds ch 0 rest] assms by simp
  then show ?thesis using assms(3) by (simp add: atoi_def isspace_def)
qed

lemma NUL_not_digit [simp]: "\<not> is_digit_char NUL"
  by (simp add: is_digit_char_def schar_def)

lemma atoi_skips_spaces: "isspace ch \<Longrightarrow> atoi (ch # s) = atoi s"
  by (simp add: atoi_def)

lemma atoi_no_digits: "\<not> isspace ch \<Longrightarrow> ch \<noteq> CHR ''-'' \<Longrightarrow> ch \<noteq> CHR ''+'' \<Longrightarrow> \<not> is_digit_char ch \<Longrightarrow>
  atoi (ch # s) = Inr 0"
  by (simp add: atoi_def)

lemmas strncmp_numeral [simp] =
  strncmp.simps(2) [where n = "pred_numeral k" for k, folded numeral_eq_Suc]
  strncmp.simps(3) [where n = "pred_numeral k" for k, folded numeral_eq_Suc]
  strncmp.simps(4) [where n = "pred_numeral k" for k, folded numeral_eq_Suc]

lemma strncmp_eval_test: "strncmp (lit ''exit force'') (lit ''exit'') 4 = Inr 0"
  by (simp add: lit_def)

section \<open>Properties\<close>

text \<open>\<open>strcmp\<close> on two NUL-terminated strings returns, reads neither beyond its NUL,
  is 0 exactly for equal texts, and negative exactly when the first is lexicographically
  smaller by unsigned character value; \<open>strncmp\<close> is 0 exactly for equal prefixes.\<close>

theorem strcmp_compares:
  assumes "terminated s" and "terminated t"
  shows "(\<exists>d. strcmp s t = Inr d \<and> (d = 0 \<longleftrightarrow> text_of s = text_of t) \<and>
      (d < 0 \<longleftrightarrow> (text_of s, text_of t) \<in> lexord {(a, b). uchar a < uchar b})) \<and>
    (\<exists>d. strncmp s t n = Inr d \<and> (d = 0 \<longleftrightarrow> take n (text_of s) = take n (text_of t)))"
  using strcmp_terminated[OF assms] strncmp_terminated[OF assms] by blast

text \<open>\<open>strncpy\<close> writes the text of the source, cut to \<open>n\<close> characters and filled
  up with NULs to \<open>n\<close>, and leaves the rest of the destination; a source of \<open>n\<close> or more
  characters therefore gives no NUL.\<close>

theorem strncpy_copies:
  assumes "terminated src" and "n \<le> length dest"
  shows "strncpy dest src n = Inr (take n (text_of src @ replicate n NUL) @ drop n dest)"
  using strncpy_spec[of src n dest] assms by simp

text \<open>\<open>trim_Input\<close> removes exactly the CR and LF characters at the end of the
  text, in place.\<close>

theorem trim_Input_trims:
  assumes "terminated str"
  shows "\<exists>str'. trim_Input str = Inr str' \<and> length str' = length str \<and> terminated str' \<and>
    text_of str' = rev (dropWhile (\<lambda>ch. ch = LF \<or> ch = CR) (rev (text_of str)))"
proof -
  have "line_end = (\<lambda>ch. ch = LF \<or> ch = CR)" by (simp add: fun_eq_iff line_end_def)
  then show ?thesis using trim_Input_spec[OF assms] by (simp add: rstrip_def)
qed

end
