(* ===== verification/PcbQueue.thy ===== *)
theory PcbQueue
  imports CStrings
begin

text \<open>
  The process control blocks and their four queues: \<^verbatim>\<open>include/pcb.h\<close> and the queue
  operations of \<^verbatim>\<open>kernel/pcb.c\<close> (\<open>pcb_find\<close>, \<open>pcb_insert\<close>, \<open>pcb_remove\<close>).

  The heap of PCBs is a map from addresses to records; the queues are doubly linked lists
  through the \<open>next\<close> and \<open>prev\<close> fields, with a head and a tail pointer each. The four
  global queue variables are indexed by \<open>qid\<close>, which plays the part of the
  \<open>struct pcb_queue *\<close> the code selects. Every read and write goes through a pointer, so
  a NULL or dangling pointer is a stop; a walk along \<open>next\<close> pointers is a partial function
  whose \<open>None\<close> is the loop that never ends.

  \<open>rep s A\<close> says that the pointers of \<open>s\<close> represent the four lists \<open>A\<close>; the lemmas
  show that the code refines the list operations \<open>ins_ready\<close> (stable insertion by
  priority), append and \<open>remove1\<close>, keeps the representation, and never stops.
\<close>

type_synonym addr = "32 word"

abbreviation NULL :: addr where "NULL \<equiv> 0"

section \<open>include/pcb.h\<close>

datatype process_class = CLASS_SYSTEM | CLASS_USER

datatype execution_state = STATE_READY | STATE_RUNNING | STATE_BLOCKED

datatype dispatch_state = DISPATCH_ACTIVE | DISPATCH_SUSPENDED

record pcb =
  pname :: cbuf
  process_class :: process_class
  priority :: int
  execution_state :: execution_state
  dispatch_state :: dispatch_state
  pargs :: addr
  pstack :: addr
  contextPtr :: addr
  pnext :: addr
  pprev :: addr

record pcb_queue =
  head :: addr
  tail :: addr

datatype qid = ReadyQ | BlockedQ | SuspReadyQ | SuspBlockedQ

record pcb_state =
  pcbs :: "addr \<Rightarrow> pcb option"
  queues :: "qid \<Rightarrow> pcb_queue"

text \<open>The queues as they are initialised: all empty.\<close>

definition init_pcb_state :: pcb_state where
  "init_pcb_state = \<lparr>pcbs = (\<lambda>_. None), queues = (\<lambda>_. \<lparr>head = NULL, tail = NULL\<rparr>)\<rparr>"

section \<open>Statements on a PCB and on a queue\<close>

definition load :: "addr \<Rightarrow> pcb_state \<Rightarrow> pcb c" where
  "load a s =
     (if a = NULL then Inl NullDeref
      else case pcbs s a of None \<Rightarrow> Inl BadPointer | Some p \<Rightarrow> Inr p)"

definition modify :: "addr \<Rightarrow> (pcb \<Rightarrow> pcb) \<Rightarrow> pcb_state \<Rightarrow> pcb_state c" where
  "modify a f s = bindE (load a s) (\<lambda>p. Inr (s\<lparr>pcbs := (pcbs s)(a \<mapsto> f p)\<rparr>))"

definition set_next :: "addr \<Rightarrow> addr \<Rightarrow> pcb_state \<Rightarrow> pcb_state c" where
  "set_next a v = modify a (\<lambda>p. p\<lparr>pnext := v\<rparr>)"

definition set_prev :: "addr \<Rightarrow> addr \<Rightarrow> pcb_state \<Rightarrow> pcb_state c" where
  "set_prev a v = modify a (\<lambda>p. p\<lparr>pprev := v\<rparr>)"

definition set_head :: "qid \<Rightarrow> addr \<Rightarrow> pcb_state \<Rightarrow> pcb_state" where
  "set_head q v s = s\<lparr>queues := (queues s)(q := (queues s q)\<lparr>head := v\<rparr>)\<rparr>"

definition set_tail :: "qid \<Rightarrow> addr \<Rightarrow> pcb_state \<Rightarrow> pcb_state" where
  "set_tail q v s = s\<lparr>queues := (queues s)(q := (queues s q)\<lparr>tail := v\<rparr>)\<rparr>"

section \<open>kernel/pcb.c: the queue operations\<close>

text \<open>The queue a PCB belongs to by its dispatch and execution state; a running PCB
  counts as not blocked.\<close>

definition select_queue :: "pcb \<Rightarrow> qid" where
  "select_queue p =
     (if dispatch_state p = DISPATCH_SUSPENDED
      then if execution_state p = STATE_BLOCKED then SuspBlockedQ else SuspReadyQ
      else if execution_state p = STATE_BLOCKED then BlockedQ else ReadyQ)"

partial_function (option) find_loop :: "(addr \<Rightarrow> pcb option) \<Rightarrow> cbuf \<Rightarrow> addr \<Rightarrow> addr c option" where
  "find_loop h nm find_ptr =
     (if find_ptr = NULL then Some (Inr NULL)
      else case h find_ptr of
        None \<Rightarrow> Some (Inl BadPointer)
      | Some p \<Rightarrow>
          (case strcmp (pname p) nm of
             Inl e \<Rightarrow> Some (Inl e)
           | Inr d \<Rightarrow> if d = 0 then Some (Inr find_ptr) else find_loop h nm (pnext p)))"

definition pcb_find :: "cptr \<Rightarrow> pcb_state \<Rightarrow> addr c" where
  "pcb_find nm s =
     (case nm of None \<Rightarrow> Inr NULL
      | Some nm \<Rightarrow>
          foldE (\<lambda>q found.
              if found \<noteq> NULL then Inr found
              else loop_result (find_loop (pcbs s) nm (head (queues s q))))
            [ReadyQ, BlockedQ, SuspReadyQ, SuspBlockedQ] NULL)"

text \<open>The walk of the priority-ordered insertion: the first PCB of lower priority.\<close>

partial_function (option) scan_ready :: "(addr \<Rightarrow> pcb option) \<Rightarrow> int \<Rightarrow> addr \<Rightarrow> addr c option" where
  "scan_ready h pr cur =
     (if cur = NULL then Some (Inr NULL)
      else case h cur of
        None \<Rightarrow> Some (Inl BadPointer)
      | Some p \<Rightarrow> if priority p \<le> pr then scan_ready h pr (pnext p) else Some (Inr cur))"

text \<open>Insertion at the tail, which the code has for the ready queue and for the others.\<close>

definition insert_tail :: "qid \<Rightarrow> addr \<Rightarrow> pcb_state \<Rightarrow> pcb_state c" where
  "insert_tail q ptr s =
     (if head (queues s q) = NULL then Inr (set_head q ptr (set_tail q ptr s))
      else bindE (set_next (tail (queues s q)) ptr s) (\<lambda>s.
           bindE (set_prev ptr (tail (queues s q)) s) (\<lambda>s.
           Inr (set_tail q ptr s))))"

definition insert_before :: "qid \<Rightarrow> addr \<Rightarrow> addr \<Rightarrow> pcb_state \<Rightarrow> pcb_state c" where
  "insert_before q cur ptr s =
     bindE (set_next ptr cur s) (\<lambda>s.
     bindE (load cur s) (\<lambda>c.
     bindE (set_prev ptr (pprev c) s) (\<lambda>s.
     bindE (load cur s) (\<lambda>c.
     bindE (if pprev c \<noteq> NULL then set_next (pprev c) ptr s else Inr (set_head q ptr s)) (\<lambda>s.
     set_prev cur ptr s)))))"

definition pcb_insert :: "addr \<Rightarrow> pcb_state \<Rightarrow> pcb_state c" where
  "pcb_insert ptr s =
     (if ptr = NULL then Inr s
      else bindE (load ptr s) (\<lambda>p.
        let q = select_queue p
        in if q = ReadyQ
           then bindE (loop_result (scan_ready (pcbs s) (priority p) (head (queues s q)))) (\<lambda>cur.
                  if cur = NULL then insert_tail q ptr s else insert_before q cur ptr s)
           else insert_tail q ptr s))"

definition pcb_remove :: "addr \<Rightarrow> pcb_state \<Rightarrow> (int \<times> pcb_state) c" where
  "pcb_remove ptr s =
     (if ptr = NULL then Inr (-1, s)
      else bindE (load ptr s) (\<lambda>p.
        let q = select_queue p
        in if head (queues s q) = NULL then Inr (-1, s)
           else bindE (if pprev p \<noteq> NULL then set_next (pprev p) (pnext p) s
                       else Inr (set_head q (pnext p) s)) (\<lambda>s.
                bindE (load ptr s) (\<lambda>p.
                bindE (if pnext p \<noteq> NULL then set_prev (pnext p) (pprev p) s
                       else Inr (set_tail q (pprev p) s)) (\<lambda>s.
                bindE (set_prev ptr NULL s) (\<lambda>s.
                bindE (set_next ptr NULL s) (\<lambda>s.
                Inr (0, s))))))))"

section \<open>Linked segments\<close>

text \<open>
  \<open>seg h pv xs nx\<close>: the PCBs \<open>xs\<close> are linked in this order, the first one's \<open>prev\<close> is
  \<open>pv\<close> and the last one's \<open>next\<close> is \<open>nx\<close>.
\<close>

fun seg :: "(addr \<Rightarrow> pcb option) \<Rightarrow> addr \<Rightarrow> addr list \<Rightarrow> addr \<Rightarrow> bool" where
  "seg h pv [] nx = True"
| "seg h pv (x # xs) nx =
     (x \<noteq> NULL \<and>
      (case h x of None \<Rightarrow> False | Some p \<Rightarrow> pprev p = pv \<and> pnext p = first_or nx xs) \<and>
      seg h x xs nx)"

lemma seg_append:
  "seg h pv (xs @ ys) nx \<longleftrightarrow> seg h pv xs (first_or nx ys) \<and> seg h (last_or pv xs) ys nx"
  by (induction xs arbitrary: pv) (auto simp: first_or_append split: option.splits)

lemma seg_live: "seg h pv xs nx \<Longrightarrow> a \<in> set xs \<Longrightarrow> a \<noteq> NULL \<and> (\<exists>p. h a = Some p)"
  by (induction xs arbitrary: pv) (auto split: option.splits)

lemma seg_cong:
  "seg h pv xs nx \<Longrightarrow> (\<And>a. a \<in> set xs \<Longrightarrow> h' a = h a) \<Longrightarrow> seg h' pv xs nx"
  by (induction xs arbitrary: pv) auto

lemma seg_at:
  assumes "seg h pv (xs @ a # ys) nx"
  obtains p where "h a = Some p" "pprev p = last_or pv xs" "pnext p = first_or nx ys" "a \<noteq> NULL"
  using assms by (auto simp: seg_append split: option.splits)

text \<open>A heap that differs only in the \<open>next\<close> of the last PCB, or the \<open>prev\<close> of the
  first one, links the segment to another neighbour.\<close>

lemma seg_new_next:
  assumes "seg h pv xs nx" and "distinct xs"
    and "\<And>a. a \<in> set xs \<Longrightarrow> a \<noteq> last xs \<Longrightarrow> h' a = h a"
    and "xs \<noteq> [] \<Longrightarrow> h' (last xs) = map_option (\<lambda>p. p\<lparr>pnext := nx'\<rparr>) (h (last xs))"
  shows "seg h' pv xs nx'"
proof (cases xs rule: rev_cases)
  case Nil
  then show ?thesis by simp
next
  case (snoc ys l)
  have "seg h pv ys l" using assms(1) snoc by (simp add: seg_append)
  then have "seg h' pv ys l" using assms(2,3) snoc by (auto intro: seg_cong)
  then show ?thesis using assms snoc by (auto simp: seg_append split: option.splits)
qed

lemma seg_new_prev:
  assumes "seg h pv xs nx" and "distinct xs"
    and "\<And>a. a \<in> set xs \<Longrightarrow> a \<noteq> hd xs \<Longrightarrow> h' a = h a"
    and "xs \<noteq> [] \<Longrightarrow> h' (hd xs) = map_option (\<lambda>p. p\<lparr>pprev := pv'\<rparr>) (h (hd xs))"
  shows "seg h' pv' xs nx"
proof (cases xs)
  case Nil
  then show ?thesis by simp
next
  case (Cons x ys)
  have "seg h x ys nx" using assms(1) Cons by simp
  then have "seg h' x ys nx" using assms(2,3) Cons by (auto intro: seg_cong)
  then show ?thesis using assms Cons by (auto split: option.splits)
qed

section \<open>The representation of the four queues\<close>

definition queue_rep :: "(addr \<Rightarrow> pcb option) \<Rightarrow> pcb_queue \<Rightarrow> addr list \<Rightarrow> bool" where
  "queue_rep h q xs \<longleftrightarrow>
     head q = first_or NULL xs \<and> tail q = last_or NULL xs \<and> seg h NULL xs NULL \<and> distinct xs"

definition prio_of :: "pcb_state \<Rightarrow> addr \<Rightarrow> int" where
  "prio_of s a = (case pcbs s a of None \<Rightarrow> 0 | Some p \<Rightarrow> priority p)"

definition queued :: "(qid \<Rightarrow> addr list) \<Rightarrow> addr \<Rightarrow> bool" where
  "queued A a \<longleftrightarrow> (\<exists>q. a \<in> set (A q))"

definition in_home_queue :: "pcb_state \<Rightarrow> (qid \<Rightarrow> addr list) \<Rightarrow> bool" where
  "in_home_queue s A \<longleftrightarrow> (\<forall>q. \<forall>a \<in> set (A q). map_option select_queue (pcbs s a) = Some q)"

definition detached_unlinked :: "pcb_state \<Rightarrow> (qid \<Rightarrow> addr list) \<Rightarrow> bool" where
  "detached_unlinked s A \<longleftrightarrow>
     (\<forall>a p. pcbs s a = Some p \<longrightarrow> \<not> queued A a \<longrightarrow> pnext p = NULL \<and> pprev p = NULL)"

definition rep :: "pcb_state \<Rightarrow> (qid \<Rightarrow> addr list) \<Rightarrow> bool" where
  "rep s A \<longleftrightarrow>
     (\<forall>q. queue_rep (pcbs s) (queues s q) (A q)) \<and>
     in_home_queue s A \<and>
     sorted (map (prio_of s) (A ReadyQ)) \<and>
     pcbs s NULL = None \<and>
     detached_unlinked s A"

text \<open>Two states that differ in the links and queue pointers only.\<close>

definition unlinked :: "pcb \<Rightarrow> pcb" where
  "unlinked p = p\<lparr>pnext := NULL, pprev := NULL\<rparr>"

definition same_pcbs :: "pcb_state \<Rightarrow> pcb_state \<Rightarrow> bool" where
  "same_pcbs s s' \<longleftrightarrow> (\<forall>a. map_option unlinked (pcbs s' a) = map_option unlinked (pcbs s a))"

text \<open>Stable insertion by priority (0 is the highest): behind every PCB of the same or a
  higher priority, before the others.\<close>

definition ins_ready :: "('a \<Rightarrow> int) \<Rightarrow> 'a \<Rightarrow> 'a list \<Rightarrow> 'a list" where
  "ins_ready pr a xs = takeWhile (\<lambda>x. pr x \<le> pr a) xs @ a # dropWhile (\<lambda>x. pr x \<le> pr a) xs"

definition place :: "pcb_state \<Rightarrow> addr \<Rightarrow> qid \<Rightarrow> addr list \<Rightarrow> addr list" where
  "place s a q xs = (if q = ReadyQ then ins_ready (prio_of s) a xs else xs @ [a])"

lemma repD:
  assumes "rep s A"
  shows "head (queues s q) = first_or NULL (A q)" "tail (queues s q) = last_or NULL (A q)"
    "seg (pcbs s) NULL (A q) NULL" "distinct (A q)" "pcbs s NULL = None"
    "sorted (map (prio_of s) (A ReadyQ))"
  using assms by (auto simp: rep_def queue_rep_def)

lemma rep_home: "rep s A \<Longrightarrow> a \<in> set (A q) \<Longrightarrow> \<exists>p. pcbs s a = Some p \<and> select_queue p = q \<and> a \<noteq> NULL"
  by (fastforce simp: rep_def in_home_queue_def)

lemma rep_unique_queue: "rep s A \<Longrightarrow> a \<in> set (A q) \<Longrightarrow> a \<in> set (A q') \<Longrightarrow> q = q'"
  by (metis option.inject rep_home)

lemma rep_detached:
  "rep s A \<Longrightarrow> pcbs s a = Some p \<Longrightarrow> \<not> queued A a \<Longrightarrow> pnext p = NULL \<and> pprev p = NULL \<and> a \<noteq> NULL"
  by (auto simp: rep_def detached_unlinked_def)

lemma rep_init: "rep init_pcb_state (\<lambda>_. [])"
  by (simp add: rep_def init_pcb_state_def queue_rep_def in_home_queue_def detached_unlinked_def)

lemma load_Inr [simp]: "load a s = Inr p \<longleftrightarrow> a \<noteq> NULL \<and> pcbs s a = Some p"
  by (auto simp: load_def split: option.splits)

lemma load_live: "a \<noteq> NULL \<Longrightarrow> pcbs s a = Some p \<Longrightarrow> load a s = Inr p"
  by simp

lemma modify_live:
  "a \<noteq> NULL \<Longrightarrow> pcbs s a = Some p \<Longrightarrow> modify a f s = Inr (s\<lparr>pcbs := (pcbs s)(a \<mapsto> f p)\<rparr>)"
  by (simp add: modify_def load_live)

lemma same_pcbs_refl [simp]: "same_pcbs s s"
  by (simp add: same_pcbs_def)

lemma same_pcbs_trans: "same_pcbs s t \<Longrightarrow> same_pcbs t u \<Longrightarrow> same_pcbs s u"
  by (simp add: same_pcbs_def)

lemma same_pcbs_Some:
  assumes "same_pcbs s s'" and "pcbs s a = Some p"
  obtains p' where "pcbs s' a = Some p'" "unlinked p' = unlinked p"
  using assms unfolding same_pcbs_def by (metis map_option_eq_Some option.simps(9))

lemma same_pcbs_dom: "same_pcbs s s' \<Longrightarrow> dom (pcbs s') = dom (pcbs s)"
  unfolding same_pcbs_def dom_def by (metis map_option_is_None)

lemma unlinked_sel [simp]:
  "pname (unlinked p) = pname p" "process_class (unlinked p) = process_class p"
  "priority (unlinked p) = priority p" "execution_state (unlinked p) = execution_state p"
  "dispatch_state (unlinked p) = dispatch_state p" "pargs (unlinked p) = pargs p"
  "pstack (unlinked p) = pstack p" "contextPtr (unlinked p) = contextPtr p"
  "select_queue (unlinked p) = select_queue p"
  by (simp_all add: unlinked_def select_queue_def)

lemma unlinked_fields:
  assumes "unlinked p = unlinked q"
  shows "pname p = pname q" "process_class p = process_class q" "priority p = priority q"
    "execution_state p = execution_state q" "dispatch_state p = dispatch_state q"
    "pargs p = pargs q" "pstack p = pstack q" "contextPtr p = contextPtr q"
    "select_queue p = select_queue q"
  by (metis assms unlinked_sel)+

lemma same_pcbs_field:
  assumes "same_pcbs s s'" and "\<And>p. f (unlinked p) = f p"
  shows "map_option f (pcbs s' a) = map_option f (pcbs s a)"
proof -
  have "map_option f (map_option unlinked (pcbs s' a)) = map_option f (map_option unlinked (pcbs s a))"
    using assms(1) by (simp add: same_pcbs_def)
  then show ?thesis using assms(2) by (simp add: option.map_comp comp_def)
qed

lemma same_pcbs_home: "same_pcbs s s' \<Longrightarrow> map_option select_queue (pcbs s' a) = map_option select_queue (pcbs s a)"
  by (rule same_pcbs_field) simp_all

lemma same_pcbs_prio: "same_pcbs s s' \<Longrightarrow> prio_of s' = prio_of s"
proof
  fix a assume "same_pcbs s s'"
  then have "map_option priority (pcbs s' a) = map_option priority (pcbs s a)"
    by (rule same_pcbs_field) simp
  then show "prio_of s' a = prio_of s a"
    by (cases "pcbs s a"; cases "pcbs s' a") (simp_all add: prio_of_def)
qed

section \<open>Linking a PCB in and out of a list\<close>

definition link_heap where
  "link_heap h xs ptr ys = (\<lambda>a :: addr. map_option (\<lambda>p. p\<lparr>
     pprev := (if a = ptr then last_or NULL xs else if a = first_or NULL ys then ptr else pprev p),
     pnext := (if a = ptr then first_or NULL ys else if a = last_or NULL xs then ptr else pnext p)\<rparr>) (h a))"

definition link_in :: "qid \<Rightarrow> addr list \<Rightarrow> addr \<Rightarrow> addr list \<Rightarrow> pcb_state \<Rightarrow> pcb_state" where
  "link_in q xs ptr ys s =
     s\<lparr>pcbs := link_heap (pcbs s) xs ptr ys,
       queues := (queues s)(q := \<lparr>head = first_or ptr xs, tail = last_or ptr ys\<rparr>)\<rparr>"

definition unlink_heap where
  "unlink_heap h xs ptr ys = (\<lambda>a :: addr. map_option (\<lambda>p. p\<lparr>
     pprev := (if a = ptr then NULL else if a = first_or NULL ys then last_or NULL xs else pprev p),
     pnext := (if a = ptr then NULL else if a = last_or NULL xs then first_or NULL ys else pnext p)\<rparr>) (h a))"

definition link_out :: "qid \<Rightarrow> addr list \<Rightarrow> addr \<Rightarrow> addr list \<Rightarrow> pcb_state \<Rightarrow> pcb_state" where
  "link_out q xs ptr ys s =
     s\<lparr>pcbs := unlink_heap (pcbs s) xs ptr ys,
       queues := (queues s)(q := \<lparr>head = first_or NULL (xs @ ys), tail = last_or NULL (xs @ ys)\<rparr>)\<rparr>"

lemma queue_updates:
  "q\<lparr>tail := x\<rparr> = \<lparr>head = head q, tail = x\<rparr>" "q\<lparr>head := x\<rparr> = \<lparr>head = x, tail = tail q\<rparr>" for q :: pcb_queue
  by simp_all

lemma same_pcbs_link_in: "same_pcbs s (link_in q xs ptr ys s)"
  by (simp add: same_pcbs_def link_in_def link_heap_def unlinked_def [abs_def] option.map_comp comp_def)

lemma same_pcbs_link_out: "same_pcbs s (link_out q xs ptr ys s)"
  by (simp add: same_pcbs_def link_out_def unlink_heap_def unlinked_def [abs_def] option.map_comp comp_def)

lemma first_last_simps:
  "NULL \<notin> set xs \<Longrightarrow> first_or NULL xs = NULL \<longleftrightarrow> xs = []"
  "NULL \<notin> set xs \<Longrightarrow> last_or NULL xs = NULL \<longleftrightarrow> xs = []"
  by (metis first_or_in first_or_simps(1), metis last_or_in last_or_simps(1))

lemma rep_no_NULL: "rep s A \<Longrightarrow> NULL \<notin> set (A q)"
  using rep_home by blast

text \<open>The two insertions of the code are \<open>link_in\<close>.\<close>

lemma insert_tail_eq:
  assumes "rep s A" and "pcbs s ptr = Some p" and "\<not> queued A ptr" and "A q = xs"
  shows "insert_tail q ptr s = Inr (link_in q xs ptr [] s)"
proof -
  note r = repD[OF assms(1)]
  note d = rep_detached[OF assms(1-3)]
  show ?thesis
  proof (cases xs rule: rev_cases)
    case Nil
    have "link_heap (pcbs s) [] ptr [] = pcbs s"
      using assms(2) d r by (auto simp: link_heap_def fun_eq_iff map_option_case split: option.splits)
    then show ?thesis using assms r Nil
      by (simp add: insert_tail_def link_in_def set_head_def set_tail_def queue_updates)
  next
    case (snoc zs l)
    then have lin: "l \<in> set (A q)" using assms(4) by simp
    then obtain pl where pl: "pcbs s l = Some pl" and "l \<noteq> NULL" using rep_home[OF assms(1)] by blast
    moreover have "l \<noteq> ptr" using lin assms(3) by (auto simp: queued_def)
    ultimately have l: "l \<noteq> ptr" "l \<noteq> NULL" by simp_all
    have "link_heap (pcbs s) xs ptr [] = (pcbs s)(l \<mapsto> pl\<lparr>pnext := ptr\<rparr>, ptr \<mapsto> p\<lparr>pprev := l\<rparr>)"
      using assms(2) d r l pl snoc by (auto simp: link_heap_def fun_eq_iff map_option_case split: option.splits)
    moreover have "first_or NULL xs \<noteq> NULL" "first_or ptr xs = first_or NULL xs"
      using snoc first_last_simps(1)[of xs] rep_no_NULL[OF assms(1), of q] assms(4) by (auto simp: first_or_append)
    ultimately show ?thesis using assms(2,4) r snoc l pl d
      by (simp add: insert_tail_def link_in_def set_next_def set_prev_def modify_live set_tail_def queue_updates)
  qed
qed

lemma insert_before_eq:
  assumes "rep s A" and "pcbs s ptr = Some p" and "\<not> queued A ptr" and "A q = xs @ cur # ys"
  shows "insert_before q cur ptr s = Inr (link_in q xs ptr (cur # ys) s)"
proof -
  note r = repD[OF assms(1)]
  note d = rep_detached[OF assms(1-3)]
  obtain c where c: "pcbs s cur = Some c" "pprev c = last_or NULL xs" "cur \<noteq> NULL"
    using r(3)[of q] assms(4) by (metis seg_at)
  have nq: "ptr \<notin> set xs" "ptr \<noteq> cur" "ptr \<notin> set ys" "cur \<notin> set xs"
  proof -
    have "ptr \<notin> set (A q)" using assms(3) by (simp add: queued_def)
    then show "ptr \<notin> set xs" "ptr \<noteq> cur" "ptr \<notin> set ys" using assms(4) by auto
    show "cur \<notin> set xs" using assms(4) r(4)[of q] by auto
  qed
  show ?thesis
  proof (cases xs rule: rev_cases)
    case Nil
    have "link_heap (pcbs s) [] ptr (cur # ys) =
        (pcbs s)(ptr \<mapsto> p\<lparr>pnext := cur, pprev := NULL\<rparr>, cur \<mapsto> c\<lparr>pprev := ptr\<rparr>)"
      using assms(2) d r c nq Nil by (auto simp: link_heap_def fun_eq_iff map_option_case split: option.splits)
    then show ?thesis using assms r Nil c nq d
      by (simp add: insert_before_def link_in_def set_next_def set_prev_def modify_live load_live
          set_head_def queue_updates)
  next
    case (snoc zs l)
    then have "l \<in> set (A q)" using assms(4) by simp
    then obtain pl where pl: "pcbs s l = Some pl" "l \<noteq> NULL" using rep_home[OF assms(1)] by blast
    have l: "l \<noteq> ptr" "l \<noteq> cur" using nq snoc by auto
    have "link_heap (pcbs s) xs ptr (cur # ys) = (pcbs s)(ptr \<mapsto> p\<lparr>pnext := cur, pprev := l\<rparr>,
        l \<mapsto> pl\<lparr>pnext := ptr\<rparr>, cur \<mapsto> c\<lparr>pprev := ptr\<rparr>)"
      using assms(2) d r c nq snoc l pl
      by (auto simp: link_heap_def fun_eq_iff map_option_case split: option.splits)
    moreover have "first_or ptr xs = first_or NULL (A q)"
      using snoc assms(4) by (cases zs) simp_all
    moreover have "(queues s)(q := \<lparr>head = first_or NULL (A q), tail = last_or cur ys\<rparr>) = queues s"
    proof (rule fun_upd_idem)
      show "queues s q = \<lparr>head = first_or NULL (A q), tail = last_or cur ys\<rparr>"
        using r(1,2)[of q] assms(4) by (cases "queues s q") (simp add: last_or_append)
    qed
    ultimately show ?thesis using assms r snoc c nq d l pl
      by (simp add: insert_before_def link_in_def set_next_def set_prev_def modify_live load_live
          queue_updates fun_upd_idem)
  qed
qed

text \<open>\<open>pcb_remove\<close> of a queued PCB is \<open>link_out\<close>; what the proof knows of the PCB and its neighbours:\<close>

lemma rep_around:
  assumes "rep s A" and "A q = xs @ ptr # ys"
  obtains p where "pcbs s ptr = Some p" "pprev p = last_or NULL xs" "pnext p = first_or NULL ys" "ptr \<noteq> NULL"
    and "select_queue p = q" and "NULL \<notin> set (xs @ ptr # ys)" "distinct (xs @ ptr # ys)"
    and "\<And>a. a \<in> set xs \<union> set ys \<Longrightarrow> \<exists>p. pcbs s a = Some p"
proof -
  note r = repD[OF assms(1)]
  obtain p where p: "pcbs s ptr = Some p" "pprev p = last_or NULL xs" "pnext p = first_or NULL ys" "ptr \<noteq> NULL"
    using r(3)[of q] assms(2) by (metis seg_at)
  moreover have "select_queue p = q" using rep_home[OF assms(1), of ptr q] assms(2) p by auto
  moreover have "NULL \<notin> set (xs @ ptr # ys)" using rep_no_NULL[OF assms(1), of q] assms(2) by simp
  moreover have "distinct (xs @ ptr # ys)" using r(4)[of q] assms(2) by simp
  moreover have "\<exists>p. pcbs s a = Some p" if "a \<in> set xs \<union> set ys" for a
    using rep_home[OF assms(1), of a q] assms(2) that by auto
  ultimately show ?thesis by (rule that)
qed

lemmas pcb_remove_unfold = pcb_remove_def set_next_def set_prev_def set_head_def set_tail_def modify_live
  load_live link_out_def queue_updates Let_def

lemmas unlink_heap_unfold = unlink_heap_def fun_eq_iff map_option_case

lemma pcb_remove_first:
  assumes "rep s A" and "A q = ptr # ys"
  shows "pcb_remove ptr s = Inr (0, link_out q [] ptr ys s)"
proof -
  note r = repD[OF assms(1)]
  obtain p where p: "pcbs s ptr = Some p" "pprev p = NULL" "pnext p = first_or NULL ys" "ptr \<noteq> NULL"
    and q: "select_queue p = q" and nn: "NULL \<notin> set (ptr # ys)" and dist: "distinct (ptr # ys)"
    and live: "\<And>a. a \<in> set ys \<Longrightarrow> \<exists>p. pcbs s a = Some p"
    using rep_around[of s A q "[]" ptr ys] assms by auto
  show ?thesis
  proof (cases ys)
    case Nil
    have "unlink_heap (pcbs s) [] ptr ys = (pcbs s)(ptr \<mapsto> p\<lparr>pprev := NULL, pnext := NULL\<rparr>)"
      using Nil p r(5) by (auto simp: unlink_heap_unfold split: option.splits)
    then show ?thesis using Nil p q r assms(2) by (simp add: pcb_remove_unfold)
  next
    case (Cons y zs)
    then obtain py where py: "pcbs s y = Some py" using live by auto
    have y: "y \<noteq> NULL" "y \<noteq> ptr" using Cons nn dist by auto
    have "unlink_heap (pcbs s) [] ptr ys =
        (pcbs s)(y \<mapsto> py\<lparr>pprev := NULL\<rparr>, ptr \<mapsto> p\<lparr>pprev := NULL, pnext := NULL\<rparr>)"
      using Cons p py y r(5) by (auto simp: unlink_heap_unfold split: option.splits)
    then show ?thesis using Cons p q r assms(2) py y by (simp add: pcb_remove_unfold)
  qed
qed

lemma pcb_remove_behind:
  assumes "rep s A" and "A q = (ws @ [l]) @ ptr # ys"
  shows "pcb_remove ptr s = Inr (0, link_out q (ws @ [l]) ptr ys s)"
proof -
  note r = repD[OF assms(1)]
  obtain p where p: "pcbs s ptr = Some p" "pprev p = l" "pnext p = first_or NULL ys" "ptr \<noteq> NULL"
    and q: "select_queue p = q" and nn: "NULL \<notin> set (ws @ l # ptr # ys)" and dist: "distinct (ws @ l # ptr # ys)"
    and live: "\<And>a. a \<in> set (ws @ [l]) \<union> set ys \<Longrightarrow> \<exists>p. pcbs s a = Some p"
    using rep_around[OF assms] by auto
  obtain pl where pl: "pcbs s l = Some pl" using live by auto
  have l: "l \<noteq> NULL" "l \<noteq> ptr" using nn dist by auto
  have fo: "first_or NULL (A q) \<noteq> NULL" "first_or NULL (A q) = first_or NULL ((ws @ [l]) @ ys)"
    using nn assms(2) by (cases ws; simp)+
  show ?thesis
  proof (cases ys)
    case Nil
    have "unlink_heap (pcbs s) (ws @ [l]) ptr ys =
        (pcbs s)(l \<mapsto> pl\<lparr>pnext := NULL\<rparr>, ptr \<mapsto> p\<lparr>pprev := NULL, pnext := NULL\<rparr>)"
      using Nil p pl l r(5) by (auto simp: unlink_heap_unfold split: option.splits)
    then show ?thesis using Nil p q r assms(2) pl l fo by (simp add: pcb_remove_unfold)
  next
    case (Cons y zs)
    then obtain py where py: "pcbs s y = Some py" using live by auto
    have y: "y \<noteq> NULL" "y \<noteq> ptr" "y \<noteq> l" using Cons nn dist by auto
    have "unlink_heap (pcbs s) (ws @ [l]) ptr ys = (pcbs s)(l \<mapsto> pl\<lparr>pnext := y\<rparr>,
        y \<mapsto> py\<lparr>pprev := l\<rparr>, ptr \<mapsto> p\<lparr>pprev := NULL, pnext := NULL\<rparr>)"
      using Cons p pl l py y r(5) by (auto simp: unlink_heap_unfold split: option.splits)
    then show ?thesis using Cons p q r assms(2) pl l py y fo
      by (simp add: pcb_remove_unfold fun_upd_idem last_or_def)
  qed
qed

lemma pcb_remove_eq:
  assumes "rep s A" and "A q = xs @ ptr # ys"
  shows "pcb_remove ptr s = Inr (0, link_out q xs ptr ys s)"
  using assms pcb_remove_first pcb_remove_behind by (cases xs rule: rev_cases) auto

section \<open>The representation is kept\<close>

lemma rep_others:
  assumes "rep s A" and "q' \<noteq> q" and "set zs \<subseteq> insert ptr (set (A q))" and "ptr \<notin> set (A q')"
  shows "set zs \<inter> set (A q') = {}"
  using assms rep_unique_queue[OF assms(1)] by blast

lemma in_home_link:
  assumes "in_home_queue s A" and "same_pcbs s s'" and "\<And>q'. set (B q') \<subseteq> (if q' = q then insert ptr (set (A q')) else set (A q'))"
    and "map_option select_queue (pcbs s ptr) = Some q"
  shows "in_home_queue s' B"
  unfolding in_home_queue_def
proof (intro allI ballI)
  fix q' a assume "a \<in> set (B q')"
  then have "a \<in> set (A q') \<or> (q' = q \<and> a = ptr)"
    using assms(3)[of q'] by (auto split: if_splits)
  then have "map_option select_queue (pcbs s a) = Some q'"
    using assms(1,4) by (auto simp: in_home_queue_def)
  then show "map_option select_queue (pcbs s' a) = Some q'"
    using same_pcbs_home[OF assms(2)] by simp
qed

lemma ends_eq:
  "xs \<noteq> [] \<Longrightarrow> last_or d xs = last xs" "ys \<noteq> [] \<Longrightarrow> first_or d ys = hd ys"
  by (auto simp: last_or_def first_or_def split: list.splits)

lemma ends_notin:
  assumes "distinct (xs @ ys)" and "NULL \<notin> set (xs @ ys)"
  shows "first_or NULL ys \<notin> set xs" "last_or NULL xs \<notin> set ys"
proof -
  show "first_or NULL ys \<notin> set xs" using assms by (cases ys) auto
  show "last_or NULL xs \<notin> set ys" using assms by (cases xs rule: rev_cases) auto
qed

lemma ends_other:
  assumes "a \<noteq> NULL" and "a \<notin> set xs" and "a \<notin> set ys"
  shows "a \<noteq> last_or NULL xs" "a \<noteq> first_or NULL ys"
proof -
  show "a \<noteq> last_or NULL xs" using assms by (cases xs rule: rev_cases) auto
  show "a \<noteq> first_or NULL ys" using assms by (cases ys) auto
qed

lemma link_heap_same:
  "a \<noteq> ptr \<Longrightarrow> a \<noteq> last_or NULL xs \<Longrightarrow> a \<noteq> first_or NULL ys \<Longrightarrow> link_heap h xs ptr ys a = h a"
  by (simp add: link_heap_def option.map_ident)

lemma unlink_heap_same:
  "a \<noteq> ptr \<Longrightarrow> a \<noteq> last_or NULL xs \<Longrightarrow> a \<noteq> first_or NULL ys \<Longrightarrow> unlink_heap h xs ptr ys a = h a"
  by (simp add: unlink_heap_def option.map_ident)

lemma seg_link_left:
  assumes "seg h pv xs nx" and "distinct (xs @ ptr # ys)" and "NULL \<notin> set (xs @ ys)"
  shows "seg (link_heap h xs ptr ys) pv xs ptr" "seg (unlink_heap h xs ptr ys) pv xs (first_or NULL ys)"
proof -
  have d: "distinct (xs @ ys)" "distinct xs" "ptr \<notin> set xs" using assms(2) by auto
  note e = ends_notin[OF d(1) assms(3)]
  have mid: "a \<noteq> ptr" "a \<noteq> last_or NULL xs" "a \<noteq> first_or NULL ys"
    if "a \<in> set xs" "a \<noteq> last xs" for a
    using that d(3) e(1) ends_eq(1)[of xs NULL] by (cases "xs = []"; auto)+
  have lst: "last xs \<noteq> ptr" "last_or NULL xs = last xs" "last xs \<noteq> first_or NULL ys" if "xs \<noteq> []"
    using last_in_set[OF that] d(3) e(1) ends_eq(1)[OF that, of NULL] by auto
  show "seg (link_heap h xs ptr ys) pv xs ptr"
    by (rule seg_new_next[OF assms(1) d(2)]) (simp add: mid link_heap_same, simp add: link_heap_def lst)
  show "seg (unlink_heap h xs ptr ys) pv xs (first_or NULL ys)"
    by (rule seg_new_next[OF assms(1) d(2)]) (simp add: mid unlink_heap_same, simp add: unlink_heap_def lst)
qed

lemma seg_link_right:
  assumes "seg h pv ys nx" and "distinct (xs @ ptr # ys)" and "NULL \<notin> set (xs @ ys)"
  shows "seg (link_heap h xs ptr ys) ptr ys nx" "seg (unlink_heap h xs ptr ys) (last_or NULL xs) ys nx"
proof -
  have d: "distinct (xs @ ys)" "distinct ys" "ptr \<notin> set ys" using assms(2) by auto
  note e = ends_notin[OF d(1) assms(3)]
  have mid: "a \<noteq> ptr" "a \<noteq> last_or NULL xs" "a \<noteq> first_or NULL ys"
    if "a \<in> set ys" "a \<noteq> hd ys" for a
    using that d(3) e(2) ends_eq(2)[of ys NULL] by (cases ys; auto)+
  have lst: "hd ys \<noteq> ptr" "first_or NULL ys = hd ys" "hd ys \<noteq> last_or NULL xs" if "ys \<noteq> []"
    using list.set_sel(1)[OF that] d(3) e(2) ends_eq(2)[OF that, of NULL] by auto
  show "seg (link_heap h xs ptr ys) ptr ys nx"
    by (rule seg_new_prev[OF assms(1) d(2)]) (simp add: mid link_heap_same, simp add: link_heap_def lst)
  show "seg (unlink_heap h xs ptr ys) (last_or NULL xs) ys nx"
    by (rule seg_new_prev[OF assms(1) d(2)]) (simp add: mid unlink_heap_same, simp add: unlink_heap_def lst)
qed

lemma queued_upd:
  "queued (A(q := xs)) a \<longleftrightarrow> a \<in> set xs \<or> (\<exists>q'. q' \<noteq> q \<and> a \<in> set (A q'))"
  by (auto simp: queued_def)

lemma queued_cases: "queued A a \<longleftrightarrow> a \<in> set (A q) \<or> (\<exists>q'. q' \<noteq> q \<and> a \<in> set (A q'))"
  by (auto simp: queued_def)

lemma queue_rep_link_in:
  assumes "rep s A" and "pcbs s ptr = Some p" and "\<not> queued A ptr" and "A q = xs @ ys"
  shows "queue_rep (link_heap (pcbs s) xs ptr ys)
    \<lparr>head = first_or ptr xs, tail = last_or ptr ys\<rparr> (xs @ ptr # ys)"
proof -
  have sg: "seg (pcbs s) NULL xs (first_or NULL ys)" "seg (pcbs s) (last_or NULL xs) ys NULL"
    using repD(3)[OF assms(1), of q] assms(4) by (simp_all add: seg_append)
  have "ptr \<notin> set (A q)" using assms(3) by (simp add: queued_def)
  then have d: "distinct (xs @ ptr # ys)" using repD(4)[OF assms(1), of q] assms(4) by auto
  have n: "NULL \<notin> set (xs @ ys)" using rep_no_NULL[OF assms(1), of q] assms(4) by simp
  note left = seg_link_left(1)[OF sg(1) d n]
  note right = seg_link_right(1)[OF sg(2) d n]
  have "ptr \<noteq> NULL" using rep_detached[OF assms(1-3)] by simp
  then show ?thesis using left right d assms(2)
    by (simp add: queue_rep_def seg_append first_or_append last_or_append link_heap_def)
qed

lemma queue_rep_link_out:
  assumes "rep s A" and "A q = xs @ ptr # ys"
  shows "queue_rep (unlink_heap (pcbs s) xs ptr ys)
    \<lparr>head = first_or NULL (xs @ ys), tail = last_or NULL (xs @ ys)\<rparr> (xs @ ys)"
proof -
  have sg: "seg (pcbs s) NULL xs ptr" "seg (pcbs s) ptr ys NULL"
    using repD(3)[OF assms(1), of q] assms(2) by (auto simp: seg_append)
  have d: "distinct (xs @ ptr # ys)" using repD(4)[OF assms(1), of q] assms(2) by simp
  have n: "NULL \<notin> set (xs @ ys)" using rep_no_NULL[OF assms(1), of q] assms(2) by simp
  show ?thesis using seg_link_left(2)[OF sg(1) d n] seg_link_right(2)[OF sg(2) d n] d
    by (simp add: queue_rep_def seg_append)
qed

text \<open>A heap that agrees with the old one outside the changed queue keeps the others.\<close>

lemma queue_rep_other:
  assumes "rep s A" and "q' \<noteq> q" and "set xs \<union> set ys \<subseteq> set (A q)" and "ptr \<notin> set (A q')"
    and "\<And>a. a \<noteq> ptr \<Longrightarrow> a \<noteq> last_or NULL xs \<Longrightarrow> a \<noteq> first_or NULL ys \<Longrightarrow> h a = pcbs s a"
  shows "queue_rep h (queues s q') (A q')"
proof -
  have "h a = pcbs s a" if a: "a \<in> set (A q')" for a
  proof (rule assms(5))
    have "a \<notin> set (A q)" using a assms(2) rep_unique_queue[OF assms(1)] by blast
    then have "a \<notin> set xs" "a \<notin> set ys" "a \<noteq> NULL" using assms(3) a rep_no_NULL[OF assms(1)] by auto
    then show "a \<noteq> last_or NULL xs" "a \<noteq> first_or NULL ys" using ends_other by blast+
    show "a \<noteq> ptr" using a assms(4) by auto
  qed
  then have "seg h NULL (A q') NULL" by (rule seg_cong[OF repD(3)[OF assms(1)]])
  then show ?thesis using repD(1,2,4)[OF assms(1)] by (simp add: queue_rep_def)
qed

lemma detached_link:
  assumes "rep s A" and "set xs \<union> set ys \<subseteq> set (A q)" and "\<And>a. queued A a \<Longrightarrow> a \<noteq> ptr \<Longrightarrow> queued B a"
    and "pcbs s NULL = None \<Longrightarrow> pcbs s' NULL = None"
    and "\<And>a. a \<noteq> ptr \<Longrightarrow> a \<noteq> last_or NULL xs \<Longrightarrow> a \<noteq> first_or NULL ys \<Longrightarrow> pcbs s' a = pcbs s a"
    and "\<And>p. pcbs s' ptr = Some p \<Longrightarrow> queued B ptr \<or> (pnext p = NULL \<and> pprev p = NULL)"
  shows "detached_unlinked s' B"
  unfolding detached_unlinked_def
proof (intro allI impI)
  fix a p assume a: "pcbs s' a = Some p" "\<not> queued B a"
  show "pnext p = NULL \<and> pprev p = NULL"
  proof (cases "a = ptr")
    case True
    then show ?thesis using a assms(6) by auto
  next
    case False
    then have nq: "\<not> queued A a" using a(2) assms(3) by blast
    have "a \<noteq> NULL" using a(1) assms(4) repD(5)[OF assms(1)] by auto
    moreover have "a \<notin> set xs" "a \<notin> set ys" using nq assms(2) by (auto simp: queued_def)
    ultimately have "pcbs s' a = pcbs s a" using assms(5) False ends_other by blast
    then show ?thesis using rep_detached[OF assms(1) _ nq] a(1) by simp
  qed
qed

lemma rep_link_in:
  assumes r: "rep s A" and p: "pcbs s ptr = Some p" and nq: "\<not> queued A ptr"
    and Aq: "A q = xs @ ys" and home: "select_queue p = q"
    and srt: "q = ReadyQ \<Longrightarrow> sorted (map (prio_of s) (xs @ ptr # ys))"
  shows "rep (link_in q xs ptr ys s) (A(q := xs @ ptr # ys))" (is "rep ?t ?B")
  unfolding rep_def
proof (intro conjI allI)
  note same = same_pcbs_link_in[of s q xs ptr ys]
  show "queue_rep (pcbs ?t) (queues ?t q') (?B q')" for q'
  proof (cases "q' = q")
    case True
    then show ?thesis using queue_rep_link_in[OF r p nq Aq] by (simp add: link_in_def)
  next
    case False
    have "queue_rep (link_heap (pcbs s) xs ptr ys) (queues s q') (A q')"
      by (rule queue_rep_other[OF r False, where xs = xs and ys = ys and ptr = ptr])
        (use Aq nq in \<open>auto simp: link_heap_same queued_def\<close>)
    with False show ?thesis by (simp add: link_in_def)
  qed
  show "in_home_queue ?t ?B"
    by (rule in_home_link[OF _ same, where A = A and q = q and ptr = ptr])
      (use r Aq p home in \<open>auto simp: rep_def\<close>)
  show "sorted (map (prio_of ?t) (?B ReadyQ))"
    unfolding same_pcbs_prio[OF same] using srt repD(6)[OF r] by simp
  show "pcbs ?t NULL = None" using repD(5)[OF r] by (simp add: link_in_def link_heap_def)
  show "detached_unlinked ?t ?B"
  proof (rule detached_link[OF r, where xs = xs and ys = ys and q = q and ptr = ptr])
    show "queued A a \<Longrightarrow> queued ?B a" for a using Aq by (auto simp: queued_upd queued_cases[of A a q])
    show "queued ?B ptr \<or> (pnext p' = NULL \<and> pprev p' = NULL)" for p' by (simp add: queued_upd)
  qed (use Aq in \<open>auto simp: link_in_def link_heap_same link_heap_def option.map_ident\<close>)
qed

lemma rep_link_out:
  assumes r: "rep s A" and Aq: "A q = xs @ ptr # ys"
  shows "rep (link_out q xs ptr ys s) (A(q := xs @ ys))" (is "rep ?t ?B")
  unfolding rep_def
proof (intro conjI allI)
  note same = same_pcbs_link_out[of s q xs ptr ys]
  have only: "ptr \<notin> set (A q')" if "q' \<noteq> q" for q'
    using rep_unique_queue[OF r, of ptr q q'] Aq that by auto
  show "queue_rep (pcbs ?t) (queues ?t q') (?B q')" for q'
  proof (cases "q' = q")
    case True
    then show ?thesis using queue_rep_link_out[OF r Aq] by (simp add: link_out_def)
  next
    case False
    have "queue_rep (unlink_heap (pcbs s) xs ptr ys) (queues s q') (A q')"
      by (rule queue_rep_other[OF r False, where xs = xs and ys = ys and ptr = ptr])
        (use Aq only[OF False] in \<open>auto simp: unlink_heap_same\<close>)
    with False show ?thesis by (simp add: link_out_def)
  qed
  show "in_home_queue ?t ?B"
    by (rule in_home_link[OF _ same, where A = A and q = q and ptr = ptr])
      (use r Aq rep_home[OF r, of ptr q] in \<open>auto simp: rep_def\<close>)
  show "sorted (map (prio_of ?t) (?B ReadyQ))"
    unfolding same_pcbs_prio[OF same] using Aq repD(6)[OF r] by (auto simp: sorted_append)
  show "pcbs ?t NULL = None" using repD(5)[OF r] by (simp add: link_out_def unlink_heap_def)
  show "detached_unlinked ?t ?B"
  proof (rule detached_link[OF r, where xs = xs and ys = ys and q = q and ptr = ptr])
    show "queued ?B a" if "queued A a" "a \<noteq> ptr" for a
      using that Aq by (auto simp: queued_upd queued_cases[of A a q])
    show "queued ?B ptr \<or> (pnext p' = NULL \<and> pprev p' = NULL)" if "pcbs ?t ptr = Some p'" for p'
      using that by (auto simp: link_out_def unlink_heap_def)
  qed (use Aq in \<open>auto simp: link_out_def unlink_heap_same unlink_heap_def option.map_ident\<close>)
qed

section \<open>Refinement: the code performs the list operations\<close>

lemma ins_ready_sorted: "sorted (map pr (ins_ready pr a xs))" if s: "sorted (map pr xs)"
proof -
  define t d where td: "t = takeWhile (\<lambda>x. pr x \<le> pr a) xs" "d = dropWhile (\<lambda>x. pr x \<le> pr a) xs"
  have st: "sorted (map pr t)" "sorted (map pr d)" "\<forall>x\<in>set t. \<forall>y\<in>set d. pr x \<le> pr y"
  proof -
    have "sorted (map pr (t @ d))" using s by (simp add: td)
    then show "sorted (map pr t)" "sorted (map pr d)" "\<forall>x\<in>set t. \<forall>y\<in>set d. pr x \<le> pr y"
      by (auto simp: sorted_append)
  qed
  have lo: "\<forall>x\<in>set t. pr x \<le> pr a" by (auto simp: td dest: set_takeWhileD)
  have "\<forall>x\<in>set d. pr a \<le> pr x"
  proof (cases d)
    case (Cons y ys)
    then have "\<not> pr y \<le> pr a" unfolding td by (metis hd_dropWhile list.distinct(1) list.sel(1))
    then show ?thesis using st(2) Cons by auto
  qed simp
  then show ?thesis using st lo unfolding ins_ready_def td(1)[symmetric] td(2)[symmetric]
    by (auto simp: sorted_append)
qed

lemma set_ins_ready [simp]: "set (ins_ready pr a xs) = insert a (set xs)"
proof -
  have "set (takeWhile P xs) \<union> set (dropWhile P xs) = set xs" for P
    by (metis set_append takeWhile_dropWhile_id)
  then show ?thesis by (auto simp: ins_ready_def)
qed

lemma scan_ready_spec:
  "seg (pcbs s) pv xs NULL \<Longrightarrow>
   scan_ready (pcbs s) pr (first_or NULL xs) =
     Some (Inr (first_or NULL (dropWhile (\<lambda>a. prio_of s a \<le> pr) xs)))"
proof (induction xs arbitrary: pv)
  case Nil
  then show ?case by (simp add: scan_ready.simps)
next
  case (Cons x xs)
  then show ?case
    by (subst scan_ready.simps) (auto simp: prio_of_def split: option.splits)
qed

lemma pcb_insert_refines:
  assumes r: "rep s A" and p: "pcbs s ptr = Some p" and nq: "\<not> queued A ptr"
    and q: "q = select_queue p"
  shows "\<exists>s'. pcb_insert ptr s = Inr s' \<and> rep s' (A(q := place s ptr q (A q))) \<and> same_pcbs s s'"
proof -
  have ptr: "ptr \<noteq> NULL" using rep_detached[OF r p nq] by simp
  show ?thesis
  proof (cases "q = ReadyQ")
    case False
    have "pcb_insert ptr s = Inr (link_in q (A q) ptr [] s)"
      using False ptr p q insert_tail_eq[OF r p nq] by (simp add: pcb_insert_def load_live Let_def)
    moreover have "rep (link_in q (A q) ptr [] s) (A(q := A q @ [ptr]))"
      using False q by (intro rep_link_in[OF r p nq]) auto
    ultimately show ?thesis using False same_pcbs_link_in by (auto simp: place_def)
  next
    case True
    let ?P = "\<lambda>a. prio_of s a \<le> priority p"
    define xs ys where xy: "xs = takeWhile ?P (A q)" "ys = dropWhile ?P (A q)"
    have A: "A q = xs @ ys" by (simp add: xy)
    have scan: "scan_ready (pcbs s) (priority p) (head (queues s q)) = Some (Inr (first_or NULL ys))"
      unfolding xy using scan_ready_spec repD(1,3)[OF r] by metis
    have pl: "place s ptr q (A q) = xs @ ptr # ys"
      using True p by (simp add: place_def ins_ready_def prio_of_def xy)
    have ins: "pcb_insert ptr s = Inr (link_in q xs ptr ys s)"
    proof (cases ys)
      case Nil
      then have "insert_tail q ptr s = Inr (link_in q xs ptr [] s)"
        using A by (intro insert_tail_eq[OF r p nq]) simp
      then show ?thesis using True ptr p q scan Nil by (simp add: pcb_insert_def load_live Let_def)
    next
      case (Cons cur zs)
      then have c: "A q = xs @ cur # zs" using A by simp
      then have "cur \<noteq> NULL" using rep_no_NULL[OF r, of q] by auto
      then show ?thesis using True ptr p q scan Cons insert_before_eq[OF r p nq c]
        by (simp add: pcb_insert_def load_live Let_def)
    qed
    have "sorted (map (prio_of s) (xs @ ptr # ys))" if "q = ReadyQ"
      using ins_ready_sorted[OF repD(6)[OF r], of ptr] p that by (simp add: ins_ready_def prio_of_def xy)
    then have "rep (link_in q xs ptr ys s) (A(q := xs @ ptr # ys))"
      using q by (intro rep_link_in[OF r p nq A]) auto
    then show ?thesis using ins pl same_pcbs_link_in by metis
  qed
qed

lemma pcb_remove_refines:
  assumes r: "rep s A" and a: "a \<in> set (A q)"
  shows "\<exists>s'. pcb_remove a s = Inr (0, s') \<and> rep s' (A(q := remove1 a (A q))) \<and> same_pcbs s s'"
proof -
  obtain xs ys where A: "A q = xs @ a # ys" using a by (meson split_list)
  then have "a \<notin> set xs" using repD(4)[OF r, of q] by auto
  then have "remove1 a (A q) = xs @ ys" using A by (simp add: remove1_append)
  then show ?thesis
    using pcb_remove_eq[of s A q xs a ys] rep_link_out[of s A q xs a ys] A r same_pcbs_link_out by metis
qed

text \<open>A PCB that is in no queue can be created, changed and dropped freely, as long as
  its links stay NULL.\<close>

lemma rep_upd_detached:
  assumes r: "rep s A" and nq: "\<not> queued A a" and nn: "a \<noteq> NULL"
    and v: "\<And>p. v = Some p \<Longrightarrow> pnext p = NULL \<and> pprev p = NULL"
  shows "rep (s\<lparr>pcbs := (pcbs s)(a := v)\<rparr>) A" (is "rep ?t A")
proof -
  have out: "a \<notin> set (A q)" for q using nq by (simp add: queued_def)
  have same: "((pcbs s)(a := v)) b = pcbs s b" if "b \<in> set (A q)" for b q using that out by auto
  have "seg ((pcbs s)(a := v)) NULL (A q) NULL" for q
    by (rule seg_cong[OF repD(3)[OF r]]) (rule same)
  moreover have "sorted (map (prio_of ?t) (A ReadyQ))"
  proof -
    have "map (prio_of ?t) (A ReadyQ) = map (prio_of s) (A ReadyQ)" using out by (auto simp: prio_of_def)
    with repD(6)[OF r] show ?thesis by (simp only:)
  qed
  moreover have "in_home_queue ?t A" using r out by (auto simp: rep_def in_home_queue_def)
  moreover have "detached_unlinked ?t A"
    using r v by (auto simp: rep_def detached_unlinked_def)
  ultimately show ?thesis using repD[OF r] nn by (simp add: rep_def queue_rep_def)
qed

section \<open>pcb\_find\<close>

definition name_of :: "pcb_state \<Rightarrow> addr \<Rightarrow> string" where
  "name_of s a = (case pcbs s a of None \<Rightarrow> [] | Some p \<Rightarrow> text_of (pname p))"

definition names_terminated :: "pcb_state \<Rightarrow> bool" where
  "names_terminated s \<longleftrightarrow> (\<forall>a p. pcbs s a = Some p \<longrightarrow> terminated (pname p))"

definition all_queued :: "(qid \<Rightarrow> addr list) \<Rightarrow> addr list" where
  "all_queued A = A ReadyQ @ A BlockedQ @ A SuspReadyQ @ A SuspBlockedQ"

lemma set_all_queued: "a \<in> set (all_queued A) \<longleftrightarrow> queued A a"
proof -
  have "(\<exists>q. a \<in> set (A q)) \<longleftrightarrow> (\<exists>q\<in>{ReadyQ, BlockedQ, SuspReadyQ, SuspBlockedQ}. a \<in> set (A q))"
    by (metis insertCI qid.exhaust)
  then show ?thesis by (simp add: queued_def all_queued_def)
qed

lemma find_loop_spec:
  assumes "seg (pcbs s) pv xs NULL" and "names_terminated s" and "terminated nm"
  shows "find_loop (pcbs s) nm (first_or NULL xs) =
    Some (Inr (first_or NULL (filter (\<lambda>a. name_of s a = text_of nm) xs)))"
  using assms(1)
proof (induction xs arbitrary: pv)
  case Nil
  then show ?case by (simp add: find_loop.simps)
next
  case (Cons x xs)
  then obtain p where p: "pcbs s x = Some p" "pnext p = first_or NULL xs" "x \<noteq> NULL" "seg (pcbs s) x xs NULL"
    by (auto split: option.splits)
  obtain d where d: "strcmp (pname p) nm = Inr d" "d = 0 \<longleftrightarrow> text_of (pname p) = text_of nm"
    using strcmp_terminated[of "pname p" nm] assms(2,3) p(1) by (auto simp: names_terminated_def)
  show ?case using p d Cons.IH[OF p(4)] by (subst find_loop.simps) (simp add: name_of_def)
qed

lemma pcb_find_refines:
  assumes "rep s A" and "names_terminated s" and "terminated nm"
  shows "pcb_find (Some nm) s =
    Inr (first_or NULL (filter (\<lambda>a. name_of s a = text_of nm) (all_queued A)))"
proof -
  let ?F = "\<lambda>q. first_or NULL (filter (\<lambda>a. name_of s a = text_of nm) (A q))"
  have l: "loop_result (find_loop (pcbs s) nm (head (queues s q))) = Inr (?F q)" for q
    using find_loop_spec[OF repD(3)[OF assms(1)] assms(2,3)] repD(1)[OF assms(1)] by simp
  have nz: "?F q = NULL \<longleftrightarrow> filter (\<lambda>a. name_of s a = text_of nm) (A q) = []" for q
    by (rule first_last_simps(1)) (use rep_no_NULL[OF assms(1)] in auto)
  have step: "first_or (first_or NULL ys) xs = (if first_or NULL xs = NULL \<and> xs = [] then first_or NULL ys else first_or NULL xs)" for xs ys :: "addr list"
    by (cases xs) auto
  show ?thesis
    by (simp add: pcb_find_def l all_queued_def first_or_append) (auto simp: step nz)
qed

section \<open>The interface the scheduler and the commands use\<close>

text \<open>
  A set of process queues: \<open>ins\<close> puts a process that is in no queue into the queue its
  state selects, \<open>rem\<close> takes a process out of the queue it is in, both without touching
  anything else of a process (\<open>same\<close>).
\<close>

locale process_queues =
  fixes ins :: "'a \<Rightarrow> 's \<Rightarrow> 's c"
    and rem :: "'a \<Rightarrow> 's \<Rightarrow> (int \<times> 's) c"
    and repr :: "'s \<Rightarrow> (qid \<Rightarrow> 'a list) \<Rightarrow> bool"
    and home :: "'s \<Rightarrow> 'a \<Rightarrow> qid option"
    and placed :: "'s \<Rightarrow> 'a \<Rightarrow> qid \<Rightarrow> 'a list \<Rightarrow> 'a list"
    and same :: "'s \<Rightarrow> 's \<Rightarrow> bool"
  assumes ins_ok: "repr s A \<Longrightarrow> home s a = Some q \<Longrightarrow> \<forall>q'. a \<notin> set (A q') \<Longrightarrow>
      \<exists>s'. ins a s = Inr s' \<and> repr s' (A(q := placed s a q (A q))) \<and> same s s'"
    and rem_ok: "repr s A \<Longrightarrow> a \<in> set (A q) \<Longrightarrow>
      \<exists>s'. rem a s = Inr (0, s') \<and> repr s' (A(q := remove1 a (A q))) \<and> same s s'"
    and once: "repr s A \<Longrightarrow> distinct (A q)"
    and apart: "repr s A \<Longrightarrow> a \<in> set (A q) \<Longrightarrow> a \<in> set (A q') \<Longrightarrow> q = q'"
    and set_placed: "set (placed s a q xs) = insert a (set xs)"
    and same_trans: "same s t \<Longrightarrow> same t u \<Longrightarrow> same s u"
    and same_home: "same s t \<Longrightarrow> home t = home s"
    and same_placed: "same s t \<Longrightarrow> placed t = placed s"
begin

lemma removed:
  assumes "repr s A" and "a \<in> set (A q)"
  shows "\<forall>q'. a \<notin> set ((A(q := remove1 a (A q))) q')"
  using assms once[OF assms(1), of q] apart[OF assms(1)] by auto

text \<open>Put \<open>c\<close> into its queue, then take \<open>h\<close> out of another or the same one.\<close>

lemma requeue:
  assumes r: "repr s A" and c: "home s c = Some q" "\<forall>q'. c \<notin> set (A q')" and h: "h \<in> set (A q0)"
  defines "B \<equiv> A(q := placed s c q (A q))"
  shows "\<exists>s1 s2. ins c s = Inr s1 \<and> rem h s1 = Inr (0, s2) \<and> repr s2 (B(q0 := remove1 h (B q0))) \<and> same s s2"
proof -
  obtain s1 where s1: "ins c s = Inr s1" "repr s1 B" "same s s1"
    using ins_ok[OF r c] by (auto simp: B_def)
  have "h \<in> set (B q0)" using h by (cases "q0 = q") (simp_all add: B_def set_placed)
  then show ?thesis using rem_ok[OF s1(2)] s1 same_trans by blast
qed

text \<open>Take a process out, change its state, put it into the queue of its new state.\<close>

lemma transfer:
  assumes r: "repr s A" and a: "a \<in> set (A q)"
    and f: "\<And>t B. repr t B \<Longrightarrow> \<forall>q'. a \<notin> set (B q') \<Longrightarrow> same s t \<Longrightarrow> repr (f t) B \<and> home (f t) a = Some q'"
  defines "B \<equiv> A(q := remove1 a (A q))"
  shows "\<exists>s1 s2. rem a s = Inr (0, s1) \<and> ins a (f s1) = Inr s2 \<and> same s s1 \<and> same (f s1) s2 \<and>
    repr s2 (B(q' := placed (f s1) a q' (B q')))"
proof -
  obtain s1 where s1: "rem a s = Inr (0, s1)" "repr s1 B" "same s s1"
    using rem_ok[OF r a] by (auto simp: B_def)
  have out: "\<forall>q'. a \<notin> set (B q')" unfolding B_def by (rule removed[OF r a])
  have "repr (f s1) B" "home (f s1) a = Some q'" using f[OF s1(2) out s1(3)] by auto
  then show ?thesis using ins_ok[OF _ _ out] s1 by blast
qed

end

definition home_of :: "pcb_state \<Rightarrow> addr \<Rightarrow> qid option" where
  "home_of s a = map_option select_queue (pcbs s a)"

interpretation pq: process_queues pcb_insert pcb_remove rep home_of place same_pcbs
proof
  show "\<exists>s'. pcb_insert a s = Inr s' \<and> rep s' (A(q := place s a q (A q))) \<and> same_pcbs s s'"
    if "rep s A" "home_of s a = Some q" "\<forall>q'. a \<notin> set (A q')" for s A a q
    using pcb_insert_refines[of s A a _ q] that by (auto simp: home_of_def queued_def)
  show "set (place s a q xs) = insert a (set xs)" for s a q xs by (simp add: place_def)
  show "place t = place s" if "same_pcbs s t" for s t
    unfolding place_def fun_eq_iff same_pcbs_prio[OF that] by simp
  show "home_of t = home_of s" if "same_pcbs s t" for s t
    using same_pcbs_home[OF that] by (simp add: home_of_def fun_eq_iff)
qed (use pcb_remove_refines repD(4) rep_unique_queue same_pcbs_trans in blast)+

section \<open>What pcb\_remove does to a PCB that is in no queue\<close>

lemma pcb_remove_detached:
  assumes r: "rep s A" and p: "pcbs s ptr = Some p" and nq: "\<not> queued A ptr" and q: "q = select_queue p"
  shows "pcb_remove ptr s =
    (if A q = [] then Inr (-1, s)
     else Inr (0, s\<lparr>queues := (queues s)(q := \<lparr>head = NULL, tail = NULL\<rparr>)\<rparr>))"
proof -
  note d = rep_detached[OF r p nq]
  have hd: "head (queues s q) = NULL \<longleftrightarrow> A q = []"
    using first_last_simps(1)[OF rep_no_NULL[OF r]] repD(1)[OF r] by simp
  have same: "p\<lparr>pprev := NULL, pnext := NULL\<rparr> = p" using d by (cases p) simp
  have upd: "(pcbs s)(ptr \<mapsto> p\<lparr>pprev := NULL, pnext := NULL\<rparr>) = pcbs s"
    unfolding same using p by (rule fun_upd_idem)
  show ?thesis using hd d p q upd
    by (simp add: pcb_remove_def load_live set_head_def set_tail_def set_prev_def set_next_def
        modify_live queue_updates Let_def)
qed

section \<open>Properties\<close>

text \<open>Property C14. \<open>pcb_insert\<close> puts a process that is in no queue into the queue its state
  selects: into the ready queue behind the processes of the same or a higher priority and
  before the others, into the other queues at the end. It never stops, keeps the doubly
  linked queues well formed and the ready queue sorted, and changes links only.\<close>

theorem pcb_insert_places:
  assumes "rep s A" and "pcbs s ptr = Some p" and "\<not> queued A ptr"
  shows "\<exists>s'. pcb_insert ptr s = Inr s' \<and> same_pcbs s s' \<and>
    rep s' (A(select_queue p :=
      (if select_queue p = ReadyQ then ins_ready (prio_of s) ptr (A ReadyQ)
       else A (select_queue p) @ [ptr])))"
  using pcb_insert_refines[OF assms refl] by (auto simp: place_def)

text \<open>Property C15. \<open>pcb_remove\<close> takes a queued process out of its queue, wherever it stands
  in it, returns 0, and changes nothing else of the processes.\<close>

theorem pcb_remove_unlinks:
  assumes "rep s A" and "a \<in> set (A q)"
  shows "\<exists>s'. pcb_remove a s = Inr (0, s') \<and> same_pcbs s s' \<and> rep s' (A(q := remove1 a (A q))) \<and>
    \<not> queued (A(q := remove1 a (A q))) a"
  using pcb_remove_refines[OF assms] pq.removed[OF assms] by (auto simp: queued_def)

text \<open>Property C16. \<open>pcb_find\<close> returns the first process with the name in the order ready,
  blocked, suspended-ready, suspended-blocked, and NULL if no queued process has it.\<close>

theorem pcb_find_first:
  assumes "rep s A" and "names_terminated s" and "terminated nm"
  shows "pcb_find (Some nm) s =
    Inr (case filter (\<lambda>a. name_of s a = text_of nm)
                (A ReadyQ @ A BlockedQ @ A SuspReadyQ @ A SuspBlockedQ) of
           [] \<Rightarrow> NULL | a # _ \<Rightarrow> a)"
  using pcb_find_refines[OF assms] by (simp add: first_or_def all_queued_def)

text \<open>Removing a process that is in no queue (as the running one) is not
  refused: if the queue its state selects is not empty, \<open>pcb_remove\<close> returns 0 and sets head
  and tail of this queue to NULL, so all processes in it are lost.\<close>

theorem pcb_remove_loses_queue:
  assumes "rep s A" and "pcbs s ptr = Some p" and "\<not> queued A ptr" and "A (select_queue p) \<noteq> []"
  shows "pcb_remove ptr s =
    Inr (0, s\<lparr>queues := (queues s)(select_queue p := \<lparr>head = NULL, tail = NULL\<rparr>)\<rparr>)"
  using pcb_remove_detached[OF assms(1-3) refl] assms(4) by simp

end
