(* ===== verification/Hardware.thy ===== *)
theory Hardware
  imports CStrings "HOL-Library.Stream"
begin

text \<open>
  The devices the kernel reaches through port instructions, by \<open>outb\<close> and \<open>inb\<close> of
  \<^verbatim>\<open>include/mpx/io.h\<close> and the interrupt flag of \<^verbatim>\<open>include/mpx/interrupts.h\<close>.

  A serial port is a 16550 UART: the divisor latch answers at offsets 0 and 1 while bit 7 of
  the line control register is set, else a byte written at offset 0 is transmitted and a
  read at offset 0 takes what the receiver holds. The code polls the receiver without asking
  whether a byte is there, so \<open>rx\<close> is the stream of the values these reads return (NUL
  where nothing was typed). The CMOS clock is a file of byte registers behind an index port
  (whose bit 7 is not part of the index) and a data port; its registers do not move while a
  function of the kernel reads them. Writes to other ports are logged, reads give 0xFF.
\<close>

type_synonym u8 = "8 word"
type_synonym port = nat

record uart =
  dll :: u8
  dlm :: u8
  ier :: u8
  fcr :: u8
  lcr :: u8
  mcr :: u8
  tx :: string
  rx :: "char stream"

record hw =
  uarts :: "port \<Rightarrow> uart"
  cmos_index :: u8
  cmos :: "u8 \<Rightarrow> u8"
  interrupts_on :: bool
  port_log :: "(port \<times> u8) list"

abbreviation (input) CMOS_ADDRESS :: port where "CMOS_ADDRESS \<equiv> 0x70"
abbreviation (input) CMOS_DATA :: port where "CMOS_DATA \<equiv> 0x71"

text \<open>The four serial ports of \<^verbatim>\<open>include/mpx/device.h\<close>.\<close>

abbreviation (input) COM1 :: port where "COM1 \<equiv> 0x3f8"
abbreviation (input) COM2 :: port where "COM2 \<equiv> 0x2f8"
abbreviation (input) COM3 :: port where "COM3 \<equiv> 0x3e8"
abbreviation (input) COM4 :: port where "COM4 \<equiv> 0x2e8"

definition uart_base :: "port \<Rightarrow> port" where
  "uart_base p = p - p mod 8"

definition is_uart :: "port \<Rightarrow> bool" where
  "is_uart p \<longleftrightarrow> uart_base p = COM1 \<or> uart_base p = COM2 \<or> uart_base p = COM3 \<or> uart_base p = COM4"

definition byte_of :: "char \<Rightarrow> u8" where
  "byte_of ch = of_char ch"

definition char_of_byte :: "u8 \<Rightarrow> char" where
  "char_of_byte b = char_of (unat b)"

definition dlab :: "uart \<Rightarrow> bool" where
  "dlab u \<longleftrightarrow> bit (lcr u) 7"

definition uart_write :: "nat \<Rightarrow> u8 \<Rightarrow> uart \<Rightarrow> uart" where
  "uart_write reg v u =
     (if reg = 0 then if dlab u then u\<lparr>dll := v\<rparr> else u\<lparr>tx := tx u @ [char_of_byte v]\<rparr>
      else if reg = 1 then if dlab u then u\<lparr>dlm := v\<rparr> else u\<lparr>ier := v\<rparr>
      else if reg = 2 then u\<lparr>fcr := v\<rparr>
      else if reg = 3 then u\<lparr>lcr := v\<rparr>
      else if reg = 4 then u\<lparr>mcr := v\<rparr>
      else u)"

definition outb :: "port \<Rightarrow> u8 \<Rightarrow> hw \<Rightarrow> hw" where
  "outb p v m =
     (if is_uart p
      then m\<lparr>uarts := (uarts m)(uart_base p := uart_write (p mod 8) v (uarts m (uart_base p)))\<rparr>
      else if p = CMOS_ADDRESS then m\<lparr>cmos_index := take_bit 7 v\<rparr>
      else if p = CMOS_DATA then m\<lparr>cmos := (cmos m)(cmos_index m := v)\<rparr>
      else m\<lparr>port_log := port_log m @ [(p, v)]\<rparr>)"

definition inb :: "port \<Rightarrow> hw \<Rightarrow> u8 \<times> hw" where
  "inb p m =
     (if is_uart p \<and> p mod 8 = 0
      then let b = uart_base p; u = uarts m b
           in if dlab u then (dll u, m)
              else (byte_of (shd (rx u)), m\<lparr>uarts := (uarts m)(b := u\<lparr>rx := stl (rx u)\<rparr>)\<rparr>)
      else if p = CMOS_DATA then (cmos m (cmos_index m), m)
      else (0xFF, m))"

definition cli :: "hw \<Rightarrow> hw" where
  "cli m = m\<lparr>interrupts_on := False\<rparr>"

definition sti :: "hw \<Rightarrow> hw" where
  "sti m = m\<lparr>interrupts_on := True\<rparr>"

section \<open>Bytes and characters\<close>

lemma unat_byte_of: "unat (byte_of ch) = of_char ch"
proof -
  have "byte_of ch = of_nat (of_char ch)" by (simp add: byte_of_def of_nat_of_char)
  then show ?thesis by (simp add: unat_of_nat)
qed

lemma char_of_byte_of [simp]: "char_of_byte (byte_of ch) = ch"
  by (simp add: char_of_byte_def unat_byte_of)

lemma is_uart_bases [simp]:
  "is_uart COM1" "is_uart COM2" "is_uart COM3" "is_uart COM4"
  "\<not> is_uart CMOS_ADDRESS" "\<not> is_uart CMOS_DATA"
  by (simp_all add: is_uart_def uart_base_def)

text \<open>Transmission and reception on a line whose divisor latch is closed.\<close>

lemma outb_transmit:
  assumes "dev mod 8 = 0" and "is_uart dev" and "\<not> dlab (uarts m dev)"
  shows "outb dev (byte_of ch) m =
    m\<lparr>uarts := (uarts m)(dev := (uarts m dev)\<lparr>tx := tx (uarts m dev) @ [ch]\<rparr>)\<rparr>"
  using assms by (simp add: outb_def uart_write_def uart_base_def)

lemma inb_receive:
  assumes "dev mod 8 = 0" and "is_uart dev" and "\<not> dlab (uarts m dev)"
  shows "inb dev m = (byte_of (shd (rx (uarts m dev))),
    m\<lparr>uarts := (uarts m)(dev := (uarts m dev)\<lparr>rx := stl (rx (uarts m dev))\<rparr>)\<rparr>)"
  using assms by (simp add: inb_def uart_base_def Let_def)

end
