(* ===== verification/Serial.thy ===== *)
theory Serial
  imports Hardware
begin

text \<open>
  The serial driver \<^verbatim>\<open>kernel/serial.c\<close>, and the \<open>WRITE\<close> and \<open>READ\<close> requests of
  \<open>sys_req\<close> in \<^verbatim>\<open>user/core.c\<close>: the trap hands both back with the result -1 (lemma
  \<open>sys_call_other\<close> of the theory \<open>Scheduler\<close>), and the caller then runs the driver itself.

  \<open>io\<close> is what the driver reads and writes: the flags of the initialised ports and the
  devices. \<open>serial_poll\<close> reads until the line is ended, so it is a partial function over
  the stream of received bytes; its state is the record \<open>poll\<close> of the local variables.
  The array index of the code is a signed \<open>int\<close> that need not stay inside the buffer:
  \<open>put_at\<close> is the checked store at such an index.
\<close>

record io =
  initialized :: "int \<Rightarrow> int"
  devices :: hw

section \<open>serial\_init and serial\_out\<close>

abbreviation (input) THR :: nat where "THR \<equiv> 0"
abbreviation (input) DLL :: nat where "DLL \<equiv> 0"
abbreviation (input) IER :: nat where "IER \<equiv> 1"
abbreviation (input) DLM :: nat where "DLM \<equiv> 1"
abbreviation (input) FCR :: nat where "FCR \<equiv> 2"
abbreviation (input) LCR :: nat where "LCR \<equiv> 3"
abbreviation (input) MCR :: nat where "MCR \<equiv> 4"

definition serial_devno :: "port \<Rightarrow> int" where
  "serial_devno dev =
     (if dev = COM1 then 0 else if dev = COM2 then 1 else if dev = COM3 then 2
      else if dev = COM4 then 3 else -1)"

definition serial_init :: "port \<Rightarrow> io \<Rightarrow> int \<times> io" where
  "serial_init dev s =
     (let dno = serial_devno dev
      in if dno = -1 then (-1, s)
         else
           let m = devices s;
               m = outb (dev + IER) 0x00 m;
               m = outb (dev + LCR) 0x80 m;
               m = outb (dev + DLL) (of_nat (115200 div 9600)) m;
               m = outb (dev + DLM) 0x00 m;
               m = outb (dev + LCR) 0x03 m;
               m = outb (dev + FCR) 0xC7 m;
               m = outb (dev + MCR) 0x0B m;
               m = snd (inb dev m)
           in (0, s\<lparr>devices := m, initialized := (initialized s)(dno := 1)\<rparr>))"

definition serial_out :: "port \<Rightarrow> cbuf \<Rightarrow> nat \<Rightarrow> io \<Rightarrow> (int \<times> io) c" where
  "serial_out dev buffer len s =
     (let dno = serial_devno dev
      in if dno = -1 \<or> initialized s dno = 0 then Inr (-1, s)
         else bindE (foldE (\<lambda>i m. bindE (peek buffer i) (\<lambda>ch. Inr (outb dev (byte_of ch) m)))
                       [0..<len] (devices s))
                (\<lambda>m. Inr (int len, s\<lparr>devices := m\<rparr>)))"

text \<open>\<open>sys_req(WRITE, dev, buffer, len)\<close>, its result ignored as by all callers.\<close>

definition sys_req_WRITE :: "port \<Rightarrow> cbuf \<Rightarrow> nat \<Rightarrow> io \<Rightarrow> io c" where
  "sys_req_WRITE dev buffer len s = bindE (serial_out dev buffer len s) (\<lambda>(_, s). Inr s)"

section \<open>serial\_poll\<close>

record poll =
  line :: cbuf
  index :: int
  endOfLine :: int
  pio :: io

definition put_at :: "cbuf \<Rightarrow> int \<Rightarrow> char \<Rightarrow> cbuf c" where
  "put_at buf i ch = (if i < 0 then Inl OutOfBounds else put buf (nat i) ch)"

definition peek_at :: "cbuf \<Rightarrow> int \<Rightarrow> char c" where
  "peek_at buf i = (if i < 0 then Inl OutOfBounds else peek buf (nat i))"

definition receive :: "port \<Rightarrow> poll \<Rightarrow> char \<times> poll" where
  "receive dev p =
     (let (b, m) = inb dev (devices (pio p))
      in (char_of_byte b, p\<lparr>pio := (pio p)\<lparr>devices := m\<rparr>\<rparr>))"

definition send :: "port \<Rightarrow> char \<Rightarrow> poll \<Rightarrow> poll" where
  "send dev ch p = p\<lparr>pio := (pio p)\<lparr>devices := outb dev (byte_of ch) (devices (pio p))\<rparr>\<rparr>"

definition write_lit :: "string \<Rightarrow> nat \<Rightarrow> poll \<Rightarrow> poll c" where
  "write_lit str len p = bindE (sys_req_WRITE COM1 (lit str) len (pio p)) (\<lambda>s. Inr (p\<lparr>pio := s\<rparr>))"

definition store :: "int \<Rightarrow> char \<Rightarrow> poll \<Rightarrow> poll c" where
  "store i ch p = bindE (put_at (line p) i ch) (\<lambda>buf. Inr (p\<lparr>line := buf\<rparr>))"

abbreviation BACKSPACE :: char where "BACKSPACE \<equiv> CHR 0x08"
abbreviation DELETE :: char where "DELETE \<equiv> CHR 0x7F"

definition between :: "char \<Rightarrow> char \<Rightarrow> char \<Rightarrow> bool" where
  "between lo ch hi \<longleftrightarrow> schar lo \<le> schar ch \<and> schar ch \<le> schar hi"

definition printable :: "char \<Rightarrow> bool" where
  "printable ch \<longleftrightarrow>
     between CHR ''a'' ch CHR ''z'' \<or> between CHR ''A'' ch CHR ''Z'' \<or>
     between CHR ''0'' ch CHR ''9'' \<or> between CHR ''!'' ch CHR ''/'' \<or>
     ch = CHR '' '' \<or> ch = CHR '':''"

definition poll_type :: "port \<Rightarrow> char \<Rightarrow> poll \<Rightarrow> poll c" where
  "poll_type dev input p =
     bindE (store (index p) input p) (\<lambda>p.
     let p = send dev input p
     in bindE (i32 (index p + 1)) (\<lambda>i. bindE (i32 (endOfLine p + 1)) (\<lambda>e.
        Inr (p\<lparr>index := i, endOfLine := e\<rparr>))))"

definition poll_erase :: "port \<Rightarrow> poll \<Rightarrow> poll c" where
  "poll_erase dev p =
     bindE (i32 (endOfLine p - 1)) (\<lambda>e.
     let p = p\<lparr>index := index p - 1, endOfLine := e\<rparr>
     in bindE (store (index p) NUL p) (\<lambda>p.
        Inr (send dev BACKSPACE (send dev (CHR '' '') (send dev BACKSPACE p)))))"

text \<open>Inside an escape sequence: the keys that end it, and the tilde after the 3 of the
  delete key.\<close>

partial_function (option) wait_key :: "port \<Rightarrow> poll \<Rightarrow> (char \<times> poll) option" where
  "wait_key dev p =
     (case receive dev p of (specialKey, p) \<Rightarrow>
        if specialKey \<in> {CHR ''A'', CHR ''B'', CHR ''C'', CHR ''D'', CHR ''3''}
        then Some (specialKey, p) else wait_key dev p)"

partial_function (option) wait_tilde :: "port \<Rightarrow> char \<Rightarrow> poll \<Rightarrow> poll option" where
  "wait_tilde dev input p =
     (if input \<noteq> CHR ''~'' then case receive dev p of (input, p) \<Rightarrow> wait_tilde dev input p
      else Some p)"

definition poll_delete :: "port \<Rightarrow> poll \<Rightarrow> poll c" where
  "poll_delete dev p =
     (if index p < endOfLine p - 1
      then bindE (foldE (\<lambda>i p. bindE (peek_at (line p) (i + 1)) (\<lambda>ch.
                               bindE (store i ch p) (\<lambda>p. Inr (send dev ch p))))
                    [index p..endOfLine p - 2] p) (\<lambda>p.
           let p = send dev (CHR '' '') p
           in bindE (foldE (\<lambda>i. write_lit (ESC # ''[D'') 3) [index p..endOfLine p - 1] p) (\<lambda>p.
              Inr (p\<lparr>endOfLine := endOfLine p - 1\<rparr>)))
      else if index p = endOfLine p - 1
      then bindE (store (index p) NUL p) (\<lambda>p.
           bindE (write_lit (CHR '' '' # ESC # ''[D'') 4 p) (\<lambda>p.
           bindE (i32 (endOfLine p - 1)) (\<lambda>e. Inr (p\<lparr>endOfLine := e\<rparr>))))
      else Inr p)"

definition poll_escape :: "port \<Rightarrow> poll \<Rightarrow> poll c" where
  "poll_escape dev p =
     (let (input, p) = receive dev p
      in case wait_key dev p of
        None \<Rightarrow> Inl Diverges
      | Some (specialKey, p) \<Rightarrow>
          if specialKey = CHR ''C''
          then bindE (write_lit (ESC # ''[C'') 3 p) (\<lambda>p. Inr (p\<lparr>index := index p + 1\<rparr>))
          else if specialKey = CHR ''D''
          then if index p = 0 then Inr p
               else bindE (write_lit (ESC # ''[D'') 3 p) (\<lambda>p. Inr (p\<lparr>index := index p - 1\<rparr>))
          else if specialKey = CHR ''3''
          then case wait_tilde dev input p of
                 None \<Rightarrow> Inl Diverges
               | Some p \<Rightarrow> poll_delete dev p
          else Inr p)"

text \<open>One turn of the loop: \<open>Some r\<close> is the return of the function with result \<open>r\<close>.\<close>

definition poll_turn :: "port \<Rightarrow> poll \<Rightarrow> (int option \<times> poll) c" where
  "poll_turn dev p =
     (let (input, p) = receive dev p; go = \<lambda>p. Inr (None, p)
      in if printable input then bindE (poll_type dev input p) go
         else if (input = BACKSPACE \<or> input = DELETE) \<and> index p > 0 then bindE (poll_erase dev p) go
         else if input = LF \<or> input = CR
         then bindE (store (endOfLine p) NUL p) (\<lambda>p.
              Inr (Some (endOfLine p), send dev input p))
         else if input = ESC then bindE (poll_escape dev p) go
         else Inr (None, p))"

partial_function (option) poll_loop :: "port \<Rightarrow> nat \<Rightarrow> poll \<Rightarrow> (int \<times> poll) c option" where
  "poll_loop dev len p =
     (if index p < int len - 1
      then case poll_turn dev p of
             Inl e \<Rightarrow> Some (Inl e)
           | Inr (r, p) \<Rightarrow> (case r of Some r \<Rightarrow> Some (Inr (r, p)) | None \<Rightarrow> poll_loop dev len p)
      else Some (bindE (store (index p) NUL p) (\<lambda>p. Inr (-1, p))))"

definition serial_poll :: "port \<Rightarrow> cbuf \<Rightarrow> nat \<Rightarrow> io \<Rightarrow> (int \<times> cbuf \<times> io) c" where
  "serial_poll dev buffer len s =
     bindE (write_lit ''( ')> '' 6 \<lparr>line = buffer, index = 0, endOfLine = 0, pio = s\<rparr>) (\<lambda>p.
     bindE (loop_result (poll_loop dev len p)) (\<lambda>(r, p). Inr (r, line p, pio p)))"

definition sys_req_READ :: "port \<Rightarrow> cbuf \<Rightarrow> nat \<Rightarrow> io \<Rightarrow> (int \<times> cbuf \<times> io) c" where
  "sys_req_READ dev buffer len s = serial_poll dev buffer len s"

section \<open>A line that is set up\<close>

text \<open>
  \<open>online dev s\<close>: the port is initialised and its divisor latch is closed. On such a
  port the driver only appends to what is sent and takes from what is pending.
\<close>

definition online :: "port \<Rightarrow> io \<Rightarrow> bool" where
  "online dev s \<longleftrightarrow>
     serial_devno dev \<noteq> -1 \<and> initialized s (serial_devno dev) \<noteq> 0 \<and> \<not> dlab (uarts (devices s) dev)"

definition sent :: "port \<Rightarrow> io \<Rightarrow> string" where
  "sent dev s = tx (uarts (devices s) dev)"

definition pending :: "port \<Rightarrow> io \<Rightarrow> char stream" where
  "pending dev s = rx (uarts (devices s) dev)"

definition set_line :: "port \<Rightarrow> string \<Rightarrow> char stream \<Rightarrow> io \<Rightarrow> io" where
  "set_line dev t r s = s\<lparr>devices := (devices s)\<lparr>uarts :=
     (uarts (devices s))(dev := (uarts (devices s) dev)\<lparr>tx := t, rx := r\<rparr>)\<rparr>\<rparr>"

lemma set_line_simps [simp]:
  "sent dev (set_line dev t r s) = t" "pending dev (set_line dev t r s) = r"
  "set_line dev t r (set_line dev t' r' s) = set_line dev t r s"
  "online dev (set_line dev t r s) = online dev s"
  "set_line dev (sent dev s) (pending dev s) s = s"
  by (simp_all add: set_line_def sent_def pending_def online_def dlab_def)

lemma devno_uart: "serial_devno dev \<noteq> -1 \<Longrightarrow> is_uart dev \<and> dev mod 8 = 0"
  by (auto simp: serial_devno_def is_uart_def uart_base_def split: if_splits)

lemma outb_online:
  assumes "online dev s"
  shows "s\<lparr>devices := outb dev (byte_of ch) (devices s)\<rparr> =
    set_line dev (sent dev s @ [ch]) (pending dev s) s"
  using assms devno_uart[of dev] by (simp add: online_def outb_transmit set_line_def sent_def pending_def)

lemma set_line_devices [simp]: "s\<lparr>devices := devices (set_line dev t r s)\<rparr> = set_line dev t r s"
  by (simp add: set_line_def)

lemma uart_tx_rx: "u\<lparr>rx := r, tx := t\<rparr> = u\<lparr>tx := t, rx := r\<rparr>"
  by (cases u) simp

lemma outb_set_line:
  assumes "online dev s"
  shows "outb dev (byte_of ch) (devices (set_line dev t r s)) = devices (set_line dev (t @ [ch]) r s)"
  using assms devno_uart[of dev] by (simp add: online_def outb_transmit set_line_def dlab_def uart_tx_rx)

lemma serial_out_online:
  assumes "online dev s" and "len \<le> length buffer"
  shows "serial_out dev buffer len s =
    Inr (int len, set_line dev (sent dev s @ take len buffer) (pending dev s) s)"
proof -
  have "foldE (\<lambda>i m. bindE (peek buffer i) (\<lambda>ch. Inr (outb dev (byte_of ch) m))) [0..<len]
      (devices (set_line dev (sent dev s) (pending dev s) s)) =
    Inr (devices (set_line dev (sent dev s @ take len buffer) (pending dev s) s))"
    using assms(2)
  proof (induction len)
    case 0
    then show ?case by simp
  next
    case (Suc n)
    then show ?case using outb_set_line[OF assms(1)]
      by (simp only: upt_Suc_append foldE_append take_Suc_conv_app_nth) simp
  qed
  then have "foldE (\<lambda>i m. bindE (peek buffer i) (\<lambda>ch. Inr (outb dev (byte_of ch) m))) [0..<len] (devices s) =
    Inr (devices (set_line dev (sent dev s @ take len buffer) (pending dev s) s))"
    by (simp only: set_line_simps(5))
  then show ?thesis using assms(1) by (simp add: serial_out_def online_def Let_def)
qed

lemma sys_req_WRITE_online:
  assumes "online dev s" and "len \<le> length buffer"
  shows "sys_req_WRITE dev buffer len s =
    Inr (set_line dev (sent dev s @ take len buffer) (pending dev s) s)"
  using serial_out_online[OF assms] by (simp add: sys_req_WRITE_def)

text \<open>A length beyond the bytes of the object reads past it.\<close>

lemma serial_out_beyond:
  assumes "online dev s" and "length buffer < len"
  shows "serial_out dev buffer len s = Inl OutOfBounds"
proof -
  have sp: "[0..<len] = [0..<length buffer] @ length buffer # [Suc (length buffer)..<len]"
    using assms(2) upt_add_eq_append[of 0 "length buffer" "len - length buffer"]
      upt_conv_Cons[of "length buffer" len] by simp
  have "foldE (\<lambda>i m. bindE (peek buffer i) (\<lambda>ch. Inr (outb dev (byte_of ch) m))) [0..<len] m = Inl OutOfBounds" for m
  proof -
    have "\<exists>m'. foldE (\<lambda>i m. bindE (peek buffer i) (\<lambda>ch. Inr (outb dev (byte_of ch) m))) [0..<n] m = Inr m'"
      if "n \<le> length buffer" for n
      using that by (induction n) (auto simp: foldE_append)
    then show ?thesis unfolding sp foldE_append by fastforce
  qed
  then show ?thesis using assms(1) by (simp add: serial_out_def online_def Let_def)
qed

lemma serial_out_uninitialised:
  "serial_devno dev = -1 \<or> initialized s (serial_devno dev) = 0 \<Longrightarrow> serial_out dev buffer len s = Inr (-1, s)"
  by (auto simp: serial_out_def Let_def)

section \<open>The effect of serial\_init\<close>

lemma serial_init_configures:
  fixes dev s
  assumes "serial_devno dev \<noteq> -1" and "\<not> dlab (uarts (devices s) dev)"
  defines "s' \<equiv> snd (serial_init dev s)"
  shows "fst (serial_init dev s) = 0" and "online dev s'"
    and "uarts (devices s') dev = (uarts (devices s) dev)
      \<lparr>ier := 0, dll := 12, dlm := 0, lcr := 0x03, fcr := 0xC7, mcr := 0x0B, rx := stl (pending dev s)\<rparr>"
    and "\<And>d. d \<noteq> dev \<Longrightarrow> uarts (devices s') d = uarts (devices s) d"
    and "initialized s' = (initialized s)(serial_devno dev := 1)"
proof -
  have dev: "dev = COM1 \<or> dev = COM2 \<or> dev = COM3 \<or> dev = COM4"
    using assms(1) by (auto simp: serial_devno_def split: if_splits)
  have u: "is_uart (dev + r) \<and> (dev + r) mod 8 = r \<and> uart_base (dev + r) = dev" if "r \<in> {0, 1, 2, 3, 4}" for r
    using dev that by (auto simp: is_uart_def uart_base_def)
  have off: "outb (dev + r) v m = m\<lparr>uarts := (uarts m)(dev := uart_write r v (uarts m dev))\<rparr>"
    if "r \<in> {0, 1, 2, 3, 4}" for r v m
    using u[OF that] by (simp add: outb_def)
  have lcr_bit: "\<not> bit (3 :: u8) 7" "bit (128 :: u8) 7" by simp_all
  have s': "s' = s\<lparr>devices := (devices s)\<lparr>uarts := (uarts (devices s))(dev := (uarts (devices s) dev)
      \<lparr>ier := 0, dll := 12, dlm := 0, lcr := 0x03, fcr := 0xC7, mcr := 0x0B, rx := stl (pending dev s)\<rparr>)\<rparr>,
      initialized := (initialized s)(serial_devno dev := 1)\<rparr>"
    using assms(1,2) off[of 0] off[of 1] off[of 2] off[of 3] off[of 4] u[of 0] lcr_bit
    by (cases "uarts (devices s) dev") (simp add: s'_def serial_init_def Let_def uart_write_def inb_def dlab_def pending_def)
  show "fst (serial_init dev s) = 0" using assms(1) by (simp add: serial_init_def Let_def)
  show "online dev s'" using assms(1) lcr_bit by (simp add: s' online_def dlab_def)
  show "uarts (devices s') dev = (uarts (devices s) dev)
      \<lparr>ier := 0, dll := 12, dlm := 0, lcr := 0x03, fcr := 0xC7, mcr := 0x0B, rx := stl (pending dev s)\<rparr>"
    by (simp add: s')
  show "uarts (devices s') d = uarts (devices s) d" if "d \<noteq> dev" for d using that by (simp add: s')
  show "initialized s' = (initialized s)(serial_devno dev := 1)" by (simp add: s')
qed

section \<open>Line editing\<close>

text \<open>
  What a line of ordinary input (anything but CR, LF and ESC) does: \<open>edit\<close> the line typed
  so far and \<open>echo\<close> to the terminal. \<open>fits cap l cs\<close>: the line stays shorter than \<open>cap\<close>
  while \<open>cs\<close> is typed after \<open>l\<close>.
\<close>

definition ordinary :: "char \<Rightarrow> bool" where
  "ordinary ch \<longleftrightarrow> ch \<notin> {CR, LF, ESC}"

definition edit :: "string \<Rightarrow> char \<Rightarrow> string" where
  "edit l ch = (if printable ch then l @ [ch] else if ch \<in> {BACKSPACE, DELETE} then butlast l else l)"

definition echo :: "string \<Rightarrow> char \<Rightarrow> string" where
  "echo l ch =
     (if printable ch then [ch]
      else if ch \<in> {BACKSPACE, DELETE} \<and> l \<noteq> [] then [BACKSPACE, CHR '' '', BACKSPACE] else [])"

fun echoes :: "string \<Rightarrow> string \<Rightarrow> string" where
  "echoes l [] = []"
| "echoes l (ch # cs) = echo l ch @ echoes (edit l ch) cs"

fun fits :: "nat \<Rightarrow> string \<Rightarrow> string \<Rightarrow> bool" where
  "fits cap l [] = (length l < cap)"
| "fits cap l (ch # cs) = (length l < cap \<and> fits cap (edit l ch) cs)"

definition polling :: "cbuf \<Rightarrow> nat \<Rightarrow> io \<Rightarrow> poll" where
  "polling buf n s = \<lparr>line = buf, index = int n, endOfLine = int n, pio = s\<rparr>"

lemma receive_online:
  assumes "online dev s" and "pending dev s = ch ## r"
  shows "receive dev \<lparr>line = b, index = i, endOfLine = e, pio = s\<rparr> =
    (ch, \<lparr>line = b, index = i, endOfLine = e, pio = set_line dev (sent dev s) r s\<rparr>)"
  using assms devno_uart[of dev]
  by (simp add: receive_def inb_receive online_def set_line_def pending_def sent_def)

lemma send_online:
  assumes "online dev s"
  shows "send dev ch \<lparr>line = b, index = i, endOfLine = e, pio = s\<rparr> =
    \<lparr>line = b, index = i, endOfLine = e, pio = set_line dev (sent dev s @ [ch]) (pending dev s) s\<rparr>"
  using outb_online[OF assms] by (simp add: send_def)

lemma store_line:
  "n < length b \<Longrightarrow> store (int n) ch \<lparr>line = b, index = i, endOfLine = e, pio = s\<rparr> =
    Inr \<lparr>line = b[n := ch], index = i, endOfLine = e, pio = s\<rparr>"
  by (simp add: store_def put_at_def)

lemma printable_not: "printable ch \<Longrightarrow> ch \<notin> {BACKSPACE, DELETE, CR, LF, ESC}"
  by (auto simp: printable_def between_def schar_def)

lemma poll_turn_edit:
  assumes on: "online dev s" and pend: "pending dev s = ch ## r" and ord: "ordinary ch"
    and l: "length l < length b" "take (length l) b = l" and small: "length b \<le> 2147483647"
  shows "\<exists>b'. poll_turn dev (polling b (length l) s) =
      Inr (None, polling b' (length (edit l ch)) (set_line dev (sent dev s @ echo l ch) r s)) \<and>
    length b' = length b \<and> take (length (edit l ch)) b' = edit l ch"
proof -
  note rec = receive_online[OF on pend]
  note snd = send_online[of dev "set_line dev t r s" for t]
  show ?thesis
  proof (cases "printable ch")
    case True
    then show ?thesis using on l small printable_not[OF True]
      by (simp add: poll_turn_def polling_def rec poll_type_def store_line snd edit_def echo_def
          take_Suc_conv_app_nth add.commute)
  next
    case False
    show ?thesis
    proof (cases "ch \<in> {BACKSPACE, DELETE} \<and> l \<noteq> []")
      case True
      then obtain k x where k: "l = k @ [x]" by (metis rev_exhaust)
      have "take (length k) b = take (length k) (take (length l) b)" using k by simp
      also have "\<dots> = k" using l(2) k by simp
      finally have "take (length k) (b[length k := NUL]) = k" by simp
      then show ?thesis using on l small True False k store_line[of "length k"]
        by (auto simp: poll_turn_def polling_def rec poll_erase_def snd edit_def echo_def)
    next
      case nb: False
      then have "edit l ch = l \<and> echo l ch = []" using False by (auto simp: edit_def echo_def)
      then show ?thesis using nb False l ord
        by (auto simp: poll_turn_def polling_def rec ordinary_def)
    qed
  qed
qed

lemma poll_turn_end:
  assumes on: "online dev s" and pend: "pending dev s = ch ## r" and e: "ch = CR \<or> ch = LF"
    and l: "length l < length b" "take (length l) b = l"
  shows "\<exists>b'. poll_turn dev (polling b (length l) s) =
      Inr (Some (int (length l)), polling b' (length l) (set_line dev (sent dev s @ [ch]) r s)) \<and>
    length b' = length b \<and> take (length l + 1) b' = l @ [NUL]"
proof -
  have "\<not> printable ch" "ch \<notin> {BACKSPACE, DELETE}" using e printable_not[of ch] by auto
  then show ?thesis
    using e l on store_line[of "length l"] send_online[of dev "set_line dev t r s" for t]
    by (auto simp: poll_turn_def polling_def receive_online[OF on pend] take_Suc_conv_app_nth)
qed

text \<open>The arrow keys, and the characters of a terminal that move the cursor.\<close>

abbreviation left_arrow :: string where "left_arrow \<equiv> ESC # ''[D''"
abbreviation right_arrow :: string where "right_arrow \<equiv> ESC # ''[C''"

lemma ESC_not_printable [simp]: "\<not> printable ESC"
  by (simp add: printable_def between_def schar_def)

lemma poll_turn_left:
  assumes "online COM1 s" and "pending COM1 s = left_arrow @- r" and "i \<noteq> 0"
  shows "poll_turn COM1 \<lparr>line = b, index = i, endOfLine = e, pio = s\<rparr> =
    Inr (None, \<lparr>line = b, index = i - 1, endOfLine = e, pio = set_line COM1 (sent COM1 s @ left_arrow) r s\<rparr>)"
  using assms
  by (simp add: poll_turn_def poll_escape_def receive_online wait_key.simps write_lit_def
      sys_req_WRITE_online lit_def Let_def)

lemma poll_turn_right:
  assumes "online COM1 s" and "pending COM1 s = right_arrow @- r"
  shows "poll_turn COM1 \<lparr>line = b, index = i, endOfLine = e, pio = s\<rparr> =
    Inr (None, \<lparr>line = b, index = i + 1, endOfLine = e, pio = set_line COM1 (sent COM1 s @ right_arrow) r s\<rparr>)"
  using assms
  by (simp add: poll_turn_def poll_escape_def receive_online wait_key.simps write_lit_def
      sys_req_WRITE_online lit_def Let_def)

lemma poll_turn_printable:
  assumes "online dev s" and "pending dev s = ch ## r" and "printable ch"
    and "n < length b" and "- 2147483648 \<le> e" "e < 2147483647" "n < 2147483647"
  shows "poll_turn dev \<lparr>line = b, index = int n, endOfLine = e, pio = s\<rparr> =
    Inr (None, \<lparr>line = b[n := ch], index = int n + 1, endOfLine = e + 1,
      pio = set_line dev (sent dev s @ [ch]) r s\<rparr>)"
  using assms by (simp add: poll_turn_def poll_type_def receive_online store_line send_online Let_def)

text \<open>Turns of the loop that do not return.\<close>

lemma poll_loop_turn:
  "poll_turn dev p = Inr (None, p') \<Longrightarrow> index p < int len - 1 \<Longrightarrow> poll_loop dev len p = poll_loop dev len p'"
  by (subst poll_loop.simps) simp

lemma poll_loop_type_left:
  assumes on: "online COM1 s" and pend: "pending COM1 s = CHR ''x'' ## left_arrow @- r"
    and "2 < len" "b \<noteq> []" "e < 2147483647"
  shows "poll_loop COM1 len \<lparr>line = b, index = 0, endOfLine = int e, pio = s\<rparr> =
    poll_loop COM1 len \<lparr>line = b[0 := CHR ''x''], index = 0, endOfLine = int (Suc e),
      pio = set_line COM1 (sent COM1 s @ CHR ''x'' # left_arrow) r s\<rparr>"
proof -
  have "printable (CHR ''x'')" by (simp add: printable_def between_def schar_def)
  then have "poll_loop COM1 len \<lparr>line = b, index = 0, endOfLine = int e, pio = s\<rparr> =
    poll_loop COM1 len \<lparr>line = b[0 := CHR ''x''], index = 1, endOfLine = int e + 1,
      pio = set_line COM1 (sent COM1 s @ ''x'') (left_arrow @- r) s\<rparr>"
    using poll_turn_printable[OF on pend, of 0 b "int e"] assms
    by (intro poll_loop_turn) simp_all
  also have "\<dots> = poll_loop COM1 len \<lparr>line = b[0 := CHR ''x''], index = 0, endOfLine = int (Suc e),
      pio = set_line COM1 (sent COM1 s @ CHR ''x'' # left_arrow) r s\<rparr>"
    using poll_turn_left[of "set_line COM1 (sent COM1 s @ ''x'') (left_arrow @- r) s" r 1 "b[0 := CHR ''x'']" "int e + 1"] assms
    by (intro poll_loop_turn) (simp_all add: add.commute)
  finally show ?thesis .
qed

lemma poll_loop_edit:
  assumes "online dev s" and "pending dev s = c ## r" and "ordinary c" and "length l < len - 1"
    and "take (length l) b = l" and "len \<le> length b" "length b \<le> 2147483647"
  obtains b' where "length b' = length b" "take (length (edit l c)) b' = edit l c"
    "poll_loop dev len (polling b (length l) s) =
     poll_loop dev len (polling b' (length (edit l c)) (set_line dev (sent dev s @ echo l c) r s))"
proof -
  obtain b' where b': "poll_turn dev (polling b (length l) s) =
      Inr (None, polling b' (length (edit l c)) (set_line dev (sent dev s @ echo l c) r s))"
    "length b' = length b" "take (length (edit l c)) b' = edit l c"
    using poll_turn_edit[of dev s c r l b] assms
    by (metis diff_le_self le_trans less_le_trans)
  have "int (length l) < int len - 1" using assms(4) by linarith
  then have "poll_loop dev len (polling b (length l) s) =
      poll_loop dev len (polling b' (length (edit l c)) (set_line dev (sent dev s @ echo l c) r s))"
    using b'(1) by (subst poll_loop.simps) (simp add: polling_def)
  then show ?thesis using that b' by blast
qed

lemma poll_loop_line:
  assumes "online dev s" and "pending dev s = cs @- ch ## r" and "ch = CR \<or> ch = LF"
    and "\<forall>c\<in>set cs. ordinary c" and "fits (len - 1) l cs"
    and "take (length l) b = l" and "len \<le> length b" "length b \<le> 2147483647"
  shows "\<exists>b'. poll_loop dev len (polling b (length l) s) =
      Some (Inr (int (length (foldl edit l cs)),
        polling b' (length (foldl edit l cs)) (set_line dev (sent dev s @ echoes l cs @ [ch]) r s))) \<and>
    length b' = length b \<and> take (length (foldl edit l cs) + 1) b' = foldl edit l cs @ [NUL]"
  using assms
proof (induction cs arbitrary: l b s)
  case Nil
  then have "length l < len - 1" by simp
  then have cap: "int (length l) < int len - 1" by linarith
  obtain b' where "poll_turn dev (polling b (length l) s) =
      Inr (Some (int (length l)), polling b' (length l) (set_line dev (sent dev s @ [ch]) r s))"
    "length b' = length b" "take (length l + 1) b' = l @ [NUL]"
    using poll_turn_end[of dev s ch r l b] Nil cap by auto
  then show ?case using cap by (subst poll_loop.simps) (auto simp: polling_def)
next
  case (Cons c cs)
  obtain b' where "length b' = length b" "take (length (edit l c)) b' = edit l c"
    "poll_loop dev len (polling b (length l) s) =
     poll_loop dev len (polling b' (length (edit l c)) (set_line dev (sent dev s @ echo l c) (cs @- ch ## r) s))"
    by (rule poll_loop_edit[of dev s c "cs @- ch ## r" l len b]) (use Cons.prems in auto)
  moreover note Cons.IH[of "set_line dev (sent dev s @ echo l c) (cs @- ch ## r) s" "edit l c" b']
  ultimately show ?case using Cons.prems by auto
qed

lemma poll_loop_full:
  assumes "online dev s" and "pending dev s = cs @- c ## r" and "\<forall>c'\<in>set (cs @ [c]). ordinary c'"
    and "fits (len - 1) l cs" and "length (foldl edit l (cs @ [c])) = len - 1"
    and "take (length l) b = l" and "len \<le> length b" "length b \<le> 2147483647"
  shows "\<exists>b'. poll_loop dev len (polling b (length l) s) =
      Some (Inr (-1, polling b' (len - 1) (set_line dev (sent dev s @ echoes l (cs @ [c])) r s))) \<and>
    length b' = length b \<and> take len b' = foldl edit l (cs @ [c]) @ [NUL]"
  using assms
proof (induction cs arbitrary: l b s)
  case Nil
  obtain b' where b': "length b' = length b" "take (length (edit l c)) b' = edit l c"
    "poll_loop dev len (polling b (length l) s) =
     poll_loop dev len (polling b' (length (edit l c)) (set_line dev (sent dev s @ echo l c) r s))"
    by (rule poll_loop_edit[of dev s c r l len b]) (use Nil in auto)
  have len: "length l < len - 1" "length (edit l c) = len - 1" using Nil by auto
  then have "\<not> int (len - 1) < int len - 1" "Suc (len - 1) = len" "len - 1 < length b'"
    using Nil.prems(7) b'(1) by linarith+
  moreover from this have "take len (b'[len - 1 := NUL]) = edit l c @ [NUL]"
    using take_Suc_conv_app_nth[of "len - 1" "b'[len - 1 := NUL]"] b'(2) len(2) by simp
  ultimately show ?case unfolding b'(3) len(2)
    using store_line[of "len - 1" b'] b'(1) by (subst poll_loop.simps) (simp add: polling_def)
next
  case (Cons d cs)
  obtain b' where "length b' = length b" "take (length (edit l d)) b' = edit l d"
    "poll_loop dev len (polling b (length l) s) =
     poll_loop dev len (polling b' (length (edit l d)) (set_line dev (sent dev s @ echo l d) (cs @- c ## r) s))"
    by (rule poll_loop_edit[of dev s d "cs @- c ## r" l len b]) (use Cons.prems in auto)
  moreover note Cons.IH[of "set_line dev (sent dev s @ echo l d) (cs @- c ## r) s" "edit l d" b']
  ultimately show ?case using Cons.prems by auto
qed

section \<open>Properties\<close>

abbreviation prompt :: string where "prompt \<equiv> ''( ')> ''"

lemma NUL_notin_edited: "NUL \<notin> set l \<Longrightarrow> NUL \<notin> set (foldl edit l cs)"
proof (induction cs arbitrary: l)
  case (Cons c cs)
  have "NUL \<notin> set (edit l c)"
    using Cons.prems in_set_butlastD[of NUL l] by (auto simp: edit_def printable_def between_def schar_def)
  then show ?case using Cons.IH by simp
qed simp

lemma serial_poll_prompt:
  assumes "online COM1 s"
  shows "serial_poll COM1 buffer len s =
    bindE (loop_result (poll_loop COM1 len (polling buffer 0
      (set_line COM1 (sent COM1 s @ prompt) (pending COM1 s) s)))) (\<lambda>(r, p). Inr (r, line p, pio p))"
  using assms by (simp add: serial_poll_def write_lit_def sys_req_WRITE_online polling_def lit_def)

text \<open>Property C23. Reading a line: while it fits into the buffer, \<open>serial_poll\<close> lets the user
  type and erase with backspace and delete (other bytes, as the NULs of an idle line, are
  ignored), echoes what it accepts, and on CR or LF returns the length of the edited line,
  which stands NUL-terminated in the buffer; what follows on the line stays pending.\<close>

theorem serial_poll_line:
  assumes "online COM1 s" and "pending COM1 s = cs @- ch ## r" and "ch = CR \<or> ch = LF"
    and "\<forall>c\<in>set cs. ordinary c" and "fits (len - 1) [] cs"
    and "len \<le> length buffer" "length buffer \<le> 2147483647"
  shows "\<exists>buffer'. serial_poll COM1 buffer len s =
      Inr (int (length (foldl edit [] cs)), buffer',
        set_line COM1 (sent COM1 s @ prompt @ echoes [] cs @ [ch]) r s) \<and>
    length buffer' = length buffer \<and> terminated buffer' \<and> text_of buffer' = foldl edit [] cs"
proof -
  obtain b' where b': "poll_loop COM1 len (polling buffer 0 (set_line COM1 (sent COM1 s @ prompt) (pending COM1 s) s)) =
      Some (Inr (int (length (foldl edit [] cs)), polling b' (length (foldl edit [] cs))
        (set_line COM1 (sent COM1 s @ prompt @ echoes [] cs @ [ch]) r s)))"
    "length b' = length buffer" "take (length (foldl edit [] cs) + 1) b' = foldl edit [] cs @ [NUL]"
    using poll_loop_line[of COM1 "set_line COM1 (sent COM1 s @ prompt) (pending COM1 s) s" cs ch r len "[]" buffer] assms
    by auto
  then have "terminated b' \<and> text_of b' = foldl edit [] cs"
    by (intro text_of_take) (simp_all add: NUL_notin_edited)
  then show ?thesis using b' by (simp add: serial_poll_prompt[OF assms(1)] polling_def)
qed

text \<open>A full buffer: when the line reaches one character less than the buffer
  holds, \<open>serial_poll\<close> gives up with -1, with the line NUL-terminated in the buffer, and
  without waiting for the end of the line.\<close>

theorem serial_poll_full:
  assumes "online COM1 s" and "pending COM1 s = cs @- c ## r" and "\<forall>c'\<in>set (cs @ [c]). ordinary c'"
    and "fits (len - 1) [] cs" and "length (foldl edit [] (cs @ [c])) = len - 1"
    and "len \<le> length buffer" "length buffer \<le> 2147483647"
  shows "\<exists>buffer'. serial_poll COM1 buffer len s =
      Inr (-1, buffer', set_line COM1 (sent COM1 s @ prompt @ echoes [] (cs @ [c])) r s) \<and>
    length buffer' = length buffer \<and> take len buffer' = foldl edit [] (cs @ [c]) @ [NUL]"
proof -
  obtain b' where "poll_loop COM1 len (polling buffer 0 (set_line COM1 (sent COM1 s @ prompt) (pending COM1 s) s)) =
      Some (Inr (-1, polling b' (len - 1) (set_line COM1 (sent COM1 s @ prompt @ echoes [] (cs @ [c])) r s)))"
    "length b' = length buffer" "take len b' = foldl edit [] (cs @ [c]) @ [NUL]"
    using poll_loop_full[of COM1 "set_line COM1 (sent COM1 s @ prompt) (pending COM1 s) s" cs c r len "[]" buffer] assms
    by auto
  then show ?thesis by (simp add: serial_poll_prompt[OF assms(1)] polling_def)
qed

text \<open>The left arrow: typing a character and moving left over it leaves the
  index where it was but counts the line one longer, so after as many repetitions as the
  buffer has bytes the CR stores its NUL behind the buffer.\<close>

theorem serial_poll_left_arrow_overflow:
  assumes "online COM1 s" and "pending COM1 s = concat (replicate n (''x'' @ ESC # ''[D'')) @- CR ## r"
    and "2 < len" and "len \<le> length buffer" and "length buffer \<le> n" and "n \<le> 2147483647"
  shows "serial_poll COM1 buffer len s = Inl OutOfBounds"
proof -
  have run: "\<exists>b'. length b' = length b \<and>
      poll_loop COM1 len \<lparr>line = b, index = 0, endOfLine = int k, pio = s\<rparr> =
      poll_loop COM1 len \<lparr>line = b', index = 0, endOfLine = int (k + m),
        pio = set_line COM1 (sent COM1 s @ concat (replicate m (CHR ''x'' # left_arrow))) r' s\<rparr>"
    if "online COM1 s" "pending COM1 s = concat (replicate m (CHR ''x'' # left_arrow)) @- r'"
      "k + m \<le> 2147483647" "b \<noteq> []" for m k s b r'
    using that
  proof (induction m arbitrary: k b s)
    case 0
    then show ?case by (auto intro!: exI[of _ b])
  next
    case (Suc m)
    let ?s = "set_line COM1 (sent COM1 s @ CHR ''x'' # left_arrow) (concat (replicate m (CHR ''x'' # left_arrow)) @- r') s"
    show ?case
      using poll_loop_type_left[of s "concat (replicate m (CHR ''x'' # left_arrow)) @- r'" len b k]
        Suc.IH[of ?s "Suc k" "b[0 := CHR ''x'']"] Suc.prems assms(3) by simp
  qed
  let ?s = "set_line COM1 (sent COM1 s @ prompt) (pending COM1 s) s"
  obtain b' where b': "length b' = length buffer"
    "poll_loop COM1 len (polling buffer 0 ?s) =
      poll_loop COM1 len \<lparr>line = b', index = 0, endOfLine = int n,
        pio = set_line COM1 (sent COM1 ?s @ concat (replicate n (CHR ''x'' # left_arrow))) (CR ## r) ?s\<rparr>"
    using run[of ?s n "CR ## r" 0 buffer] assms by (fastforce simp: polling_def)
  have "\<not> printable CR" by (simp add: printable_def between_def schar_def)
  then have "poll_loop COM1 len (polling buffer 0 ?s) = Some (Inl OutOfBounds)"
    unfolding b'(2) using assms b'(1)
    by (subst poll_loop.simps) (simp add: poll_turn_def receive_online store_def put_at_def Let_def)
  then show ?thesis by (simp add: serial_poll_prompt[OF assms(1)])
qed

text \<open>The right arrow moves past the end of the line: a backspace after it makes
  the length -1, and the CR stores its NUL in front of the buffer.\<close>

theorem serial_poll_right_arrow_underflow:
  assumes "online COM1 s" and "pending COM1 s = (ESC # ''[C'') @- BACKSPACE ## CR ## r"
    and "2 < len" and "len \<le> length buffer"
  shows "serial_poll COM1 buffer len s = Inl OutOfBounds"
proof -
  let ?s = "set_line COM1 (sent COM1 s @ prompt) (pending COM1 s) s"
  have ne: "buffer \<noteq> []" using assms by auto
  have "poll_loop COM1 len (polling buffer 0 ?s) =
    poll_loop COM1 len \<lparr>line = buffer, index = 1, endOfLine = 0,
      pio = set_line COM1 (sent COM1 ?s @ right_arrow) (BACKSPACE ## CR ## r) ?s\<rparr>"
    using assms poll_turn_right[of ?s "BACKSPACE ## CR ## r" buffer 0 0]
    by (intro poll_loop_turn) (simp_all add: polling_def)
  also have "\<dots> = poll_loop COM1 len \<lparr>line = buffer[0 := NUL], index = 0, endOfLine = -1,
      pio = set_line COM1 (sent COM1 ?s @ right_arrow @ [BACKSPACE, CHR '' '', BACKSPACE]) (CR ## r) ?s\<rparr>"
    using assms ne store_line[of 0 buffer]
    by (intro poll_loop_turn)
       (simp_all add: poll_turn_def receive_online poll_erase_def send_online Let_def
         printable_def between_def schar_def)
  also have "\<dots> = Some (Inl OutOfBounds)"
    using assms by (subst poll_loop.simps)
      (simp add: poll_turn_def receive_online store_def put_at_def Let_def printable_def between_def schar_def)
  finally show ?thesis by (simp add: serial_poll_prompt[OF assms(1)])
qed

text \<open>Property C33. The arrows break the bounds of the line. Typing a character and moving left over
  it leaves the index but counts the line one longer, so after as many repetitions as the buffer
  has bytes the CR stores its NUL behind the buffer; and the right arrow moves past the end of
  the line, so that a backspace makes the length -1 and the CR stores its NUL in front of it.\<close>

theorem serial_poll_arrows:
  assumes "online COM1 s" and "2 < len" and "len \<le> length buffer" and "length buffer \<le> n" and "n \<le> 2147483647"
  shows "serial_poll COM1 buffer len (set_line COM1 t (concat (replicate n (''x'' @ ESC # ''[D'')) @- CR ## r) s) =
      Inl OutOfBounds \<and>
    serial_poll COM1 buffer len (set_line COM1 t ((ESC # ''[C'') @- BACKSPACE ## CR ## r) s) = Inl OutOfBounds"
proof
  have on: "online COM1 (set_line COM1 t q s)" for q using assms(1) by simp
  show "serial_poll COM1 buffer len (set_line COM1 t (concat (replicate n (''x'' @ ESC # ''[D'')) @- CR ## r) s) =
      Inl OutOfBounds"
    by (rule serial_poll_left_arrow_overflow[OF on _ assms(2-5)]) simp
  show "serial_poll COM1 buffer len (set_line COM1 t ((ESC # ''[C'') @- BACKSPACE ## CR ## r) s) = Inl OutOfBounds"
    by (rule serial_poll_right_arrow_underflow[OF on _ assms(2,3)]) simp
qed

text \<open>\<open>serial_init\<close> on one of the four ports sets it to 9600 baud (divisor 12), 8
  bits, no parity, one stop bit, FIFO on and interrupts off with the divisor latch closed,
  discards one received byte and leaves the other ports alone; after it \<open>serial_out\<close> sends
  exactly the bytes of the buffer and returns their number, before it (on a port never
  initialised, or a device that is none) it returns -1 and sends nothing.\<close>

theorem serial_init_out:
  assumes "serial_devno dev \<noteq> -1" and "\<not> dlab (uarts (devices s) dev)" and "len \<le> length buffer"
  shows "\<exists>s'. serial_init dev s = (0, s') \<and>
    uarts (devices s') dev = (uarts (devices s) dev)
      \<lparr>ier := 0, dll := 12, dlm := 0, lcr := 0x03, fcr := 0xC7, mcr := 0x0B, rx := stl (pending dev s)\<rparr> \<and>
    (\<forall>d. d \<noteq> dev \<longrightarrow> uarts (devices s') d = uarts (devices s) d) \<and>
    serial_out dev buffer len s' =
      Inr (int len, set_line dev (sent dev s @ take len buffer) (stl (pending dev s)) s') \<and>
    (initialized s (serial_devno dev) = 0 \<longrightarrow> serial_out dev buffer len s = Inr (-1, s))"
proof -
  let ?s = "snd (serial_init dev s)"
  note cfg = serial_init_configures[OF assms(1,2)]
  have "sent dev ?s = sent dev s" "pending dev ?s = stl (pending dev s)"
    using cfg(3) by (simp_all add: sent_def pending_def)
  then have "serial_out dev buffer len ?s =
      Inr (int len, set_line dev (sent dev s @ take len buffer) (stl (pending dev s)) ?s)"
    using serial_out_online[OF cfg(2) assms(3)] by simp
  moreover have "serial_init dev s = (0, ?s)" using cfg(1) by (metis prod.collapse)
  ultimately show ?thesis using cfg(3,4) serial_out_uninitialised[of dev s] by metis
qed

end
