(* ===== verification/Vm.thy ===== *)
theory Vm
  imports CStrings
begin

unbundle bit_operations_syntax

text \<open>
  Virtual memory and the primitive kernel heap: the last part of \<^verbatim>\<open>kernel/core-c.c\<close>
  (\<open>alloc\<close>, \<open>get_page\<close>, \<open>kmalloc\<close>, \<open>find_free\<close>, \<open>set_bit\<close>,
  \<open>new_frame\<close>, \<open>vm_init\<close>), and \<open>sys_alloc_mem\<close>, \<open>sys_free_mem\<close> of
  \<^verbatim>\<open>lib/core.c\<close>.

  \<open>vm\<close> holds the static variables, the page directory \<open>kdir\<close> points to, and the page
  tables by their address; the address \<open>__end\<close> of the linker and what memory holds before
  it is written are the initial values of \<open>phys_alloc_addr\<close> and \<open>page_tables\<close>. A page
  entry is named by the address of its table and its index; \<open>None\<close> is the NULL entry.
  Loading CR3 and setting the paging bit of CR0 is the record field \<open>paging\<close>.
\<close>

type_synonym u32 = "32 word"

record page_entry =
  present :: bool
  writeable :: bool
  usermode :: bool
  accessed :: bool
  dirty :: bool
  reserved_bits :: "7 word"
  frameaddr :: "20 word"

record vm =
  frames :: "u32 list"
  kdir :: u32
  dir_tables :: "u32 list"
  dir_tables_phys :: "u32 list"
  page_tables :: "u32 \<Rightarrow> nat \<Rightarrow> page_entry"
  phys_alloc_addr :: u32
  heap_addr :: u32
  heap_is_initialized :: bool
  paging :: bool

abbreviation (input) KHEAP_BASE :: u32 where "KHEAP_BASE \<equiv> 0xD000000"
abbreviation (input) KHEAP_SIZE :: u32 where "KHEAP_SIZE \<equiv> 0x10000"
abbreviation (input) PAGE_SIZE :: u32 where "PAGE_SIZE \<equiv> 0x1000"
abbreviation (input) MEM_SIZE :: nat where "MEM_SIZE \<equiv> 0x4000000"
abbreviation (input) NFRAMES :: nat where "NFRAMES \<equiv> MEM_SIZE div 0x1000"
abbreviation (input) FRAME_BIT :: nat where "FRAME_BIT \<equiv> 32"

definition zero_page :: page_entry where
  "zero_page = \<lparr>present = False, writeable = False, usermode = False, accessed = False,
     dirty = False, reserved_bits = 0, frameaddr = 0\<rparr>"

section \<open>The kernel heap\<close>

definition alloc :: "u32 \<Rightarrow> vm \<Rightarrow> (u32 \<times> vm) c" where
  "alloc sz v =
     (let base = heap_addr v; v = v\<lparr>heap_addr := heap_addr v + sz\<rparr>
      in if heap_addr v > KHEAP_BASE + KHEAP_SIZE then Inl (Panic ''Heap is full!'')
         else Inr (base, v))"

text \<open>\<open>get_page\<close> without \<open>make_table\<close>, the call of \<open>kmalloc\<close>.\<close>

definition table_index :: "u32 \<Rightarrow> nat" where
  "table_index a = unat (a div PAGE_SIZE div 1024)"

definition page_offset :: "u32 \<Rightarrow> nat" where
  "page_offset a = unat (a div PAGE_SIZE mod 1024)"

definition find_page :: "u32 \<Rightarrow> vm \<Rightarrow> (u32 \<times> nat) option c" where
  "find_page a v =
     bindE (peek (dir_tables v) (table_index a)) (\<lambda>t.
     Inr (if t \<noteq> 0 then Some (t, page_offset a) else None))"

text \<open>The result is the address and, when \<open>phys\<close> is asked for, the physical address.\<close>

definition kmalloc :: "u32 \<Rightarrow> bool \<Rightarrow> bool \<Rightarrow> vm \<Rightarrow> (u32 \<times> u32 \<times> vm) c" where
  "kmalloc sz page_align phys v =
     (if heap_is_initialized v
      then bindE (alloc sz v) (\<lambda>(a, v).
             if phys
             then bindE (find_page a v) (\<lambda>page.
                  case page of None \<Rightarrow> Inl NullDeref
                  | Some (t, i) \<Rightarrow>
                      Inr (a, (ucast (frameaddr (page_tables v t i)) * 0x1000) + (a AND 0xFFF), v))
             else Inr (a, 0, v))
      else
        let v = (if page_align \<and> phys_alloc_addr v AND 0xFFFFF000 \<noteq> 0
                 then v\<lparr>phys_alloc_addr := (phys_alloc_addr v AND 0xFFFFF000) + 0x1000\<rparr> else v);
            a = phys_alloc_addr v
        in Inr (a, a, v\<lparr>phys_alloc_addr := a + sz\<rparr>))"

definition get_page :: "u32 \<Rightarrow> bool \<Rightarrow> vm \<Rightarrow> ((u32 \<times> nat) option \<times> vm) c" where
  "get_page a make_table v =
     bindE (find_page a v) (\<lambda>page.
       if page \<noteq> None then Inr (page, v)
       else if make_table
       then bindE (kmalloc 4096 True True v) (\<lambda>(t, phys_addr, v).
            bindE (put (dir_tables v) (table_index a) t) (\<lambda>ts.
            bindE (put (dir_tables_phys v) (table_index a) (phys_addr OR 0x7)) (\<lambda>ps.
            Inr (Some (t, page_offset a), v\<lparr>dir_tables := ts, dir_tables_phys := ps\<rparr>))))
       else Inr (None, v))"

section \<open>Frames\<close>

text \<open>The two nested loops stop at the first clear bit; -1 as an unsigned number if none. The
  mask \<open>1 << 31\<close>, which C leaves undefined for a signed 1, is taken as the bit 31 that every
  compiler for the machine makes of it.\<close>

fun first_clear :: "u32 \<Rightarrow> nat list \<Rightarrow> nat option" where
  "first_clear w [] = None"
| "first_clear w (j # js) = (if w AND push_bit j 1 = 0 then Some j else first_clear w js)"

fun find_free_from :: "nat \<Rightarrow> u32 list \<Rightarrow> nat option" where
  "find_free_from i [] = None"
| "find_free_from i (w # ws) =
     (if w \<noteq> 0xFFFFFFFF
      then case first_clear w [0..<FRAME_BIT] of
             Some j \<Rightarrow> Some (i * FRAME_BIT + j)
           | None \<Rightarrow> find_free_from (i + 1) ws
      else find_free_from (i + 1) ws)"

definition find_free :: "vm \<Rightarrow> u32" where
  "find_free v = (case find_free_from 0 (frames v) of Some n \<Rightarrow> of_nat n | None \<Rightarrow> -1)"

definition set_bit :: "u32 \<Rightarrow> vm \<Rightarrow> vm c" where
  "set_bit a v =
     (let frame = unat (a div PAGE_SIZE); i = frame div FRAME_BIT; ofs = frame mod FRAME_BIT
      in bindE (peek (frames v) i) (\<lambda>w.
         bindE (put (frames v) i (w OR push_bit ofs 1)) (\<lambda>fs. Inr (v\<lparr>frames := fs\<rparr>))))"

definition set_page :: "u32 \<times> nat \<Rightarrow> page_entry \<Rightarrow> vm \<Rightarrow> vm" where
  "set_page p e v =
     v\<lparr>page_tables := (page_tables v)(fst p := (page_tables v (fst p))(snd p := e))\<rparr>"

definition new_frame :: "(u32 \<times> nat) option \<Rightarrow> vm \<Rightarrow> vm c" where
  "new_frame page v =
     (case page of None \<Rightarrow> Inl NullDeref
      | Some p \<Rightarrow>
          if frameaddr (page_tables v (fst p) (snd p)) \<noteq> 0 then Inr v
          else let idx = find_free v
               in if idx = -1 then Inl (Panic ''Out of memory'')
                  else bindE (set_bit (idx * PAGE_SIZE) v) (\<lambda>v.
                       Inr (set_page p ((page_tables v (fst p) (snd p))
                         \<lparr>present := True, frameaddr := ucast idx, writeable := True, usermode := False\<rparr>) v)))"

section \<open>vm\_init\<close>

definition map_page :: "u32 \<Rightarrow> vm \<Rightarrow> vm c" where
  "map_page i v = bindE (get_page i True v) (\<lambda>(page, v). new_frame page v)"

partial_function (option) identity_loop :: "u32 \<Rightarrow> vm \<Rightarrow> vm c option" where
  "identity_loop i v =
     (if i < phys_alloc_addr v + 0x10000
      then case map_page i v of Inl e \<Rightarrow> Some (Inl e) | Inr v \<Rightarrow> identity_loop (i + PAGE_SIZE) v
      else Some (Inr v))"

definition vm_init :: "vm \<Rightarrow> vm c" where
  "vm_init v =
     bindE (kmalloc 8192 True False v) (\<lambda>(d, _, v).
     let v = v\<lparr>kdir := d, dir_tables := replicate 1024 0, dir_tables_phys := replicate 1024 0\<rparr>
     in bindE (foldE (\<lambda>i v. bindE (get_page (KHEAP_BASE + of_nat i) True v) (\<lambda>(_, v). Inr v))
                 [0..<0x10000] v) (\<lambda>v.
        bindE (loop_result (identity_loop 0 v)) (\<lambda>v.
        bindE (foldE (\<lambda>i. map_page (KHEAP_BASE + of_nat i * PAGE_SIZE)) [0..<16] v) (\<lambda>v.
        bindE (peek (dir_tables v) 0) (\<lambda>t0.
        if t0 = 0 then Inl NullDeref
        else Inr ((set_page (t0, 0) zero_page v)\<lparr>paging := True, heap_is_initialized := True\<rparr>))))))"

section \<open>lib/core.c: the allocation functions of the processes\<close>

text \<open>
  The first argument is the function \<open>sys_set_heap_functions\<close> has installed. Nothing in the
  repository calls it, so the kernel runs with \<open>None\<close>.
\<close>

definition sys_alloc_mem :: "(u32 \<Rightarrow> vm \<Rightarrow> (u32 \<times> vm) c) option \<Rightarrow> u32 \<Rightarrow> vm \<Rightarrow> (u32 \<times> vm) c" where
  "sys_alloc_mem malloc_function sz v =
     (case malloc_function of
        Some f \<Rightarrow> f sz v
      | None \<Rightarrow> bindE (kmalloc sz False False v) (\<lambda>(a, _, v). Inr (a, v)))"

definition sys_free_mem :: "(u32 \<Rightarrow> vm \<Rightarrow> (int \<times> vm) c) option \<Rightarrow> u32 \<Rightarrow> vm \<Rightarrow> (int \<times> vm) c" where
  "sys_free_mem free_function ptr v =
     (case free_function of Some f \<Rightarrow> f ptr v | None \<Rightarrow> Inr (-1, v))"

text \<open>\<open>sys_set_heap_functions\<close> sets the two static pointers, which are NULL at the start and
  which nothing else writes.\<close>

record heap_functions =
  malloc_fn :: "(u32 \<Rightarrow> vm \<Rightarrow> (u32 \<times> vm) c) option"
  free_fn :: "(u32 \<Rightarrow> vm \<Rightarrow> (int \<times> vm) c) option"

definition sys_set_heap_functions ::
    "(u32 \<Rightarrow> vm \<Rightarrow> (u32 \<times> vm) c) option \<Rightarrow> (u32 \<Rightarrow> vm \<Rightarrow> (int \<times> vm) c) option \<Rightarrow> heap_functions \<Rightarrow> heap_functions" where
  "sys_set_heap_functions alloc_function free_function h = h\<lparr>malloc_fn := alloc_function, free_fn := free_function\<rparr>"

end
