(* ===== verification/Kernel.thy ===== *)
theory Kernel
  imports PcbQueue Serial Vm
begin

text \<open>
  The state of the kernel, and the creation of processes: \<open>pcb_allocate\<close>, \<open>pcb_free\<close>,
  \<open>pcb_setup\<close> of \<^verbatim>\<open>kernel/pcb.c\<close>.

  \<open>kernel\<close> puts the parts together: the process queues, the register frames the trap
  handler and \<open>pcb_allocate\<close> leave on the stacks (by their address), the two variables of
  the dispatcher, the heap and the devices. The address of the function a process runs is a
  symbol of the linker, so it is an argument.
\<close>

record cpu_context =
  reg_gs :: u32
  reg_fs :: u32
  reg_es :: u32
  reg_ds :: u32
  reg_edi :: u32
  reg_esi :: u32
  reg_ebp :: u32
  reg_esp :: u32
  reg_ebx :: u32
  reg_edx :: u32
  reg_ecx :: u32
  reg_eax :: u32
  reg_eip :: u32
  reg_cs :: u32
  reg_eflags :: u32

abbreviation (input) sizeof_context :: u32 where "sizeof_context \<equiv> 60"
abbreviation (input) sizeof_pcb :: u32 where "sizeof_pcb \<equiv> 52"
abbreviation (input) PCB_NAME_MAX_LEN :: nat where "PCB_NAME_MAX_LEN \<equiv> 16"
abbreviation (input) PCB_STACK_MIN_SIZE :: u32 where "PCB_STACK_MIN_SIZE \<equiv> 1024"

record kernel =
  pcbq :: pcb_state
  contexts :: "addr \<Rightarrow> cpu_context option"
  curProc :: addr
  sysStackPtr :: addr
  kvm :: vm
  kio :: io

section \<open>Statements on the kernel state\<close>

definition on_pcbs :: "(pcb_state \<Rightarrow> pcb_state c) \<Rightarrow> kernel \<Rightarrow> kernel c" where
  "on_pcbs f k = bindE (f (pcbq k)) (\<lambda>s. Inr (k\<lparr>pcbq := s\<rparr>))"

definition modify_pcb :: "addr \<Rightarrow> (pcb \<Rightarrow> pcb) \<Rightarrow> kernel \<Rightarrow> kernel c" where
  "modify_pcb a f = on_pcbs (modify a f)"

definition load_context :: "addr \<Rightarrow> kernel \<Rightarrow> cpu_context c" where
  "load_context a k =
     (if a = NULL then Inl NullDeref
      else case contexts k a of None \<Rightarrow> Inl BadPointer | Some x \<Rightarrow> Inr x)"

definition modify_context :: "addr \<Rightarrow> (cpu_context \<Rightarrow> cpu_context) \<Rightarrow> kernel \<Rightarrow> kernel c" where
  "modify_context a f k =
     bindE (load_context a k) (\<lambda>x. Inr (k\<lparr>contexts := (contexts k)(a \<mapsto> f x)\<rparr>))"

text \<open>\<open>sys_req(WRITE, COM1, b, n)\<close>, and with \<open>n = strlen(b)\<close>.\<close>

definition kwrite :: "cbuf \<Rightarrow> nat \<Rightarrow> kernel \<Rightarrow> kernel c" where
  "kwrite b n k = bindE (sys_req_WRITE COM1 b n (kio k)) (\<lambda>s. Inr (k\<lparr>kio := s\<rparr>))"

definition say :: "cbuf \<Rightarrow> kernel \<Rightarrow> kernel c" where
  "say b k = bindE (strlen b) (\<lambda>n. kwrite b n k)"

section \<open>kernel/pcb.c: allocation and setup\<close>

text \<open>The PCB and the frame whose bytes are all 0.\<close>

definition zero_pcb :: pcb where
  "zero_pcb = \<lparr>pname = replicate 16 NUL, process_class = CLASS_SYSTEM, priority = 0,
     execution_state = STATE_READY, dispatch_state = DISPATCH_ACTIVE, pargs = NULL,
     pstack = NULL, contextPtr = NULL, pnext = NULL, pprev = NULL\<rparr>"

definition zero_context :: cpu_context where
  "zero_context = \<lparr>reg_gs = 0, reg_fs = 0, reg_es = 0, reg_ds = 0, reg_edi = 0, reg_esi = 0,
     reg_ebp = 0, reg_esp = 0, reg_ebx = 0, reg_edx = 0, reg_ecx = 0, reg_eax = 0,
     reg_eip = 0, reg_cs = 0, reg_eflags = 0\<rparr>"

definition k_alloc :: "u32 \<Rightarrow> kernel \<Rightarrow> (addr \<times> kernel) c" where
  "k_alloc sz k = bindE (sys_alloc_mem None sz (kvm k)) (\<lambda>(a, v). Inr (a, k\<lparr>kvm := v\<rparr>))"

definition k_free :: "addr \<Rightarrow> kernel \<Rightarrow> kernel c" where
  "k_free a k = bindE (sys_free_mem None a (kvm k)) (\<lambda>(_, v). Inr (k\<lparr>kvm := v\<rparr>))"

definition pcb_allocate :: "kernel \<Rightarrow> (addr \<times> kernel) c" where
  "pcb_allocate k =
     bindE (k_alloc sizeof_pcb k) (\<lambda>(ptr, k).
     if ptr = NULL then Inr (NULL, k)
     else
       let k = k\<lparr>pcbq := (pcbq k)\<lparr>pcbs := (pcbs (pcbq k))(ptr \<mapsto> zero_pcb)\<rparr>\<rparr>
       in bindE (k_alloc PCB_STACK_MIN_SIZE k) (\<lambda>(stk, k).
          bindE (modify_pcb ptr (\<lambda>p. p\<lparr>pstack := stk\<rparr>) k) (\<lambda>k.
          if stk = NULL then bindE (k_free ptr k) (\<lambda>k. Inr (NULL, k))
          else
            let ctx = stk + PCB_STACK_MIN_SIZE - sizeof_context;
                k = k\<lparr>contexts := (contexts k)(ctx \<mapsto> zero_context)\<rparr>
            in bindE (modify_pcb ptr (\<lambda>p. p\<lparr>contextPtr := ctx, pnext := NULL, pprev := NULL\<rparr>) k)
                 (\<lambda>k. Inr (ptr, k)))))"

definition pcb_free :: "addr \<Rightarrow> kernel \<Rightarrow> (int \<times> kernel) c" where
  "pcb_free ptr k =
     (if ptr = NULL then Inr (-1, k)
      else bindE (load ptr (pcbq k)) (\<lambda>p.
           bindE (if pstack p \<noteq> NULL then k_free (pstack p) k else Inr k) (\<lambda>k.
           bindE (k_free ptr k) (\<lambda>k. Inr (0, k)))))"

definition initial_frame :: "addr \<Rightarrow> addr \<Rightarrow> cpu_context \<Rightarrow> cpu_context" where
  "initial_frame function ctx x = x\<lparr>reg_fs := 0x10, reg_gs := 0x10, reg_ds := 0x10, reg_es := 0x10,
     reg_cs := 0x08, reg_ebp := 0, reg_esp := ctx + sizeof_context, reg_eflags := 0x202,
     reg_eip := function\<rparr>"

definition pcb_setup ::
    "cptr \<Rightarrow> process_class \<Rightarrow> int \<Rightarrow> addr \<Rightarrow> kernel \<Rightarrow> (addr \<times> kernel) c" where
  "pcb_setup nm cls prio function k =
     (case nm of None \<Rightarrow> Inr (NULL, k)
      | Some name \<Rightarrow>
          bindE (strlen name) (\<lambda>n.
          if n \<ge> PCB_NAME_MAX_LEN then Inr (NULL, k)
          else if prio < 0 \<or> prio > 9 then Inr (NULL, k)
          else bindE (pcb_find nm (pcbq k)) (\<lambda>found.
            if found \<noteq> NULL
            then bindE (say (lit (ESC # ''[31mError: Process with name '' @ [CHR 0x27])) k) (\<lambda>k.
                 bindE (say name k) (\<lambda>k.
                 bindE (say (lit (''' already exists'' @ ESC # ''[0m'' @ CR # [LF])) k) (\<lambda>k.
                 Inr (NULL, k))))
            else bindE (pcb_allocate k) (\<lambda>(ptr, k).
              if ptr = NULL then Inr (NULL, k)
              else bindE (load ptr (pcbq k)) (\<lambda>p.
                   bindE (strncpy (pname p) name (PCB_NAME_MAX_LEN - 1)) (\<lambda>nm'.
                   bindE (put nm' (PCB_NAME_MAX_LEN - 1) NUL) (\<lambda>nm'.
                   bindE (modify_pcb ptr (\<lambda>p. p\<lparr>pname := nm', process_class := cls, priority := prio,
                           execution_state := STATE_READY, dispatch_state := DISPATCH_ACTIVE\<rparr>) k) (\<lambda>k.
                   bindE (modify_context (contextPtr p) (initial_frame function (contextPtr p)) k) (\<lambda>k.
                   Inr (ptr, k)))))))))) "

section \<open>kernel/core-c.c: kpanic\<close>

text \<open>What the panic writes before it halts for ever.\<close>

definition kpanic :: "cbuf \<Rightarrow> io \<Rightarrow> io c" where
  "kpanic msg s =
     (let s = s\<lparr>devices := cli (devices s)\<rparr>; pre = lit (''Panic: '');
          suf = lit (CR # LF # ''Press Ctrl-A, then X to quit QEMU.'' @ CR # [LF])
      in bindE (strlen pre) (\<lambda>n. bindE (serial_out COM1 pre n s) (\<lambda>(_, s).
         bindE (strlen msg) (\<lambda>n. bindE (serial_out COM1 msg n s) (\<lambda>(_, s).
         bindE (strlen suf) (\<lambda>n. bindE (serial_out COM1 suf n s) (\<lambda>(_, s). Inr s)))))))"

section \<open>Output\<close>

text \<open>\<open>emit str k\<close>: the kernel state after \<open>str\<close> is sent on COM1.\<close>

definition emit :: "string \<Rightarrow> kernel \<Rightarrow> kernel" where
  "emit str k = k\<lparr>kio := set_line COM1 (sent COM1 (kio k) @ str) (pending COM1 (kio k)) (kio k)\<rparr>"

definition console :: "kernel \<Rightarrow> string" where
  "console k = sent COM1 (kio k)"

lemma emit_simps [simp]:
  "pcbq (emit str k) = pcbq k" "contexts (emit str k) = contexts k" "curProc (emit str k) = curProc k"
  "sysStackPtr (emit str k) = sysStackPtr k" "kvm (emit str k) = kvm k"
  "online COM1 (kio (emit str k)) = online COM1 (kio k)"
  "emit str' (emit str k) = emit (str @ str') k" "emit [] k = k"
  "console (emit str k) = console k @ str" "pending COM1 (kio (emit str k)) = pending COM1 (kio k)"
  by (simp_all add: emit_def console_def)

lemma kwrite_online:
  "online COM1 (kio k) \<Longrightarrow> n \<le> length b \<Longrightarrow> kwrite b n k = Inr (emit (take n b) k)"
  by (simp add: kwrite_def sys_req_WRITE_online emit_def)

lemma say_online:
  assumes "online COM1 (kio k)" and "terminated b"
  shows "say b k = Inr (emit (text_of b) k)"
proof -
  obtain r where "b = text_of b @ NUL # r" using terminated_split[OF assms(2)] by blast
  then have "length (text_of b) \<le> length b" "take (length (text_of b)) b = text_of b"
    by (metis length_append le_add1, metis append_eq_conv_conj)
  then show ?thesis using assms by (simp add: say_def kwrite_online)
qed

lemma say_lit:
  "online COM1 (kio k) \<Longrightarrow> NUL \<notin> set str \<Longrightarrow> say (lit str) k = Inr (emit str k)"
  by (simp add: say_online text_of_lit)

section \<open>The invariant of the kernel state\<close>

definition heap_wf :: "vm \<Rightarrow> bool" where
  "heap_wf v \<longleftrightarrow>
     heap_is_initialized v \<and> 0xD000000 \<le> unat (heap_addr v) \<and> unat (heap_addr v) \<le> 0xD010000"

definition room :: "nat \<Rightarrow> vm \<Rightarrow> bool" where
  "room n v \<longleftrightarrow> unat (heap_addr v) + n \<le> 0xD010000"

definition wf_pcb :: "kernel \<Rightarrow> addr \<Rightarrow> pcb \<Rightarrow> bool" where
  "wf_pcb k a p \<longleftrightarrow>
     a \<noteq> NULL \<and> a < heap_addr (kvm k) \<and> length (pname p) = 16 \<and> terminated (pname p) \<and>
     0 \<le> priority p \<and> priority p \<le> 9"

definition live :: "kernel \<Rightarrow> addr \<Rightarrow> bool" where
  "live k a \<longleftrightarrow> a \<noteq> NULL \<and> contexts k a \<noteq> None"

text \<open>Every process in a queue has a frame to run from.\<close>

definition frames_ok :: "kernel \<Rightarrow> (qid \<Rightarrow> addr list) \<Rightarrow> bool" where
  "frames_ok k A \<longleftrightarrow>
     (\<forall>a p. queued A a \<longrightarrow> pcbs (pcbq k) a = Some p \<longrightarrow> live k (contextPtr p))"

definition wf :: "kernel \<Rightarrow> (qid \<Rightarrow> addr list) \<Rightarrow> bool" where
  "wf k A \<longleftrightarrow>
     rep (pcbq k) A \<and> (\<forall>a p. pcbs (pcbq k) a = Some p \<longrightarrow> wf_pcb k a p) \<and>
     frames_ok k A \<and> heap_wf (kvm k) \<and> online COM1 (kio k)"

lemma wfD:
  assumes "wf k A"
  shows "rep (pcbq k) A" "heap_wf (kvm k)" "online COM1 (kio k)" "names_terminated (pcbq k)"
  using assms by (auto simp: wf_def names_terminated_def wf_pcb_def)

lemma wf_pcbD: "wf k A \<Longrightarrow> pcbs (pcbq k) a = Some p \<Longrightarrow> wf_pcb k a p"
  by (simp add: wf_def)

lemma wf_frame: "wf k A \<Longrightarrow> queued A a \<Longrightarrow> pcbs (pcbq k) a = Some p \<Longrightarrow> live k (contextPtr p)"
  by (auto simp: wf_def frames_ok_def)

lemma wf_emit [simp]: "wf (emit str k) A \<longleftrightarrow> wf k A"
  by (simp add: wf_def wf_pcb_def frames_ok_def live_def)

section \<open>Allocation\<close>

lemma k_alloc_room:
  assumes "heap_wf (kvm k)" and "room (unat sz) (kvm k)"
  shows "k_alloc sz k = Inr (heap_addr (kvm k), k\<lparr>kvm := (kvm k)\<lparr>heap_addr := heap_addr (kvm k) + sz\<rparr>\<rparr>)"
    and "unat (heap_addr (kvm k) + sz) = unat (heap_addr (kvm k)) + unat sz"
proof -
  show u: "unat (heap_addr (kvm k) + sz) = unat (heap_addr (kvm k)) + unat sz"
    using assms(2) by (simp add: room_def unat_add_lem[symmetric])
  then have "\<not> heap_addr (kvm k) + sz > 0xD000000 + 0x10000"
    using assms(2) by (simp add: room_def word_less_nat_alt)
  then show "k_alloc sz k = Inr (heap_addr (kvm k), k\<lparr>kvm := (kvm k)\<lparr>heap_addr := heap_addr (kvm k) + sz\<rparr>\<rparr>)"
    using assms(1) by (simp add: k_alloc_def sys_alloc_mem_def kmalloc_def alloc_def heap_wf_def Let_def)
qed

lemma k_alloc_full:
  assumes "heap_wf (kvm k)" and "\<not> room (unat sz) (kvm k)" and "unat sz \<le> 0x10000"
  shows "k_alloc sz k = Inl (Panic ''Heap is full!'')"
proof -
  have "unat (heap_addr (kvm k)) + unat sz < 2 ^ 32" using assms by (simp add: heap_wf_def)
  then have "unat (heap_addr (kvm k) + sz) = unat (heap_addr (kvm k)) + unat sz"
    by (simp add: unat_add_lem[symmetric])
  then have "heap_addr (kvm k) + sz > 0xD000000 + 0x10000"
    using assms(2) by (simp add: room_def word_less_nat_alt)
  then show ?thesis
    using assms(1) by (simp add: k_alloc_def sys_alloc_mem_def kmalloc_def alloc_def heap_wf_def Let_def)
qed

text \<open>What \<open>pcb_allocate\<close> leaves at the address it returns, and how \<open>pcb_setup\<close> fills it:
  the PCB, its stack right behind it, and the first frame at the top of the stack.\<close>

definition stack_of :: "addr \<Rightarrow> addr" where
  "stack_of a = a + 52"

definition frame_of :: "addr \<Rightarrow> addr" where
  "frame_of a = a + 1016"

definition fresh_pcb :: "addr \<Rightarrow> pcb" where
  "fresh_pcb a = zero_pcb\<lparr>pstack := stack_of a, contextPtr := frame_of a\<rparr>"

definition setup_pcb :: "string \<Rightarrow> process_class \<Rightarrow> int \<Rightarrow> addr \<Rightarrow> pcb" where
  "setup_pcb str cls prio a =
     (fresh_pcb a)\<lparr>pname := str @ replicate (16 - length str) NUL, process_class := cls, priority := prio\<rparr>"

definition with_pcb :: "pcb \<Rightarrow> cpu_context \<Rightarrow> kernel \<Rightarrow> kernel" where
  "with_pcb p x k =
     (let a = heap_addr (kvm k)
      in k\<lparr>pcbq := (pcbq k)\<lparr>pcbs := (pcbs (pcbq k))(a \<mapsto> p)\<rparr>,
           contexts := (contexts k)(frame_of a \<mapsto> x),
           kvm := (kvm k)\<lparr>heap_addr := a + 1076\<rparr>\<rparr>)"

definition add_process :: "string \<Rightarrow> process_class \<Rightarrow> int \<Rightarrow> addr \<Rightarrow> kernel \<Rightarrow> kernel" where
  "add_process str cls prio function k =
     (let a = heap_addr (kvm k)
      in with_pcb (setup_pcb str cls prio a) (initial_frame function (frame_of a) zero_context) k)"

lemma with_pcb_simps [simp]:
  "pcbs (pcbq (with_pcb p x k)) = (pcbs (pcbq k))(heap_addr (kvm k) \<mapsto> p)"
  "queues (pcbq (with_pcb p x k)) = queues (pcbq k)"
  "contexts (with_pcb p x k) = (contexts k)(frame_of (heap_addr (kvm k)) \<mapsto> x)"
  "curProc (with_pcb p x k) = curProc k" "sysStackPtr (with_pcb p x k) = sysStackPtr k"
  "heap_addr (kvm (with_pcb p x k)) = heap_addr (kvm k) + 1076"
  "heap_is_initialized (kvm (with_pcb p x k)) = heap_is_initialized (kvm k)"
  "kio (with_pcb p x k) = kio k"
  by (simp_all add: with_pcb_def Let_def)

lemma heap_addr_nonzero:
  assumes "heap_wf v"
  shows "heap_addr v \<noteq> 0"
  using assms by (auto simp: heap_wf_def)

lemma heap_offset:
  assumes "heap_wf v" and "room m v" and "n \<le> m"
  shows "unat (heap_addr v + of_nat n) = unat (heap_addr v) + n"
proof -
  have "n < 2 ^ 32" using assms by (simp add: room_def)
  then have "unat (of_nat n :: u32) = n" by (simp add: unat_of_nat)
  moreover from this have "unat (heap_addr v) + unat (of_nat n :: u32) < 2 ^ LENGTH(32)"
    using assms by (simp add: room_def)
  ultimately show ?thesis using unat_add_lem[of "heap_addr v" "of_nat n"] by simp
qed

lemma pcb_allocate_ok:
  assumes wf: "wf k A" and room: "room 1076 (kvm k)"
  defines "a \<equiv> heap_addr (kvm k)"
  shows "pcb_allocate k = Inr (a, with_pcb (fresh_pcb a) zero_context k)"
proof -
  note hw = wfD(2)[OF wf]
  have ha: "heap_addr (kvm k) = a" by (simp add: a_def)
  have a: "a \<noteq> NULL" using heap_addr_nonzero[OF hw] by (simp add: a_def)
  have one: "k_alloc 52 k = Inr (a, k\<lparr>kvm := (kvm k)\<lparr>heap_addr := a + 52\<rparr>\<rparr>)"
    using k_alloc_room(1)[OF hw, of 52] room by (simp add: ha room_def)
  have u52: "unat (a + 52) = unat a + 52" using heap_offset[OF hw room, of 52] by (simp add: a_def)
  have stk: "stack_of a \<noteq> NULL" using u52 unfolding stack_of_def by (metis add_is_0 numeral_neq_zero unat_0)
  let ?k = "k\<lparr>kvm := (kvm k)\<lparr>heap_addr := a + 52\<rparr>,
      pcbq := (pcbq k)\<lparr>pcbs := (pcbs (pcbq k))(a \<mapsto> zero_pcb)\<rparr>\<rparr>"
  have two: "k_alloc 1024 ?k = Inr (a + 52, ?k\<lparr>kvm := (kvm ?k)\<lparr>heap_addr := a + 1076\<rparr>\<rparr>)"
    using k_alloc_room(1)[of ?k 1024] hw room u52 by (simp add: heap_wf_def room_def ha)
  show ?thesis using a stk
    by (simp add: pcb_allocate_def one two modify_pcb_def on_pcbs_def modify_live Let_def
        stack_of_def fresh_pcb_def with_pcb_def ha)
       (simp add: zero_pcb_def frame_of_def add.commute)
qed

lemma pcb_allocate_full:
  assumes wf: "wf k A" and full: "\<not> room 1076 (kvm k)"
  shows "pcb_allocate k = Inl (Panic ''Heap is full!'')"
proof (cases "room 52 (kvm k)")
  case False
  then show ?thesis using k_alloc_full[OF wfD(2)[OF wf], of 52] by (simp add: pcb_allocate_def)
next
  case True
  let ?a = "heap_addr (kvm k)"
  note hw = wfD(2)[OF wf]
  have one: "k_alloc 52 k = Inr (?a, k\<lparr>kvm := (kvm k)\<lparr>heap_addr := ?a + 52\<rparr>\<rparr>)"
    "unat (?a + 52) = unat ?a + 52"
    using k_alloc_room[OF hw, of 52] True by simp_all
  let ?k = "k\<lparr>kvm := (kvm k)\<lparr>heap_addr := ?a + 52\<rparr>,
      pcbq := (pcbq k)\<lparr>pcbs := (pcbs (pcbq k))(?a \<mapsto> zero_pcb)\<rparr>\<rparr>"
  have "k_alloc 1024 ?k = Inl (Panic ''Heap is full!'')"
    using k_alloc_full[of ?k 1024] hw full True one(2) by (simp add: heap_wf_def room_def)
  then show ?thesis using heap_addr_nonzero[OF hw] by (simp add: pcb_allocate_def one Let_def)
qed

section \<open>pcb\_setup\<close>

lemma setup_pcb_links [simp]: "pnext (setup_pcb s c q a) = NULL" "pprev (setup_pcb s c q a) = NULL"
  by (simp_all add: setup_pcb_def fresh_pcb_def zero_pcb_def)

text \<open>Adding a PCB behind everything that is allocated keeps the invariant.\<close>

lemma heap_addr_fresh:
  assumes "wf k A"
  shows "pcbs (pcbq k) (heap_addr (kvm k)) = None" and "\<not> queued A (heap_addr (kvm k))"
proof -
  show "pcbs (pcbq k) (heap_addr (kvm k)) = None"
    using wf_pcbD[OF assms, of "heap_addr (kvm k)"] by (cases "pcbs (pcbq k) (heap_addr (kvm k))") (auto simp: wf_pcb_def)
  then show "\<not> queued A (heap_addr (kvm k))"
    using rep_home[OF wfD(1)[OF assms]] by (fastforce simp: queued_def)
qed

lemma wf_with_pcb:
  assumes wf: "wf k A" and room: "room 1076 (kvm k)"
    and p: "length (pname p) = 16" "terminated (pname p)" "0 \<le> priority p" "priority p \<le> 9"
      "pnext p = NULL" "pprev p = NULL"
  shows "wf (with_pcb p x k) A"
proof -
  let ?a = "heap_addr (kvm k)"
  note hw = wfD(2)[OF wf]
  have "unat (?a + 1076) = unat ?a + 1076" using heap_offset[OF hw room, of 1076] by simp
  then have lt: "?a < ?a + 1076" and hw': "heap_wf (kvm (with_pcb p x k))"
    using hw room by (auto simp: word_less_nat_alt heap_wf_def room_def)
  have q: "pcbq (with_pcb p x k) = (pcbq k)\<lparr>pcbs := (pcbs (pcbq k))(?a := Some p)\<rparr>"
    by (simp add: with_pcb_def Let_def)
  have "rep (pcbq (with_pcb p x k)) A" unfolding q
    by (rule rep_upd_detached) (use wfD(1)[OF wf] heap_addr_fresh[OF wf] heap_addr_nonzero[OF hw] p in auto)
  moreover have "wf_pcb (with_pcb p x k) b q" if "pcbs (pcbq (with_pcb p x k)) b = Some q" for b q
  proof (cases "b = ?a")
    case True
    then show ?thesis using that p lt heap_addr_nonzero[OF hw] by (auto simp: wf_pcb_def)
  next
    case False
    then have "wf_pcb k b q" using that wf_pcbD[OF wf] by simp
    then show ?thesis using lt by (auto simp: wf_pcb_def intro: less_trans)
  qed
  moreover have "frames_ok (with_pcb p x k) A"
    using wf_frame[OF wf] heap_addr_fresh(2)[OF wf] by (auto simp: frames_ok_def live_def)
  ultimately show ?thesis using hw' wfD(3)[OF wf] by (simp add: wf_def)
qed

lemma wf_add_process:
  assumes "wf k A" and "room 1076 (kvm k)" and "NUL \<notin> set str" "length str < 16" "0 \<le> prio" "prio \<le> 9"
  shows "wf (add_process str cls prio function k) A"
proof -
  have "16 - length str = Suc (15 - length str)" using assms(4) by simp
  then have "terminated (str @ replicate (16 - length str) NUL)" by simp
  then show ?thesis unfolding add_process_def Let_def using assms
    by (intro wf_with_pcb) (simp_all add: setup_pcb_def fresh_pcb_def zero_pcb_def)
qed

lemma NUL_notin_text_of [simp]: "NUL \<notin> set (text_of s)"
  by (auto simp: text_of_def dest: set_takeWhileD)

lemma pcb_find_free:
  assumes "wf k A" and "terminated nm" and "\<forall>a. queued A a \<longrightarrow> name_of (pcbq k) a \<noteq> text_of nm"
  shows "pcb_find (Some nm) (pcbq k) = Inr NULL"
proof -
  have "filter (\<lambda>a. name_of (pcbq k) a = text_of nm) (all_queued A) = []"
    using assms(3) by (auto simp: filter_empty_conv set_all_queued)
  then show ?thesis using pcb_find_refines[OF wfD(1,4)[OF assms(1)] assms(2)] by simp
qed

lemma modify_with_pcb:
  "heap_addr (kvm k) \<noteq> NULL \<Longrightarrow>
   modify_pcb (heap_addr (kvm k)) f (with_pcb p x k) = Inr (with_pcb (f p) x k)"
  by (simp add: modify_pcb_def on_pcbs_def modify_live with_pcb_def Let_def)

lemma modify_context_with_pcb:
  "frame_of (heap_addr (kvm k)) \<noteq> NULL \<Longrightarrow>
   modify_context (frame_of (heap_addr (kvm k))) g (with_pcb p x k) = Inr (with_pcb p (g x) k)"
  by (simp add: modify_context_def load_context_def with_pcb_def Let_def)

lemma pcb_setup_ok:
  assumes wf: "wf k A" and room: "room 1076 (kvm k)"
    and nm: "terminated nm" "length (text_of nm) < 16" and pr: "0 \<le> prio" "prio \<le> 9"
    and new: "\<forall>a. queued A a \<longrightarrow> name_of (pcbq k) a \<noteq> text_of nm"
  shows "pcb_setup (Some nm) cls prio function k =
    Inr (heap_addr (kvm k), add_process (text_of nm) cls prio function k)"
proof -
  let ?a = "heap_addr (kvm k)"
  let ?k = "with_pcb (fresh_pcb ?a) zero_context k"
  have a: "?a \<noteq> NULL" by (rule heap_addr_nonzero[OF wfD(2)[OF wf]])
  have "unat (?a + 1016) = unat ?a + 1016" using heap_offset[OF wfD(2)[OF wf] room, of 1016] by simp
  then have f: "frame_of ?a \<noteq> NULL" by (auto simp: frame_of_def)
  have ld: "load ?a (pcbq ?k) = Inr (fresh_pcb ?a)" using a by (simp add: load_def)
  have name: "strncpy (replicate 16 NUL) nm 15 = Inr (text_of nm @ replicate (16 - length (text_of nm)) NUL)"
    (is "_ = Inr ?nm")
  proof -
    have "take 15 (text_of nm @ replicate 15 NUL) @ drop 15 (replicate 16 NUL) = ?nm"
    proof -
      have "16 - length (text_of nm) = Suc (15 - length (text_of nm))" using nm(2) by simp
      then show ?thesis using nm(2) by (simp add: replicate_append_same)
    qed
    then show ?thesis using strncpy_spec[of nm 15 "replicate 16 NUL"] nm(1) by simp
  qed
  have last: "put ?nm 15 NUL = Inr ?nm"
  proof -
    have "?nm ! 15 = NUL" using nm(2) by (simp add: nth_append)
    then show ?thesis using nm(2) by (simp add: put_def) (metis list_update_id)
  qed
  have find: "pcb_find (Some nm) (pcbq k) = Inr NULL" by (rule pcb_find_free[OF wf nm(1) new])
  have sel: "pname (fresh_pcb ?a) = replicate 16 NUL" "contextPtr (fresh_pcb ?a) = frame_of ?a"
    by (simp_all add: fresh_pcb_def zero_pcb_def)
  have new: "(fresh_pcb ?a)\<lparr>pname := ?nm, process_class := cls, priority := prio,
      execution_state := STATE_READY, dispatch_state := DISPATCH_ACTIVE\<rparr> = setup_pcb (text_of nm) cls prio ?a"
    by (simp add: setup_pcb_def fresh_pcb_def zero_pcb_def)
  show ?thesis using nm(1,2) pr a f
    by (simp add: pcb_setup_def find pcb_allocate_ok[OF wf room] ld sel name last
        modify_with_pcb modify_context_with_pcb new add_process_def Let_def del: replicate_Suc)
qed

lemma pcb_setup_rejected:
  assumes "terminated nm" and "16 \<le> length (text_of nm) \<or> prio < 0 \<or> 9 < prio"
  shows "pcb_setup (Some nm) cls prio function k = Inr (NULL, k)"
  using assms by (auto simp: pcb_setup_def)

definition duplicate_error :: "string \<Rightarrow> string" where
  "duplicate_error str =
     ESC # ''[31mError: Process with name '' @ [CHR 0x27] @ str @ [CHR 0x27] @ '' already exists'' @
     ESC # ''[0m'' @ [CR, LF]"

lemma pcb_find_queued:
  assumes "wf k A" and "terminated nm" and "queued A a" "name_of (pcbq k) a = text_of nm"
  obtains b where "pcb_find (Some nm) (pcbq k) = Inr b" "b \<noteq> NULL" "queued A b"
    "name_of (pcbq k) b = text_of nm"
proof -
  let ?xs = "filter (\<lambda>a. name_of (pcbq k) a = text_of nm) (all_queued A)"
  have ne: "?xs \<noteq> []" using assms(3,4) set_all_queued[of a A] by (auto simp: filter_empty_conv)
  then have mem: "first_or NULL ?xs \<in> set ?xs" by (rule first_or_in)
  then have q: "queued A (first_or NULL ?xs)" "name_of (pcbq k) (first_or NULL ?xs) = text_of nm"
    using set_all_queued[of _ A] by auto
  then have "first_or NULL ?xs \<noteq> NULL"
    using rep_home[OF wfD(1)[OF assms(1)]] by (fastforce simp: queued_def)
  then show ?thesis
    using that q pcb_find_refines[OF wfD(1,4)[OF assms(1)] assms(2)] by metis
qed

lemma pcb_setup_duplicate:
  assumes wf: "wf k A" and nm: "terminated nm" "length (text_of nm) < 16" and pr: "0 \<le> prio" "prio \<le> 9"
    and dup: "queued A a" "name_of (pcbq k) a = text_of nm"
  shows "pcb_setup (Some nm) cls prio function k = Inr (NULL, emit (duplicate_error (text_of nm)) k)"
proof -
  obtain b where b: "pcb_find (Some nm) (pcbq k) = Inr b" "b \<noteq> NULL"
    using pcb_find_queued[OF wf nm(1) dup] by blast
  then show ?thesis using nm pr wfD(3)[OF wf]
    by (simp add: pcb_setup_def say_lit say_online duplicate_error_def)
qed

lemma pcb_setup_full:
  assumes wf: "wf k A" and full: "\<not> room 1076 (kvm k)"
    and nm: "terminated nm" "length (text_of nm) < 16" and pr: "0 \<le> prio" "prio \<le> 9"
    and new: "\<forall>a. queued A a \<longrightarrow> name_of (pcbq k) a \<noteq> text_of nm"
  shows "pcb_setup (Some nm) cls prio function k = Inl (Panic ''Heap is full!'')"
  using nm pr pcb_find_free[OF wf nm(1) new] pcb_allocate_full[OF wf full] by (simp add: pcb_setup_def)

lemma k_free_nop [simp]: "k_free a k = Inr k"
  by (simp add: k_free_def sys_free_mem_def)

lemma pcb_free_nop:
  "pcbs (pcbq k) a \<noteq> None \<Longrightarrow> a \<noteq> NULL \<Longrightarrow> pcb_free a k = Inr (0, k)"
  by (auto simp: pcb_free_def load_def)

lemma pcb_free_NULL [simp]: "pcb_free NULL k = Inr (-1, k)"
  by (simp add: pcb_free_def)

lemma pcb_setup_all:
  assumes "wf k A" and "terminated nm"
  shows "pcb_setup (Some nm) cls prio function k =
    (if 16 \<le> length (text_of nm) \<or> prio < 0 \<or> 9 < prio then Inr (NULL, k)
     else if \<exists>a. queued A a \<and> name_of (pcbq k) a = text_of nm
     then Inr (NULL, emit (duplicate_error (text_of nm)) k)
     else if room 1076 (kvm k)
     then Inr (heap_addr (kvm k), add_process (text_of nm) cls prio function k)
     else Inl (Panic ''Heap is full!'')) \<and>
    (\<forall>ptr k'. pcb_setup (Some nm) cls prio function k = Inr (ptr, k') \<longrightarrow> wf k' A \<and> \<not> queued A ptr)"
proof -
  let ?bad = "16 \<le> length (text_of nm) \<or> prio < 0 \<or> 9 < prio"
  let ?dup = "\<exists>a. queued A a \<and> name_of (pcbq k) a = text_of nm"
  have nq: "\<not> queued A NULL" using rep_no_NULL[OF wfD(1)[OF assms(1)]] by (auto simp: queued_def)
  consider "?bad" | "\<not> ?bad" "?dup" | "\<not> ?bad" "\<not> ?dup" "room 1076 (kvm k)" | "\<not> ?bad" "\<not> ?dup" "\<not> room 1076 (kvm k)"
    by blast
  then show ?thesis
  proof cases
    case 1
    then show ?thesis using pcb_setup_rejected[OF assms(2)] assms(1) nq by auto
  next
    case 2
    then obtain a where "queued A a" "name_of (pcbq k) a = text_of nm" by blast
    then have "pcb_setup (Some nm) cls prio function k = Inr (NULL, emit (duplicate_error (text_of nm)) k)"
      using pcb_setup_duplicate[OF assms] 2(1) by simp
    then show ?thesis using 2 assms(1) nq by auto
  next
    case 3
    then have "pcb_setup (Some nm) cls prio function k =
        Inr (heap_addr (kvm k), add_process (text_of nm) cls prio function k)"
      using pcb_setup_ok[OF assms(1) 3(3) assms(2)] by auto
    then show ?thesis using 3 wf_add_process[OF assms(1) 3(3)] heap_addr_fresh(2)[OF assms(1)] by auto
  next
    case 4
    then have "pcb_setup (Some nm) cls prio function k = Inl (Panic ''Heap is full!'')"
      using pcb_setup_full[OF assms(1) 4(3) assms(2)] by auto
    then show ?thesis using 4 by auto
  qed
qed

text \<open>The new process, written out: the PCB and the first frame it starts with.\<close>

lemma add_process_written:
  "add_process str cls prio function k =
     (let a = heap_addr (kvm k);
          p = \<lparr>pname = str @ replicate (16 - length str) NUL, process_class = cls,
            priority = prio, execution_state = STATE_READY, dispatch_state = DISPATCH_ACTIVE,
            pargs = NULL, pstack = a + 52, contextPtr = a + 52 + 1024 - 60, pnext = NULL, pprev = NULL\<rparr>;
          x = \<lparr>reg_gs = 0x10, reg_fs = 0x10, reg_es = 0x10, reg_ds = 0x10, reg_edi = 0, reg_esi = 0,
            reg_ebp = 0, reg_esp = a + 52 + 1024, reg_ebx = 0, reg_edx = 0, reg_ecx = 0, reg_eax = 0,
            reg_eip = function, reg_cs = 0x08, reg_eflags = 0x202\<rparr>
      in k\<lparr>pcbq := (pcbq k)\<lparr>pcbs := (pcbs (pcbq k))(a \<mapsto> p)\<rparr>,
           contexts := (contexts k)(a + 52 + 1024 - 60 \<mapsto> x),
           kvm := (kvm k)\<lparr>heap_addr := a + 52 + 1024\<rparr>\<rparr>)"
  by (simp add: add_process_def with_pcb_def setup_pcb_def fresh_pcb_def zero_pcb_def zero_context_def
      initial_frame_def stack_of_def frame_of_def Let_def add.commute)

section \<open>Properties\<close>

text \<open>Property C17. What \<open>pcb_setup\<close> returns in every case: NULL for a name of 16 or more
  characters or a priority outside 0 to 9; NULL and an error message if a queued process has
  the name; else a new PCB of 52 bytes behind all others, and its stack of 1024, written out
  here: ready and active, with the name padded to 16 bytes, the class and the priority, and
  at the top of the stack a first frame that starts the function in the kernel's segments
  with interrupts enabled (0x202) and an empty stack. Nothing else changes. If the heap has no
  room the allocator panics: NULL, which the comments of \<open>pcb_allocate\<close>, \<open>pcb_setup\<close> and
  \<open>sys_alloc_mem\<close> promise for that case, is never returned. The state it returns satisfies the
  invariant, with the new process in no queue.\<close>

theorem pcb_setup_result:
  assumes "wf k A" and "terminated nm"
  shows "pcb_setup (Some nm) cls prio function k =
    (if 16 \<le> length (text_of nm) \<or> prio < 0 \<or> 9 < prio then Inr (NULL, k)
     else if \<exists>a. queued A a \<and> name_of (pcbq k) a = text_of nm
     then Inr (NULL, emit (duplicate_error (text_of nm)) k)
     else if room 1076 (kvm k)
     then (let a = heap_addr (kvm k);
               p = \<lparr>pname = text_of nm @ replicate (16 - length (text_of nm)) NUL, process_class = cls,
                 priority = prio, execution_state = STATE_READY, dispatch_state = DISPATCH_ACTIVE,
                 pargs = NULL, pstack = a + 52, contextPtr = a + 52 + 1024 - 60, pnext = NULL, pprev = NULL\<rparr>;
               x = \<lparr>reg_gs = 0x10, reg_fs = 0x10, reg_es = 0x10, reg_ds = 0x10, reg_edi = 0, reg_esi = 0,
                 reg_ebp = 0, reg_esp = a + 52 + 1024, reg_ebx = 0, reg_edx = 0, reg_ecx = 0, reg_eax = 0,
                 reg_eip = function, reg_cs = 0x08, reg_eflags = 0x202\<rparr>
           in Inr (a, k\<lparr>pcbq := (pcbq k)\<lparr>pcbs := (pcbs (pcbq k))(a \<mapsto> p)\<rparr>,
                contexts := (contexts k)(a + 52 + 1024 - 60 \<mapsto> x),
                kvm := (kvm k)\<lparr>heap_addr := a + 52 + 1024\<rparr>\<rparr>))
     else Inl (Panic ''Heap is full!'')) \<and>
    (\<forall>ptr k'. pcb_setup (Some nm) cls prio function k = Inr (ptr, k') \<longrightarrow> wf k' A \<and> \<not> queued A ptr)"
  using pcb_setup_all[OF assms, of cls prio "function"] unfolding add_process_written Let_def .

end
