(* ===== verification/Scheduler.thy ===== *)
theory Scheduler
  imports Kernel
begin

text \<open>
  The dispatcher: \<open>sys_call\<close> of \<^verbatim>\<open>kernel/sys_call.c\<close>.

  \<open>sys_call ctx k\<close> takes the address of the frame the trap handler has saved and returns
  the address of the frame it will restore.

  The lemmas show what each request does to the running process and to the ready queue, in
  terms of the lists the queues represent.
\<close>

abbreviation (input) EXIT :: u32 where "EXIT \<equiv> 0"
abbreviation (input) IDLE :: u32 where "IDLE \<equiv> 1"
abbreviation (input) READ :: u32 where "READ \<equiv> 2"
abbreviation (input) WRITE :: u32 where "WRITE \<equiv> 3"

definition set_eax :: "addr \<Rightarrow> u32 \<Rightarrow> kernel \<Rightarrow> kernel c" where
  "set_eax a v = modify_context a (\<lambda>x. x\<lparr>reg_eax := v\<rparr>)"

definition k_remove :: "addr \<Rightarrow> kernel \<Rightarrow> (int \<times> kernel) c" where
  "k_remove a k = bindE (pcb_remove a (pcbq k)) (\<lambda>(r, s). Inr (r, k\<lparr>pcbq := s\<rparr>))"

definition k_insert :: "addr \<Rightarrow> kernel \<Rightarrow> kernel c" where
  "k_insert a = on_pcbs (pcb_insert a)"

definition sys_get_current_process :: "kernel \<Rightarrow> addr" where
  "sys_get_current_process k = curProc k"

text \<open>\<open>return newProc->contextPtr\<close>\<close>

definition return_context :: "addr \<Rightarrow> kernel \<Rightarrow> (addr \<times> kernel) c" where
  "return_context newProc k = bindE (load newProc (pcbq k)) (\<lambda>p. Inr (contextPtr p, k))"

definition sys_call :: "addr \<Rightarrow> kernel \<Rightarrow> (addr \<times> kernel) c" where
  "sys_call curContext k =
     (let k = (if curProc k = NULL then k\<lparr>sysStackPtr := curContext\<rparr> else k);
          newProc = head (queues (pcbq k) ReadyQ)
      in bindE (load_context curContext k) (\<lambda>x.
         if reg_eax x = IDLE
         then if newProc = NULL
              then bindE (set_eax curContext (-1) k) (\<lambda>k. Inr (sysStackPtr k, k))
              else if curProc k = NULL
              then bindE (k_remove newProc k) (\<lambda>(_, k).
                   bindE (set_eax curContext (-1) (k\<lparr>curProc := newProc\<rparr>)) (return_context newProc))
              else bindE (modify_pcb (curProc k) (\<lambda>p. p\<lparr>contextPtr := curContext\<rparr>) k) (\<lambda>k.
                   bindE (k_insert (curProc k) k) (\<lambda>k.
                   bindE (k_remove newProc k) (\<lambda>(_, k).
                   bindE (set_eax curContext (-1) (k\<lparr>curProc := newProc\<rparr>)) (return_context newProc))))
         else if reg_eax x = EXIT
         then if newProc = NULL
              then bindE (pcb_free (curProc k) k) (\<lambda>(_, k).
                   let k = k\<lparr>curProc := NULL\<rparr>
                   in bindE (set_eax (sysStackPtr k) (-1) k) (\<lambda>k. Inr (sysStackPtr k, k)))
              else bindE (pcb_free (curProc k) k) (\<lambda>(_, k).
                   bindE (k_remove newProc k) (\<lambda>(_, k).
                   let k = k\<lparr>curProc := newProc\<rparr>
                   in bindE (load newProc (pcbq k)) (\<lambda>p.
                      bindE (set_eax (contextPtr p) (-1) k) (return_context newProc))))
         else bindE (set_eax curContext (-1) k) (\<lambda>k. Inr (curContext, k))))"

section \<open>The invariant of the dispatcher\<close>

text \<open>
  Between two traps the running process is in no queue and would go to the ready queue;
  before the first dispatch there is none, and then \<open>sysStackPtr\<close> is not used.
\<close>

definition running_ok :: "kernel \<Rightarrow> (qid \<Rightarrow> addr list) \<Rightarrow> bool" where
  "running_ok k A \<longleftrightarrow> curProc k = NULL \<or>
     (\<not> queued A (curProc k) \<and> home_of (pcbq k) (curProc k) = Some ReadyQ \<and>
      sysStackPtr k \<noteq> NULL \<and> contexts k (sysStackPtr k) \<noteq> None)"

definition wf_run :: "kernel \<Rightarrow> (qid \<Rightarrow> addr list) \<Rightarrow> bool" where
  "wf_run k A \<longleftrightarrow> wf k A \<and> running_ok k A"

definition prio :: "kernel \<Rightarrow> addr \<Rightarrow> int" where
  "prio k a = prio_of (pcbq k) a"

lemma prio_eq: "prio k = prio_of (pcbq k)"
  by (simp add: prio_def fun_eq_iff)

text \<open>Behind the head of a sorted queue, the process that yields takes its place among
  those that stay.\<close>

lemma requeue_ready:
  assumes "sorted (map pr (h # t))" and "a \<notin> set (h # t)"
  shows "remove1 h (ins_ready pr a (h # t)) = ins_ready pr a t"
proof (cases "pr h \<le> pr a")
  case True
  then show ?thesis by (simp add: ins_ready_def)
next
  case False
  then have "takeWhile (\<lambda>x. pr x \<le> pr a) t = [] \<and> dropWhile (\<lambda>x. pr x \<le> pr a) t = t"
    using assms(1) by (cases t) auto
  then show ?thesis using False assms(2) by (simp add: ins_ready_def)
qed

lemma head_queued: "A q = h # t \<Longrightarrow> queued A h"
  by (metis list.set_intros(1) queued_def)

lemma head_ready:
  assumes "wf k A"
  shows "head (queues (pcbq k) ReadyQ) = first_or NULL (A ReadyQ)"
  by (rule repD(1)[OF wfD(1)[OF assms]])

lemma set_eax_live:
  "a \<noteq> NULL \<Longrightarrow> contexts k a = Some x \<Longrightarrow>
   set_eax a v k = Inr (k\<lparr>contexts := (contexts k)(a \<mapsto> x\<lparr>reg_eax := v\<rparr>)\<rparr>)"
  by (simp add: set_eax_def modify_context_def load_context_def)

text \<open>A change of the queues that keeps the processes keeps the invariant, and so does one
  of the registers in a frame.\<close>

lemma same_pcbs_sym: "same_pcbs s t \<Longrightarrow> same_pcbs t s"
  by (simp add: same_pcbs_def)

lemma wf_same_pcbs:
  assumes wf: "wf k A" and rep: "rep s B" and same: "same_pcbs (pcbq k) s"
    and fr: "\<And>a p. queued B a \<Longrightarrow> pcbs (pcbq k) a = Some p \<Longrightarrow> live k' (contextPtr p)"
    and k': "pcbq k' = s" "kvm k' = kvm k" "online COM1 (kio k')"
  shows "wf k' B"
proof -
  have "wf_pcb k' a p' \<and> (queued B a \<longrightarrow> live k' (contextPtr p'))" if pa: "pcbs s a = Some p'" for a p'
  proof -
    obtain p where p: "pcbs (pcbq k) a = Some p" "unlinked p' = unlinked p"
      using same_pcbs_Some[OF same_pcbs_sym[OF same] pa] by metis
    then show ?thesis
      using wf_pcbD[OF wf p(1)] unlinked_fields[OF p(2)] fr k' by (simp add: wf_pcb_def)
  qed
  then show ?thesis using wf rep k' by (auto simp: wf_def frames_ok_def)
qed

lemma same_pcbs_prio_of: "same_pcbs s t \<Longrightarrow> prio_of t = prio_of s"
  using same_pcbs_prio by blast

lemma same_pcbs_contextPtr:
  assumes "same_pcbs s t" and "pcbs s a = Some p"
  obtains p' where "pcbs t a = Some p'" "contextPtr p' = contextPtr p"
  using same_pcbs_Some[OF assms] unlinked_fields by metis

section \<open>What the requests do\<close>

lemma sys_call_other:
  assumes "ctx \<noteq> NULL" "contexts k ctx = Some x" "reg_eax x \<noteq> IDLE" "reg_eax x \<noteq> EXIT"
  shows "sys_call ctx k = Inr (ctx, k\<lparr>sysStackPtr := if curProc k = NULL then ctx else sysStackPtr k,
    contexts := (contexts k)(ctx \<mapsto> x\<lparr>reg_eax := -1\<rparr>)\<rparr>)"
  using assms by (simp add: sys_call_def load_context_def set_eax_live)

lemma sys_call_idle_none:
  assumes "wf k A" and "ctx \<noteq> NULL" "contexts k ctx = Some x" "reg_eax x = IDLE" and "A ReadyQ = []"
  shows "sys_call ctx k = Inr (if curProc k = NULL then ctx else sysStackPtr k,
    k\<lparr>sysStackPtr := if curProc k = NULL then ctx else sysStackPtr k,
      contexts := (contexts k)(ctx \<mapsto> x\<lparr>reg_eax := -1\<rparr>)\<rparr>)"
  using assms head_ready[OF assms(1)] by (simp add: sys_call_def load_context_def set_eax_live)

lemma sys_call_exit_none:
  assumes "wf_run k A" and "ctx \<noteq> NULL" "contexts k ctx = Some x" "reg_eax x = EXIT" and "A ReadyQ = []"
    and "contexts k (sysStackPtr k) = Some y" "curProc k \<noteq> NULL"
  shows "sys_call ctx k = Inr (sysStackPtr k, k\<lparr>curProc := NULL,
      contexts := (contexts k)(sysStackPtr k \<mapsto> y\<lparr>reg_eax := -1\<rparr>)\<rparr>)"
  using assms head_ready[of k A]
  by (auto simp: sys_call_def load_context_def set_eax_live wf_run_def running_ok_def home_of_def pcb_free_nop)

text \<open>The queue operations on the kernel state.\<close>

lemma k_remove_member:
  assumes wf: "wf k A" and h: "h \<in> set (A q)"
  obtains s where "k_remove h k = Inr (0, k\<lparr>pcbq := s\<rparr>)" "same_pcbs (pcbq k) s"
    "wf (k\<lparr>pcbq := s\<rparr>) (A(q := remove1 h (A q)))" "\<not> queued (A(q := remove1 h (A q))) h"
    "home_of s h = Some q" "h \<noteq> NULL" "\<And>p. pcbs s h = Some p \<Longrightarrow> live k (contextPtr p)"
proof -
  note r = wfD(1)[OF wf]
  obtain s where s: "pcb_remove h (pcbq k) = Inr (0, s)" "rep s (A(q := remove1 h (A q)))" "same_pcbs (pcbq k) s"
    using pcb_remove_refines[OF r h] by auto
  have "\<not> queued (A(q := remove1 h (A q))) h" using pq.removed[OF r h] by (simp add: queued_def)
  moreover have "home_of s h = Some q" "h \<noteq> NULL"
    using rep_home[OF r h] pq.same_home[OF s(3)] by (auto simp: home_of_def)
  moreover have "wf (k\<lparr>pcbq := s\<rparr>) (A(q := remove1 h (A q)))"
  proof (rule wf_same_pcbs[OF wf s(2,3)])
    fix a p assume "queued (A(q := remove1 h (A q))) a" "pcbs (pcbq k) a = Some p"
    moreover from this(1) have "queued A a" by (auto simp: queued_def split: if_splits) (metis notin_set_remove1)
    ultimately show "live (k\<lparr>pcbq := s\<rparr>) (contextPtr p)" using wf_frame[OF wf] by (simp add: live_def)
  qed (use wfD(3)[OF wf] in simp_all)
  moreover have "live k (contextPtr p)" if p: "pcbs s h = Some p" for p
  proof -
    obtain p' where "pcbs (pcbq k) h = Some p'" "contextPtr p' = contextPtr p"
      using same_pcbs_contextPtr[OF same_pcbs_sym[OF s(3)] p] by metis
    moreover have "queued A h" using h by (auto simp: queued_def)
    ultimately show ?thesis using wf_frame[OF wf, of h] by metis
  qed
  ultimately show ?thesis using that s by (simp add: k_remove_def)
qed

lemma k_insert_detached:
  assumes wf: "wf k A" and c: "\<not> queued A c" "home_of (pcbq k) c = Some q"
    and fr: "\<And>p. pcbs (pcbq k) c = Some p \<Longrightarrow> live k (contextPtr p)"
  obtains s where "k_insert c k = Inr (k\<lparr>pcbq := s\<rparr>)" "same_pcbs (pcbq k) s"
    "wf (k\<lparr>pcbq := s\<rparr>) (A(q := place (pcbq k) c q (A q)))"
proof -
  obtain p where "pcbs (pcbq k) c = Some p" "q = select_queue p"
    using c(2) by (auto simp: home_of_def)
  then obtain s where s: "pcb_insert c (pcbq k) = Inr s" "rep s (A(q := place (pcbq k) c q (A q)))"
    "same_pcbs (pcbq k) s"
    using pcb_insert_refines[OF wfD(1)[OF wf] _ c(1)] by blast
  have "wf (k\<lparr>pcbq := s\<rparr>) (A(q := place (pcbq k) c q (A q)))"
  proof (rule wf_same_pcbs[OF wf s(2,3)])
    fix a p assume "queued (A(q := place (pcbq k) c q (A q))) a" "pcbs (pcbq k) a = Some p"
    moreover from this(1) have "queued A a \<or> a = c"
      by (auto simp: queued_def pq.set_placed split: if_splits)
    ultimately show "live (k\<lparr>pcbq := s\<rparr>) (contextPtr p)"
      using wf_frame[OF wf] fr by (auto simp: live_def)
  qed (use wfD(3)[OF wf] in simp_all)
  then show ?thesis using that s by (simp add: k_insert_def on_pcbs_def)
qed

text \<open>A change of a PCB that is in no queue.\<close>

lemma modify_detached:
  assumes wf: "wf k A" and c: "\<not> queued A c" "pcbs (pcbq k) c = Some p"
    and f: "wf_pcb k c (f p)" "pnext (f p) = pnext p" "pprev (f p) = pprev p"
  shows "modify_pcb c f k = Inr (k\<lparr>pcbq := (pcbq k)\<lparr>pcbs := (pcbs (pcbq k))(c \<mapsto> f p)\<rparr>\<rparr>)"
    and "wf (k\<lparr>pcbq := (pcbq k)\<lparr>pcbs := (pcbs (pcbq k))(c \<mapsto> f p)\<rparr>\<rparr>) A"
proof -
  note d = rep_detached[OF wfD(1)[OF wf] c(2,1)]
  then show "modify_pcb c f k = Inr (k\<lparr>pcbq := (pcbq k)\<lparr>pcbs := (pcbs (pcbq k))(c \<mapsto> f p)\<rparr>\<rparr>)"
    using c by (simp add: modify_pcb_def on_pcbs_def modify_live)
  have "rep ((pcbq k)\<lparr>pcbs := (pcbs (pcbq k))(c := Some (f p))\<rparr>) A"
    by (rule rep_upd_detached) (use wfD(1)[OF wf] c d f in auto)
  then show "wf (k\<lparr>pcbq := (pcbq k)\<lparr>pcbs := (pcbs (pcbq k))(c \<mapsto> f p)\<rparr>\<rparr>) A"
    using wf f(1) c(1) by (auto simp: wf_def wf_pcb_def frames_ok_def live_def)
qed

text \<open>Registers in a frame.\<close>

lemma wf_set_eax:
  "wf (k\<lparr>contexts := (contexts k)(a \<mapsto> x)\<rparr>) A" if "wf k A"
  using that by (auto simp: wf_def wf_pcb_def frames_ok_def live_def)

text \<open>What the running process leaves behind, and what a dispatch changes.\<close>

definition saved :: "kernel \<Rightarrow> addr \<Rightarrow> addr \<Rightarrow> pcb_state" where
  "saved k c ctx = (case pcbs (pcbq k) c of None \<Rightarrow> pcbq k
     | Some p \<Rightarrow> (pcbq k)\<lparr>pcbs := (pcbs (pcbq k))(c \<mapsto> p\<lparr>contextPtr := ctx\<rparr>)\<rparr>)"

lemma sys_call_idle_switch:
  assumes wf: "wf_run k A" and ctx: "ctx \<noteq> NULL" "contexts k ctx = Some x" "reg_eax x = IDLE"
    and c: "curProc k \<noteq> NULL" and q: "A ReadyQ = h # t"
  shows "\<exists>s p. pcbs (pcbq k) h = Some p \<and>
    sys_call ctx k = Inr (contextPtr p, k\<lparr>pcbq := s, curProc := h,
      contexts := (contexts k)(ctx \<mapsto> x\<lparr>reg_eax := -1\<rparr>)\<rparr>) \<and>
    same_pcbs (saved k (curProc k) ctx) s \<and>
    wf_run (k\<lparr>pcbq := s, curProc := h, contexts := (contexts k)(ctx \<mapsto> x\<lparr>reg_eax := -1\<rparr>)\<rparr>)
      (A(ReadyQ := ins_ready (prio k) (curProc k) t))"
proof -
  let ?c = "curProc k"
  have wf0: "wf k A" and run: "\<not> queued A ?c" "home_of (pcbq k) ?c = Some ReadyQ"
    "sysStackPtr k \<noteq> NULL" "contexts k (sysStackPtr k) \<noteq> None"
    using wf c by (auto simp: wf_run_def running_ok_def)
  obtain p where p: "pcbs (pcbq k) ?c = Some p" "select_queue p = ReadyQ" using run(2) by (auto simp: home_of_def)
  let ?s0 = "saved k ?c ctx" and ?k0 = "k\<lparr>pcbq := saved k ?c ctx\<rparr>"
  have wfp: "wf_pcb k ?c (p\<lparr>contextPtr := ctx\<rparr>)" using wf_pcbD[OF wf0 p(1)] ctx by (simp add: wf_pcb_def)
  have s0: "?s0 = (pcbq k)\<lparr>pcbs := (pcbs (pcbq k))(?c \<mapsto> p\<lparr>contextPtr := ctx\<rparr>)\<rparr>" by (simp add: saved_def p)
  have k0: "modify_pcb ?c (\<lambda>p. p\<lparr>contextPtr := ctx\<rparr>) k = Inr ?k0" "wf ?k0 A"
    using modify_detached[OF wf0 run(1) p(1), of "\<lambda>p. p\<lparr>contextPtr := ctx\<rparr>"] wfp by (simp_all add: s0)
  have prio0: "prio_of ?s0 = prio k" by (simp add: fun_eq_iff prio_def prio_of_def s0 p)
  have home: "home_of (pcbq ?k0) ?c = Some ReadyQ"
    using p by (auto simp: home_of_def s0 select_queue_def split: if_splits)
  have fr: "live ?k0 (contextPtr p0)" if "pcbs (pcbq ?k0) ?c = Some p0" for p0
    using that ctx by (auto simp: s0 live_def)
  obtain s1 where "k_insert ?c ?k0 = Inr (?k0\<lparr>pcbq := s1\<rparr>)" "same_pcbs (pcbq ?k0) s1"
    "wf (?k0\<lparr>pcbq := s1\<rparr>) (A(ReadyQ := place (pcbq ?k0) ?c ReadyQ (A ReadyQ)))"
    by (rule k_insert_detached[OF k0(2) run(1) home fr])
  then have s1: "k_insert ?c ?k0 = Inr (k\<lparr>pcbq := s1\<rparr>)" "same_pcbs ?s0 s1"
    "wf (k\<lparr>pcbq := s1\<rparr>) (A(ReadyQ := ins_ready (prio k) ?c (h # t)))"
    by (simp_all add: place_def prio0 q)
  have nc: "?c \<notin> set (A ReadyQ)" using run(1) by (simp add: queued_def)
  then have rem: "remove1 h (ins_ready (prio k) ?c (h # t)) = ins_ready (prio k) ?c t"
    using repD(6)[OF wfD(1)[OF wf0]] q by (intro requeue_ready) (simp_all add: prio_eq)
  obtain s2 where s2: "k_remove h (k\<lparr>pcbq := s1\<rparr>) = Inr (0, k\<lparr>pcbq := s2\<rparr>)" "same_pcbs s1 s2"
    "wf (k\<lparr>pcbq := s2\<rparr>) (A(ReadyQ := ins_ready (prio k) ?c t))"
    "\<not> queued (A(ReadyQ := ins_ready (prio k) ?c t)) h" "home_of s2 h = Some ReadyQ" "h \<noteq> NULL"
    using k_remove_member[OF s1(3), of h ReadyQ] by (auto simp: rem)
  have same: "same_pcbs ?s0 s2" using s1(2) s2(2) same_pcbs_trans by blast
  obtain ph where ph: "pcbs (pcbq k) h = Some ph" using rep_home[OF wfD(1)[OF wf0], of h ReadyQ] q by auto
  have hc: "h \<noteq> ?c" using nc q by auto
  then have "pcbs ?s0 h = Some ph" using ph by (simp add: s0)
  then obtain p' where p': "pcbs s2 h = Some p'" "contextPtr p' = contextPtr ph"
    using same_pcbs_contextPtr[OF same] by metis
  have hd: "head (queues (pcbq k) ReadyQ) = h" using head_ready[OF wf0] q by simp
  let ?k' = "k\<lparr>pcbq := s2, curProc := h, contexts := (contexts k)(ctx \<mapsto> x\<lparr>reg_eax := -1\<rparr>)\<rparr>"
  have "sys_call ctx k = Inr (contextPtr ph, ?k')"
    using ctx c hd s2(6) s1(1) s2(1) k0(1) p'
    by (simp add: sys_call_def load_context_def set_eax_live return_context_def load_live)
  moreover have "wf_run ?k' (A(ReadyQ := ins_ready (prio k) ?c t))"
    using wf_set_eax[OF s2(3)] s2 run(3,4) wfD(3)[OF wf0]
    by (auto simp: wf_run_def running_ok_def wf_def wf_pcb_def frames_ok_def live_def)
  ultimately show ?thesis using ph same by blast
qed

lemma dispatch_head:
  assumes wf: "wf k A" and q: "A ReadyQ = h # t" and sys: "sysStackPtr k \<noteq> NULL" "contexts k (sysStackPtr k) \<noteq> None"
  obtains s p p' where "k_remove h k = Inr (0, k\<lparr>pcbq := s\<rparr>)" "same_pcbs (pcbq k) s"
    "pcbs (pcbq k) h = Some p" "pcbs s h = Some p'" "contextPtr p' = contextPtr p" "h \<noteq> NULL"
    "wf_run (k\<lparr>pcbq := s, curProc := h\<rparr>) (A(ReadyQ := t))"
proof -
  obtain s where s: "k_remove h k = Inr (0, k\<lparr>pcbq := s\<rparr>)" "same_pcbs (pcbq k) s"
    "wf (k\<lparr>pcbq := s\<rparr>) (A(ReadyQ := t))" "\<not> queued (A(ReadyQ := t)) h" "home_of s h = Some ReadyQ" "h \<noteq> NULL"
    using k_remove_member[OF wf, of h ReadyQ] q by auto
  obtain p where p: "pcbs (pcbq k) h = Some p" using rep_home[OF wfD(1)[OF wf], of h ReadyQ] q by auto
  obtain p' where p': "pcbs s h = Some p'" "contextPtr p' = contextPtr p"
    using same_pcbs_contextPtr[OF s(2) p] by metis
  have "wf_run (k\<lparr>pcbq := s, curProc := h\<rparr>) (A(ReadyQ := t))"
    using s sys by (auto simp: wf_run_def running_ok_def wf_def wf_pcb_def frames_ok_def live_def)
  then show ?thesis using that s p p' by blast
qed

lemma wf_run_set_eax: "wf_run k A \<Longrightarrow> wf_run (k\<lparr>contexts := (contexts k)(a \<mapsto> x)\<rparr>) A"
  using wf_set_eax[of k A a x] by (auto simp: wf_run_def running_ok_def)

lemma sys_call_idle_first:
  assumes wf: "wf_run k A" and ctx: "ctx \<noteq> NULL" "contexts k ctx = Some x" "reg_eax x = IDLE"
    and c: "curProc k = NULL" and q: "A ReadyQ = h # t"
  shows "\<exists>s p. pcbs (pcbq k) h = Some p \<and>
    sys_call ctx k = Inr (contextPtr p, k\<lparr>sysStackPtr := ctx, pcbq := s, curProc := h,
      contexts := (contexts k)(ctx \<mapsto> x\<lparr>reg_eax := -1\<rparr>)\<rparr>) \<and>
    same_pcbs (pcbq k) s \<and>
    wf_run (k\<lparr>sysStackPtr := ctx, pcbq := s, curProc := h,
      contexts := (contexts k)(ctx \<mapsto> x\<lparr>reg_eax := -1\<rparr>)\<rparr>) (A(ReadyQ := t))"
proof -
  let ?k = "k\<lparr>sysStackPtr := ctx\<rparr>"
  have "wf ?k A" using wf by (auto simp: wf_run_def wf_def wf_pcb_def frames_ok_def live_def)
  then obtain s p p' where s: "k_remove h ?k = Inr (0, ?k\<lparr>pcbq := s\<rparr>)" "same_pcbs (pcbq k) s"
    "pcbs (pcbq k) h = Some p" "pcbs s h = Some p'" "contextPtr p' = contextPtr p" "h \<noteq> NULL"
    "wf_run (?k\<lparr>pcbq := s, curProc := h\<rparr>) (A(ReadyQ := t))"
    using dispatch_head[of ?k A h t] q ctx by auto
  have hd: "head (queues (pcbq k) ReadyQ) = h" using head_ready[of k A] wf q by (simp add: wf_run_def)
  have "sys_call ctx k = Inr (contextPtr p, k\<lparr>sysStackPtr := ctx, pcbq := s, curProc := h,
      contexts := (contexts k)(ctx \<mapsto> x\<lparr>reg_eax := -1\<rparr>)\<rparr>)"
    using ctx c hd s by (simp add: sys_call_def load_context_def set_eax_live return_context_def load_live)
  moreover have "wf_run (k\<lparr>sysStackPtr := ctx, pcbq := s, curProc := h,
      contexts := (contexts k)(ctx \<mapsto> x\<lparr>reg_eax := -1\<rparr>)\<rparr>) (A(ReadyQ := t))"
    using wf_run_set_eax[OF s(7), of ctx "x\<lparr>reg_eax := -1\<rparr>"] by simp
  ultimately show ?thesis using s by blast
qed

lemma pcb_free_running:
  assumes "wf_run k A"
  shows "\<exists>r. pcb_free (curProc k) k = Inr (r, k)"
  using assms pcb_free_nop[of k "curProc k"]
  by (cases "curProc k = NULL") (auto simp: wf_run_def running_ok_def home_of_def)

text \<open>The state in which the choice is made: a trap before the first dispatch sets
  \<open>sysStackPtr\<close>.\<close>

definition entered :: "addr \<Rightarrow> kernel \<Rightarrow> kernel" where
  "entered ctx k = (if curProc k = NULL then k\<lparr>sysStackPtr := ctx\<rparr> else k)"

lemma entered_simps [simp]:
  "pcbq (entered ctx k) = pcbq k" "contexts (entered ctx k) = contexts k"
  "curProc (entered ctx k) = curProc k" "kvm (entered ctx k) = kvm k" "kio (entered ctx k) = kio k"
  by (simp_all add: entered_def)

lemma entered_ok:
  assumes "wf_run k A" and "ctx \<noteq> NULL" "contexts k ctx = Some x"
  shows "wf_run (entered ctx k) A" "sysStackPtr (entered ctx k) \<noteq> NULL"
    "contexts k (sysStackPtr (entered ctx k)) \<noteq> None"
  using assms by (auto simp: entered_def wf_run_def running_ok_def wf_def wf_pcb_def frames_ok_def live_def)

lemma sys_call_exit_switch:
  assumes wf: "wf_run k A" and ctx: "ctx \<noteq> NULL" "contexts k ctx = Some x" "reg_eax x = EXIT"
    and q: "A ReadyQ = h # t"
  defines "k0 \<equiv> entered ctx k"
  shows "\<exists>s p y. pcbs (pcbq k) h = Some p \<and> contexts k (contextPtr p) = Some y \<and>
    sys_call ctx k = Inr (contextPtr p, k0\<lparr>pcbq := s, curProc := h,
      contexts := (contexts k)(contextPtr p \<mapsto> y\<lparr>reg_eax := -1\<rparr>)\<rparr>) \<and>
    same_pcbs (pcbq k) s \<and>
    wf_run (k0\<lparr>pcbq := s, curProc := h, contexts := (contexts k)(contextPtr p \<mapsto> y\<lparr>reg_eax := -1\<rparr>)\<rparr>)
      (A(ReadyQ := t))"
proof -
  note k0 = entered_ok[OF wf ctx(1,2), folded k0_def]
  have sel: "pcbq k0 = pcbq k" "contexts k0 = contexts k" "curProc k0 = curProc k" by (simp_all add: k0_def)
  have wf0: "wf k0 A" "wf k A" using k0(1) wf by (auto simp: wf_run_def)
  obtain s p p' where s: "k_remove h k0 = Inr (0, k0\<lparr>pcbq := s\<rparr>)" "same_pcbs (pcbq k) s"
    "pcbs (pcbq k) h = Some p" "pcbs s h = Some p'" "contextPtr p' = contextPtr p" "h \<noteq> NULL"
    "wf_run (k0\<lparr>pcbq := s, curProc := h\<rparr>) (A(ReadyQ := t))"
    using dispatch_head[of k0 A h t] q wf0 k0(2,3) by (auto simp: sel)
  obtain y where y: "contexts k (contextPtr p) = Some y" "contextPtr p \<noteq> NULL"
    using wf_frame[OF wf0(2) head_queued[where A = A, OF q] s(3)] by (auto simp: live_def)
  obtain r where fr: "pcb_free (curProc k) k0 = Inr (r, k0)" using pcb_free_running[OF k0(1)] by (auto simp: sel)
  have hd: "head (queues (pcbq k) ReadyQ) = h" using head_ready[OF wf0(2)] q by simp
  have "sys_call ctx k = Inr (contextPtr p, k0\<lparr>pcbq := s, curProc := h,
      contexts := (contexts k)(contextPtr p \<mapsto> y\<lparr>reg_eax := -1\<rparr>)\<rparr>)"
    using ctx hd s(1,4,5,6) fr y unfolding sys_call_def entered_def[symmetric] k0_def[symmetric]
    by (simp add: load_context_def set_eax_live return_context_def load_live Let_def sel)
  moreover note wf_run_set_eax[OF s(7), of "contextPtr p" "y\<lparr>reg_eax := -1\<rparr>"]
  ultimately show ?thesis using s y sel by (intro exI[of _ s] exI[of _ p] exI[of _ y]) simp
qed

section \<open>The dispatcher as a scheduler of lists\<close>

text \<open>
  The contract: the state is the running process and the list of the ready ones. Who yields
  is inserted by priority among those that stay ready, and the first one runs next, also
  when its priority is lower; a yield with nobody ready leaves the processor to the system;
  who exits is gone.
\<close>

datatype request = Yield | Leave | Transfer

definition request_of :: "u32 \<Rightarrow> request" where
  "request_of op = (if op = IDLE then Yield else if op = EXIT then Leave else Transfer)"

fun sched :: "('a \<Rightarrow> int) \<Rightarrow> request \<Rightarrow> 'a option \<times> 'a list \<Rightarrow> 'a option \<times> 'a list" where
  "sched pr Yield (r, []) = (r, [])"
| "sched pr Yield (None, h # t) = (Some h, t)"
| "sched pr Yield (Some c, h # t) = (Some h, ins_ready pr c t)"
| "sched pr Leave (r, []) = (None, [])"
| "sched pr Leave (r, h # t) = (Some h, t)"
| "sched pr Transfer st = st"

definition running :: "kernel \<Rightarrow> addr option" where
  "running k = (if curProc k = NULL then None else Some (curProc k))"

lemma prio_saved: "prio_of (saved k c ctx) = prio k"
  by (simp add: fun_eq_iff prio_def prio_of_def saved_def split: option.splits)

lemma A_upd_same: "A q = xs \<Longrightarrow> A = A(q := xs)"
  by auto

text \<open>Where the processor goes: to the frame of the process that is dispatched, or of the
  system when nobody is, or back.\<close>

definition target :: "kernel \<Rightarrow> addr \<Rightarrow> kernel \<Rightarrow> request \<Rightarrow> addr" where
  "target k ctx k' r =
     (if r = Transfer then ctx
      else if curProc k' \<noteq> curProc k \<and> curProc k' \<noteq> NULL
      then (case pcbs (pcbq k) (curProc k') of None \<Rightarrow> NULL | Some p \<Rightarrow> contextPtr p)
      else sysStackPtr k')"

lemma sys_call_exit_empty:
  assumes wf: "wf_run k A" and ctx: "ctx \<noteq> NULL" "contexts k ctx = Some x" "reg_eax x = EXIT"
    and q: "A ReadyQ = []"
  shows "\<exists>y. contexts k (sysStackPtr (entered ctx k)) = Some y \<and> (let k0 = entered ctx k
    in sys_call ctx k = Inr (sysStackPtr k0, k0\<lparr>curProc := NULL,
         contexts := (contexts k)(sysStackPtr k0 \<mapsto> y\<lparr>reg_eax := -1\<rparr>)\<rparr>))"
proof -
  let ?k0 = "entered ctx k"
  note k0 = entered_ok[OF wf ctx(1,2)]
  obtain y where y: "contexts k (sysStackPtr ?k0) = Some y" using k0(3) by blast
  obtain r where fr: "pcb_free (curProc k) ?k0 = Inr (r, ?k0)" using pcb_free_running[OF k0(1)] by auto
  have "head (queues (pcbq k) ReadyQ) = NULL" using head_ready[of k A] wf q by (simp add: wf_run_def)
  then show ?thesis using ctx fr y k0(2) unfolding sys_call_def entered_def[symmetric]
    by (auto simp: load_context_def set_eax_live Let_def)
qed

lemma wf_run_idle_system:
  "wf_run k A \<Longrightarrow> wf_run (k\<lparr>curProc := NULL, contexts := (contexts k)(a \<mapsto> x)\<rparr>) A"
  using wf_set_eax[of k A a x] by (auto simp: wf_run_def running_ok_def wf_def wf_pcb_def frames_ok_def live_def)

lemma not_running_head:
  assumes "wf_run k A" and "A ReadyQ = h # t"
  shows "h \<noteq> curProc k" and "h \<noteq> NULL"
proof -
  have "wf k A" "curProc k \<noteq> NULL \<Longrightarrow> \<not> queued A (curProc k)"
    using assms(1) by (auto simp: wf_run_def running_ok_def)
  moreover have "h \<in> set (A ReadyQ)" using assms(2) by simp
  ultimately show "h \<noteq> NULL" "h \<noteq> curProc k"
    using rep_home[OF wfD(1)] by (metis queued_def)+
qed

text \<open>What a request leaves alone.\<close>

definition eax_only :: "cpu_context option \<Rightarrow> cpu_context option \<Rightarrow> bool" where
  "eax_only x y \<longleftrightarrow> map_option (\<lambda>r. r\<lparr>reg_eax := 0\<rparr>) x = map_option (\<lambda>r. r\<lparr>reg_eax := 0\<rparr>) y"

lemma eax_only_simps [simp]: "eax_only x x" "eax_only (Some r) (Some (r\<lparr>reg_eax := v\<rparr>))"
  by (simp_all add: eax_only_def)

definition frames_kept :: "kernel \<Rightarrow> addr \<Rightarrow> kernel \<Rightarrow> addr \<Rightarrow> bool" where
  "frames_kept k ctx k' tgt \<longleftrightarrow>
     (\<forall>a. a \<noteq> ctx \<longrightarrow> a \<noteq> tgt \<longrightarrow> contexts k' a = contexts k a) \<and> tgt \<noteq> NULL \<and> contexts k' tgt \<noteq> None \<and>
     eax_only (contexts k tgt) (contexts k' tgt) \<and>
     sysStackPtr k' = sysStackPtr (entered ctx k) \<and> kvm k' = kvm k \<and>
     (same_pcbs (pcbq k) (pcbq k') \<or> same_pcbs (saved k (curProc k) ctx) (pcbq k'))"

text \<open>The simulation of one request: what \<open>sys_call\<close> does is what the scheduler of lists does.\<close>

definition dispatches :: "kernel \<Rightarrow> (qid \<Rightarrow> addr list) \<Rightarrow> addr \<Rightarrow> request \<Rightarrow> bool" where
  "dispatches k A ctx r \<longleftrightarrow>
     (\<exists>k' B. sys_call ctx k = Inr (target k ctx k' r, k') \<and> wf_run k' B \<and>
       (running k', B ReadyQ) = sched (prio k) r (running k, A ReadyQ) \<and>
       (\<forall>q. q \<noteq> ReadyQ \<longrightarrow> B q = A q) \<and> prio k' = prio k \<and> frames_kept k ctx k' (target k ctx k' r))"

lemma dispatches_transfer:
  assumes wf: "wf_run k A" and ctx: "ctx \<noteq> NULL" "contexts k ctx = Some x"
    and op: "reg_eax x \<noteq> IDLE" "reg_eax x \<noteq> EXIT"
  shows "dispatches k A ctx Transfer"
proof -
  let ?k' = "(entered ctx k)\<lparr>contexts := (contexts k)(ctx \<mapsto> x\<lparr>reg_eax := -1\<rparr>)\<rparr>"
  have "sys_call ctx k = Inr (target k ctx ?k' Transfer, ?k')"
    using sys_call_other[OF ctx op] by (simp add: target_def entered_def)
  moreover have "wf_run ?k' A"
    using wf_run_set_eax[OF entered_ok(1)[OF wf ctx], of ctx "x\<lparr>reg_eax := -1\<rparr>"] by simp
  ultimately show ?thesis unfolding dispatches_def
    by (intro exI[of _ ?k'] exI[of _ A]) (simp add: running_def prio_eq frames_kept_def target_def ctx)
qed

lemma dispatches_yield:
  assumes wf: "wf_run k A" and ctx: "ctx \<noteq> NULL" "contexts k ctx = Some x" and op: "reg_eax x = IDLE"
  shows "dispatches k A ctx Yield"
proof (cases "A ReadyQ")
  case Nil
  let ?k' = "(entered ctx k)\<lparr>contexts := (contexts k)(ctx \<mapsto> x\<lparr>reg_eax := -1\<rparr>)\<rparr>"
  have "sys_call ctx k = Inr (target k ctx ?k' Yield, ?k')"
    using sys_call_idle_none[of k A ctx x] ctx op Nil wf
    by (simp add: target_def entered_def wf_run_def)
  moreover have "wf_run ?k' A"
    using wf_run_set_eax[OF entered_ok(1)[OF wf ctx], of ctx "x\<lparr>reg_eax := -1\<rparr>"] by simp
  ultimately show ?thesis unfolding dispatches_def using Nil
    using entered_ok[OF wf ctx] ctx
    by (intro exI[of _ ?k'] exI[of _ A])
       (auto simp: running_def prio_eq frames_kept_def target_def)
next
  case (Cons h t)
  note h = not_running_head[OF wf Cons]
  have fr: "live k (contextPtr p)" if "pcbs (pcbq k) h = Some p" for p
    using wf_frame[OF _ head_queued[where A = A, OF Cons] that] wf by (simp add: wf_run_def)
  show ?thesis
  proof (cases "curProc k = NULL")
    case True
    let ?k = "\<lambda>s. k\<lparr>sysStackPtr := ctx, pcbq := s, curProc := h,
        contexts := (contexts k)(ctx \<mapsto> x\<lparr>reg_eax := -1\<rparr>)\<rparr>"
    obtain s p where s: "pcbs (pcbq k) h = Some p" "same_pcbs (pcbq k) s"
      "sys_call ctx k = Inr (contextPtr p, ?k s)" "wf_run (?k s) (A(ReadyQ := t))"
      using sys_call_idle_first[OF wf ctx op True Cons] by blast
    then show ?thesis unfolding dispatches_def using Cons True h same_pcbs_prio_of[OF s(2)] fr[OF s(1)] ctx
      by (intro exI[of _ "?k s"] exI[of _ "A(ReadyQ := t)"])
         (simp add: running_def prio_eq target_def frames_kept_def entered_def live_def)
  next
    case False
    let ?k = "\<lambda>s. k\<lparr>pcbq := s, curProc := h, contexts := (contexts k)(ctx \<mapsto> x\<lparr>reg_eax := -1\<rparr>)\<rparr>"
      and ?B = "A(ReadyQ := ins_ready (prio k) (curProc k) t)"
    obtain s p where s: "pcbs (pcbq k) h = Some p" "same_pcbs (saved k (curProc k) ctx) s"
      "sys_call ctx k = Inr (contextPtr p, ?k s)" "wf_run (?k s) ?B"
      using sys_call_idle_switch[OF wf ctx op False Cons] by blast
    then show ?thesis unfolding dispatches_def using Cons False h same_pcbs_prio_of[OF s(2)] prio_saved[of k]
        fr[OF s(1)] ctx
      by (intro exI[of _ "?k s"] exI[of _ ?B])
         (simp add: running_def prio_eq target_def frames_kept_def entered_def live_def)
  qed
qed

lemma dispatches_leave:
  assumes wf: "wf_run k A" and ctx: "ctx \<noteq> NULL" "contexts k ctx = Some x" and op: "reg_eax x = EXIT"
  shows "dispatches k A ctx Leave"
proof (cases "A ReadyQ")
  case Nil
  let ?k0 = "entered ctx k"
  obtain y where y0: "contexts k (sysStackPtr ?k0) = Some y" and y: "sys_call ctx k = Inr (sysStackPtr ?k0,
      ?k0\<lparr>curProc := NULL, contexts := (contexts k)(sysStackPtr ?k0 \<mapsto> y\<lparr>reg_eax := -1\<rparr>)\<rparr>)" (is "_ = Inr (_, ?k')")
    using sys_call_exit_empty[OF wf ctx op Nil] by (auto simp: Let_def)
  have "wf_run ?k' A" using wf_run_idle_system[OF entered_ok(1)[OF wf ctx], of "sysStackPtr ?k0" "y\<lparr>reg_eax := -1\<rparr>"] by simp
  then show ?thesis unfolding dispatches_def using y y0 Nil entered_ok[OF wf ctx]
    by (intro exI[of _ ?k'] exI[of _ A])
       (simp add: running_def prio_eq target_def frames_kept_def)
next
  case (Cons h t)
  note h = not_running_head[OF wf Cons]
  have fr: "live k (contextPtr p)" if "pcbs (pcbq k) h = Some p" for p
    using wf_frame[OF _ head_queued[where A = A, OF Cons] that] wf by (simp add: wf_run_def)
  let ?k = "\<lambda>s p y. (entered ctx k)\<lparr>pcbq := s, curProc := h,
      contexts := (contexts k)(contextPtr p \<mapsto> y\<lparr>reg_eax := -1\<rparr>)\<rparr>"
  obtain s p y where s: "pcbs (pcbq k) h = Some p" "same_pcbs (pcbq k) s"
    "sys_call ctx k = Inr (contextPtr p, ?k s p y)" "wf_run (?k s p y) (A(ReadyQ := t))"
    and y: "contexts k (contextPtr p) = Some y"
    using sys_call_exit_switch[OF wf ctx op Cons] by blast
  then show ?thesis unfolding dispatches_def using Cons h same_pcbs_prio_of[OF s(2)] fr[OF s(1)]
    by (intro exI[of _ "?k s p y"] exI[of _ "A(ReadyQ := t)"])
       (simp add: running_def prio_eq target_def frames_kept_def live_def)
qed

lemma sys_call_simulates:
  assumes wf: "wf_run k A" and ctx: "ctx \<noteq> NULL" "contexts k ctx = Some x"
  defines "r \<equiv> request_of (reg_eax x)"
  shows "\<exists>k' B. sys_call ctx k = Inr (target k ctx k' r, k') \<and> wf_run k' B \<and>
  (running k', B ReadyQ) = sched (prio k) r (running k, A ReadyQ) \<and>
  (\<forall>q. q \<noteq> ReadyQ \<longrightarrow> B q = A q) \<and> prio k' = prio k \<and> frames_kept k ctx k' (target k ctx k' r)"
proof -
  have "dispatches k A ctx r"
  using dispatches_transfer[OF assms(1-3)] dispatches_yield[OF assms(1-3)] dispatches_leave[OF assms(1-3)]
  by (auto simp: r_def request_of_def)
  then show ?thesis by (simp add: dispatches_def)
qed

end
