(* ===== verification/Traps.thy ===== *)
theory Traps
  imports Scheduler
begin

text \<open>
  The trap handler \<^verbatim>\<open>kernel/sys_call_isr.s\<close> around \<open>sys_call\<close>, and what it means for the
  processes: \<open>trap regs k\<close> is the whole software interrupt. The registers at the \<open>int\<close>
  instruction are pushed on the stack of the interrupted process, and the registers of the
  frame \<open>sys_call\<close> chooses are the ones that run next.

  \<open>isolated k\<close> says that every process has its own 1024 bytes of stack; a process that
  traps from within its stack then leaves the saved registers of the others alone. The last
  part follows the dispatcher over many traps: round robin among equals, and who waits for
  ever.
\<close>

section \<open>kernel/sys\_call\_isr.s\<close>

text \<open>
  The interrupt pushes eflags, cs and eip, \<open>pusha\<close> and four pushes the other twelve
  registers of \<open>struct context\<close>; what the frame overlaps on the stack is overwritten. The
  pops of \<open>popa\<close> skip esp, which \<open>iret\<close> leaves behind the frame.
\<close>

definition overlaps :: "addr \<Rightarrow> addr \<Rightarrow> bool" where
  "overlaps a b \<longleftrightarrow> unat (a - b) < 60 \<or> unat (b - a) < 60"

definition push_frame :: "cpu_context \<Rightarrow> kernel \<Rightarrow> addr \<times> kernel" where
  "push_frame regs k =
     (let a = reg_esp regs - sizeof_context
      in (a, k\<lparr>contexts := (\<lambda>b. if b = a then Some (regs\<lparr>reg_esp := reg_esp regs - 12\<rparr>)
                              else if overlaps a b then None else contexts k b)\<rparr>))"

definition pop_frame :: "addr \<Rightarrow> kernel \<Rightarrow> cpu_context c" where
  "pop_frame a k = bindE (load_context a k) (\<lambda>x. Inr (x\<lparr>reg_esp := a + sizeof_context\<rparr>))"

definition trap :: "cpu_context \<Rightarrow> kernel \<Rightarrow> (cpu_context \<times> kernel) c" where
  "trap regs k =
     (let (ctx, k) = push_frame regs k
      in bindE (sys_call ctx k) (\<lambda>(ctx', k). bindE (pop_frame ctx' k) (\<lambda>regs'. Inr (regs', k))))"

section \<open>Stacks\<close>

text \<open>The frame at \<open>f\<close> lies in the stack of the PCB allocated at \<open>a\<close>.\<close>

definition frame_in :: "addr \<Rightarrow> addr \<Rightarrow> bool" where
  "frame_in a f \<longleftrightarrow> unat a + 52 \<le> unat f \<and> unat f + 60 \<le> unat a + 1076"

text \<open>A frame of the kernel's own stack, which is below the heap.\<close>

definition system_frame :: "addr \<Rightarrow> bool" where
  "system_frame f \<longleftrightarrow> f \<noteq> NULL \<and> unat f + 60 \<le> 0xD000000"

definition isolated :: "kernel \<Rightarrow> bool" where
  "isolated k \<longleftrightarrow>
     (\<forall>a p. pcbs (pcbq k) a = Some p \<longrightarrow>
        0xD000000 \<le> unat a \<and> unat a + 1076 \<le> 0xD010000 \<and> frame_in a (contextPtr p)) \<and>
     (\<forall>a b. pcbs (pcbq k) a \<noteq> None \<longrightarrow> pcbs (pcbq k) b \<noteq> None \<longrightarrow> a \<noteq> b \<longrightarrow>
        unat a + 1076 \<le> unat b \<or> unat b + 1076 \<le> unat a) \<and>
     (curProc k \<noteq> NULL \<longrightarrow> system_frame (sysStackPtr k))"

text \<open>The stack pointer of a trap: room for a frame on the stack of who is running.\<close>

definition own_stack :: "kernel \<Rightarrow> cpu_context \<Rightarrow> bool" where
  "own_stack k regs \<longleftrightarrow>
     (if curProc k = NULL then system_frame (reg_esp regs - 60)
      else frame_in (curProc k) (reg_esp regs - 60))"

text \<open>The registers a process resumes with.\<close>

definition saved_regs :: "kernel \<Rightarrow> addr \<Rightarrow> cpu_context option" where
  "saved_regs k a =
     (case pcbs (pcbq k) a of None \<Rightarrow> None
      | Some p \<Rightarrow> map_option (\<lambda>x. x\<lparr>reg_esp := contextPtr p + 60\<rparr>) (contexts k (contextPtr p)))"

lemma not_overlaps:
  assumes "unat a + 60 \<le> unat b \<or> unat b + 60 \<le> unat a" and "unat a \<le> 0xD010000" "unat b \<le> 0xD010000"
  shows "\<not> overlaps a b"
proof -
  have *: "60 \<le> unat (x - y)" if "unat x + 60 \<le> unat y \<or> unat y + 60 \<le> unat x" "unat x \<le> 0xD010000" "unat y \<le> 0xD010000" for x y :: addr
    using that by (auto simp: unat_sub_if_size word_size)
  show ?thesis using *[of a b] *[of b a] assms by (auto simp: overlaps_def)
qed

lemma isolated_frames_apart:
  assumes iso: "isolated k" and p: "pcbs (pcbq k) b = Some p"
    and f: "(\<exists>q. pcbs (pcbq k) a = Some q \<and> frame_in a f \<and> a \<noteq> b) \<or> system_frame f"
  shows "\<not> overlaps f (contextPtr p) \<and> contextPtr p \<noteq> f"
proof -
  have b: "0xD000000 \<le> unat b" "unat b + 1076 \<le> 0xD010000" "frame_in b (contextPtr p)"
    using iso p by (auto simp: isolated_def)
  from f have "\<not> overlaps f (contextPtr p) \<and> unat (contextPtr p) \<noteq> unat f"
  proof
    assume "\<exists>q. pcbs (pcbq k) a = Some q \<and> frame_in a f \<and> a \<noteq> b"
    then obtain q where q: "pcbs (pcbq k) a = Some q" "frame_in a f" "a \<noteq> b" by blast
    then have "unat a + 1076 \<le> unat b \<or> unat b + 1076 \<le> unat a" "unat a + 1076 \<le> 0xD010000"
      using iso p unfolding isolated_def by (metis option.distinct(1))+
    then show ?thesis using q(2) b by (intro conjI not_overlaps) (auto simp: frame_in_def)
  next
    assume "system_frame f"
    then show ?thesis using b by (intro conjI not_overlaps) (auto simp: frame_in_def system_frame_def)
  qed
  then show ?thesis by auto
qed

text \<open>The push, \<open>pushed A regs k ctx k1\<close>: the frame is at \<open>ctx\<close>, nothing but the frames has changed, and
  everything but the running process keeps its frame.\<close>

definition pushed :: "(qid \<Rightarrow> addr list) \<Rightarrow> cpu_context \<Rightarrow> kernel \<Rightarrow> addr \<Rightarrow> kernel \<Rightarrow> bool" where
  "pushed A regs k ctx k1 \<longleftrightarrow> push_frame regs k = (ctx, k1) \<and> ctx = reg_esp regs - 60 \<and> ctx \<noteq> NULL \<and>
     k1 = k\<lparr>contexts := contexts k1\<rparr> \<and> contexts k1 ctx = Some (regs\<lparr>reg_esp := reg_esp regs - 12\<rparr>) \<and> wf_run k1 A \<and>
     (\<forall>b p. b \<noteq> curProc k \<longrightarrow> pcbs (pcbq k) b = Some p \<longrightarrow>
        contextPtr p \<noteq> ctx \<and> contexts k1 (contextPtr p) = contexts k (contextPtr p))"

lemma pushedD:
  assumes "pushed A regs k ctx k1"
  shows "push_frame regs k = (ctx, k1)" "ctx = reg_esp regs - 60" "ctx \<noteq> NULL" "k1 = k\<lparr>contexts := contexts k1\<rparr>"
    "contexts k1 ctx = Some (regs\<lparr>reg_esp := reg_esp regs - 12\<rparr>)" "wf_run k1 A"
  using assms unfolding pushed_def by blast+

lemma pushed_keep:
  "pushed A regs k ctx k1 \<Longrightarrow> b \<noteq> curProc k \<Longrightarrow> pcbs (pcbq k) b = Some p \<Longrightarrow>
   contextPtr p \<noteq> ctx \<and> contexts k1 (contextPtr p) = contexts k (contextPtr p)"
  unfolding pushed_def by blast

lemma pushed_sel:
  assumes "pushed A regs k ctx k1"
  shows "pcbq k1 = pcbq k" "curProc k1 = curProc k" "sysStackPtr k1 = sysStackPtr k" "kvm k1 = kvm k" "kio k1 = kio k"
  using pushedD(4)[OF assms] by (metis kernel.select_convs(1-6) kernel.surjective kernel.update_convs(2))+

lemma push_frame_ok:
  assumes wf: "wf_run k A" and iso: "isolated k" and own: "own_stack k regs"
  obtains ctx k1 where "pushed A regs k ctx k1"
proof -
  define ctx where "ctx = reg_esp regs - 60"
  define k1 where "k1 = snd (push_frame regs k)"
  have k1: "push_frame regs k = (ctx, k1)" "k1 = k\<lparr>contexts := contexts k1\<rparr>"
    and cx: "contexts k1 b = (if b = ctx then Some (regs\<lparr>reg_esp := reg_esp regs - 12\<rparr>)
      else if overlaps ctx b then None else contexts k b)" for b
    by (simp_all add: k1_def ctx_def push_frame_def Let_def)
  have sel: "pcbq k1 = pcbq k" "curProc k1 = curProc k" "sysStackPtr k1 = sysStackPtr k" "kvm k1 = kvm k" "kio k1 = kio k"
    using k1(2) by (metis kernel.select_convs(1-6) kernel.surjective kernel.update_convs(2))+
  have wf0: "wf k A" and run: "curProc k \<noteq> NULL \<Longrightarrow> \<not> queued A (curProc k) \<and>
      home_of (pcbq k) (curProc k) = Some ReadyQ \<and> sysStackPtr k \<noteq> NULL \<and> contexts k (sysStackPtr k) \<noteq> None"
    using wf by (auto simp: wf_run_def running_ok_def)
  have place: "(\<exists>q. pcbs (pcbq k) (curProc k) = Some q \<and> frame_in (curProc k) ctx) \<or> system_frame ctx"
    using own run by (auto simp: own_stack_def ctx_def home_of_def split: if_splits)
  have nn: "ctx \<noteq> NULL" using place by (auto simp: frame_in_def system_frame_def)
  have keep: "contextPtr p \<noteq> ctx \<and> contexts k1 (contextPtr p) = contexts k (contextPtr p)"
    if "b \<noteq> curProc k" "pcbs (pcbq k) b = Some p" for b p
    using isolated_frames_apart[OF iso that(2), of "curProc k" ctx] place that(1) by (auto simp: cx)
  have qd: "b \<noteq> curProc k" if "queued A b" for b
    using that run rep_home[OF wfD(1)[OF wf0]] by (cases "curProc k = NULL") (auto simp: queued_def)
  have "live k1 (contextPtr p)" if b: "queued A b" "pcbs (pcbq k) b = Some p" for b p
    using wf_frame[OF wf0 b] keep[OF qd[OF b(1)] b(2)] by (simp add: live_def)
  then have "frames_ok k1 A" by (simp add: frames_ok_def sel)
  then have "wf k1 A" using wf0 by (simp add: wf_def wf_pcb_def sel)
  moreover have "contexts k1 (sysStackPtr k) \<noteq> None" if c: "curProc k \<noteq> NULL"
  proof -
    have "frame_in (curProc k) ctx" using own c by (simp add: own_stack_def ctx_def)
    moreover have "0xD000000 \<le> unat (curProc k)" "unat (curProc k) + 1076 \<le> 0xD010000" "system_frame (sysStackPtr k)"
      using iso c run[OF c] by (auto simp: isolated_def home_of_def)
    ultimately have "\<not> overlaps ctx (sysStackPtr k)"
      by (intro not_overlaps) (auto simp: frame_in_def system_frame_def)
    then show ?thesis using run[OF c] by (simp add: cx)
  qed
  ultimately have "wf_run k1 A" using run by (auto simp: wf_run_def running_ok_def sel)
  moreover have "contexts k1 ctx = Some (regs\<lparr>reg_esp := reg_esp regs - 12\<rparr>)" by (simp add: cx)
  ultimately have "pushed A regs k ctx k1" unfolding pushed_def using k1 nn keep ctx_def by blast
  then show ?thesis by (rule that)
qed

text \<open>The frame of the system survives the push of a process.\<close>

lemma sys_frame_kept:
  assumes wf: "wf_run k A" and iso: "isolated k" and own: "own_stack k regs" and c: "curProc k \<noteq> NULL"
  shows "sysStackPtr k \<noteq> reg_esp regs - 60 \<and>
    contexts (snd (push_frame regs k)) (sysStackPtr k) = contexts k (sysStackPtr k)"
proof -
  have f: "frame_in (curProc k) (reg_esp regs - 60)" using own c by (simp add: own_stack_def)
  have "home_of (pcbq k) (curProc k) = Some ReadyQ" using wf c by (auto simp: wf_run_def running_ok_def)
  then have r: "0xD000000 \<le> unat (curProc k)" "unat (curProc k) + 1076 \<le> 0xD010000" "system_frame (sysStackPtr k)"
    using iso c by (auto simp: isolated_def home_of_def)
  have "\<not> overlaps (reg_esp regs - 60) (sysStackPtr k)"
    by (rule not_overlaps) (use f r in \<open>auto simp: frame_in_def system_frame_def\<close>)
  moreover have "unat (sysStackPtr k) \<noteq> unat (reg_esp regs - 60)"
    using f r by (auto simp: frame_in_def system_frame_def)
  ultimately show ?thesis by (auto simp: push_frame_def Let_def)
qed

text \<open>A change of the queues, and of the frame of the process that saved one in its own
  stack, keeps the stacks apart.\<close>

lemma isolated_kept:
  assumes iso: "isolated k"
    and same: "same_pcbs (pcbq k) (pcbq k') \<or> same_pcbs (saved k (curProc k) ctx) (pcbq k')"
    and place: "curProc k \<noteq> NULL \<Longrightarrow> frame_in (curProc k) ctx"
    and sys: "curProc k' \<noteq> NULL \<Longrightarrow> system_frame (sysStackPtr k')"
    and nonull: "pcbs (pcbq k) NULL = None"
  shows "isolated k'"
proof -
  have origin: "\<exists>p. pcbs (pcbq k) a = Some p \<and>
      (contextPtr p' = contextPtr p \<or> contextPtr p' = ctx \<and> a = curProc k)"
    if p': "pcbs (pcbq k') a = Some p'" for a p'
    using same
  proof
    assume "same_pcbs (pcbq k) (pcbq k')"
    then show ?thesis using same_pcbs_contextPtr[OF same_pcbs_sym p'] by metis
  next
    assume s: "same_pcbs (saved k (curProc k) ctx) (pcbq k')"
    obtain p where "pcbs (saved k (curProc k) ctx) a = Some p" "contextPtr p = contextPtr p'"
      using same_pcbs_contextPtr[OF same_pcbs_sym[OF s] p'] by metis
    then show ?thesis by (auto simp: saved_def split: option.splits if_splits)
  qed
  have "0xD000000 \<le> unat a \<and> unat a + 1076 \<le> 0xD010000 \<and> frame_in a (contextPtr p')"
    if p': "pcbs (pcbq k') a = Some p'" for a p'
  proof -
    obtain p where p: "pcbs (pcbq k) a = Some p"
      "contextPtr p' = contextPtr p \<or> contextPtr p' = ctx \<and> a = curProc k" using origin[OF p'] by blast
    moreover have "a \<noteq> NULL" using p(1) nonull by auto
    ultimately show ?thesis using iso place unfolding isolated_def by metis
  qed
  moreover have "pcbs (pcbq k) a \<noteq> None" if "pcbs (pcbq k') a \<noteq> None" for a using origin that by blast
  ultimately show ?thesis using iso sys unfolding isolated_def by blast
qed

lemma pop_frame_live:
  "a \<noteq> NULL \<Longrightarrow> contexts k a = Some x \<Longrightarrow> pop_frame a k = Inr (x\<lparr>reg_esp := a + 60\<rparr>)"
  by (simp add: pop_frame_def load_context_def)

section \<open>What a trap does\<close>

text \<open>Every trap comes to an end, does what the scheduler of lists does, and keeps both
  invariants.\<close>

lemma trap_simulates:
  assumes wf: "wf_run k A" and iso: "isolated k" and own: "own_stack k regs"
  shows "\<exists>regs' k' B. trap regs k = Inr (regs', k') \<and> wf_run k' B \<and> isolated k' \<and>
    (running k', B ReadyQ) = sched (prio k) (request_of (reg_eax regs)) (running k, A ReadyQ) \<and>
    (\<forall>q. q \<noteq> ReadyQ \<longrightarrow> B q = A q) \<and> prio k' = prio k"
proof -
  obtain ctx k1 where "pushed A regs k ctx k1" by (rule push_frame_ok[OF wf iso own])
  note k1 = pushedD[OF this] and sel = pushed_sel[OF this]
  define r where "r = request_of (reg_eax regs)"
  obtain k' B where k': "sys_call ctx k1 = Inr (target k1 ctx k' r, k')" "wf_run k' B"
    "(running k', B ReadyQ) = sched (prio k1) r (running k1, A ReadyQ)"
    "\<forall>q. q \<noteq> ReadyQ \<longrightarrow> B q = A q" "prio k' = prio k1" "frames_kept k1 ctx k' (target k1 ctx k' r)"
    using sys_call_simulates[OF k1(6,3,5)] by (auto simp: r_def)
  obtain x where x: "contexts k' (target k1 ctx k' r) = Some x" "target k1 ctx k' r \<noteq> NULL"
    using k'(6) by (auto simp: frames_kept_def)
  have "trap regs k = Inr (x\<lparr>reg_esp := target k1 ctx k' r + 60\<rparr>, k')"
    using k'(1) pop_frame_live[OF x(2,1)] by (simp add: trap_def k1(1))
  moreover have "isolated k'"
  proof (rule isolated_kept[OF iso])
    show "same_pcbs (pcbq k) (pcbq k') \<or> same_pcbs (saved k (curProc k) ctx) (pcbq k')"
      using k'(6) unfolding frames_kept_def saved_def sel by blast
    show "frame_in (curProc k) ctx" if "curProc k \<noteq> NULL" using own that by (simp add: own_stack_def k1(2))
    show "pcbs (pcbq k) NULL = None" using wf repD(5)[OF wfD(1)] by (auto simp: wf_run_def)
    show "system_frame (sysStackPtr k')" if "curProc k' \<noteq> NULL"
      using k'(6) own iso that by (auto simp: frames_kept_def entered_def sel own_stack_def k1(2) isolated_def)
  qed
  moreover have "prio k1 = prio k" "running k1 = running k" by (simp_all add: prio_eq running_def sel)
  ultimately show ?thesis using k'(2-5) unfolding r_def by metis
qed

text \<open>A yield in detail: the head of the ready queue runs with the registers it saved, the
  process that yields has saved its own, with the result -1 in eax, and nobody else's change.\<close>

lemma saved_regs_same:
  assumes "same_pcbs s (pcbq k')" and "pcbs s b = Some p"
  shows "saved_regs k' b = map_option (\<lambda>x. x\<lparr>reg_esp := contextPtr p + 60\<rparr>) (contexts k' (contextPtr p))"
proof -
  obtain p' where "pcbs (pcbq k') b = Some p'" "contextPtr p' = contextPtr p"
    using same_pcbs_contextPtr[OF assms] by metis
  then show ?thesis by (simp add: saved_regs_def)
qed

lemma saved_regs_none:
  assumes "same_pcbs s (pcbq k')" and "pcbs s b = None"
  shows "saved_regs k' b = None"
proof -
  have "b \<notin> dom (pcbs (pcbq k'))" using same_pcbs_dom[OF assms(1)] assms(2) by auto
  then show ?thesis by (simp add: saved_regs_def domIff)
qed

lemma saved_regs_kept:
  assumes same: "same_pcbs s (pcbq k')" and s: "pcbs s b = pcbs (pcbq k) b"
    and cx: "\<And>p. pcbs (pcbq k) b = Some p \<Longrightarrow> contexts k' (contextPtr p) = contexts k (contextPtr p)"
  shows "saved_regs k' b = saved_regs k b"
proof (cases "pcbs (pcbq k) b")
  case None
  then show ?thesis using saved_regs_none[OF same] s by (simp add: saved_regs_def)
next
  case (Some p)
  then show ?thesis using saved_regs_same[OF same] s cx by (simp add: saved_regs_def)
qed

lemma trap_yield:
  assumes wf: "wf_run k A" and iso: "isolated k" and own: "own_stack k regs"
    and op: "reg_eax regs = IDLE" and c: "curProc k \<noteq> NULL" and q: "A ReadyQ = h # t"
  shows "\<exists>regs' k'. trap regs k = Inr (regs', k') \<and> saved_regs k h = Some regs' \<and>
    saved_regs k' (curProc k) = Some (regs\<lparr>reg_eax := -1\<rparr>) \<and>
    (\<forall>b. b \<noteq> curProc k \<longrightarrow> saved_regs k' b = saved_regs k b) \<and>
    curProc k' = h \<and> wf_run k' (A(ReadyQ := ins_ready (prio k) (curProc k) t))"
proof -
  obtain ctx k1 where "pushed A regs k ctx k1" by (rule push_frame_ok[OF wf iso own])
  note k1 = pushedD[OF this] and sel = pushed_sel[OF this] and keep = pushed_keep[OF this]
  have pr: "prio k1 = prio k" "saved k1 (curProc k) ctx = saved k (curProc k) ctx"
    unfolding prio_eq saved_def sel by simp_all
  have "curProc k1 \<noteq> NULL" "reg_eax (regs\<lparr>reg_esp := reg_esp regs - 12\<rparr>) = IDLE" using c op sel by simp_all
  from sys_call_idle_switch[OF k1(6,3,5) this(2,1) q] obtain s p where
    p: "pcbs (pcbq k) h = Some p" and
    call: "sys_call ctx k1 = Inr (contextPtr p, k1\<lparr>pcbq := s, curProc := h,
      contexts := (contexts k1)(ctx \<mapsto> regs\<lparr>reg_esp := reg_esp regs - 12, reg_eax := -1\<rparr>)\<rparr>)" and
    same: "same_pcbs (saved k (curProc k) ctx) s" and
    wf': "wf_run (k1\<lparr>pcbq := s, curProc := h,
      contexts := (contexts k1)(ctx \<mapsto> regs\<lparr>reg_esp := reg_esp regs - 12, reg_eax := -1\<rparr>)\<rparr>)
      (A(ReadyQ := ins_ready (prio k) (curProc k) t))"
    unfolding sel pr by auto
  let ?k' = "k1\<lparr>pcbq := s, curProc := h,
      contexts := (contexts k1)(ctx \<mapsto> regs\<lparr>reg_esp := reg_esp regs - 12, reg_eax := -1\<rparr>)\<rparr>"
  have cx: "contexts ?k' = (contexts k1)(ctx \<mapsto> regs\<lparr>reg_esp := reg_esp regs - 12, reg_eax := -1\<rparr>)" by simp
  have sm: "same_pcbs (saved k (curProc k) ctx) (pcbq ?k')" using same by simp
  have hc: "h \<noteq> curProc k" by (rule not_running_head[OF wf q])
  have wf0: "wf k A" using wf by (simp add: wf_run_def)
  obtain y where y: "contexts k (contextPtr p) = Some y" "contextPtr p \<noteq> NULL"
    using wf_frame[OF wf0 head_queued[where A = A, OF q] p] by (auto simp: live_def)
  have "contexts ?k' (contextPtr p) = Some y" using keep[OF hc p] y by (simp add: cx)
  then have tr: "trap regs k = Inr (y\<lparr>reg_esp := contextPtr p + 60\<rparr>, ?k')"
    using call pop_frame_live[OF y(2), of ?k' y] by (simp add: trap_def k1(1))
  have "saved_regs k h = Some (y\<lparr>reg_esp := contextPtr p + 60\<rparr>)" using p y by (simp add: saved_regs_def)
  moreover have "saved_regs ?k' (curProc k) = Some (regs\<lparr>reg_eax := -1\<rparr>)"
  proof -
    obtain pc where "pcbs (pcbq k) (curProc k) = Some pc"
      using wf c by (auto simp: wf_run_def running_ok_def home_of_def)
    then have "pcbs (saved k (curProc k) ctx) (curProc k) = Some (pc\<lparr>contextPtr := ctx\<rparr>)" by (simp add: saved_def)
    then show ?thesis using saved_regs_same[OF sm] by (simp add: cx k1(2))
  qed
  moreover have "saved_regs ?k' b = saved_regs k b" if b: "b \<noteq> curProc k" for b
    using saved_regs_kept[OF sm] keep[OF b] b by (simp add: cx saved_def split: option.splits)
  moreover have "curProc ?k' = h" by simp
  ultimately show ?thesis using tr wf' by blast
qed

section \<open>Many yields\<close>

text \<open>\<open>yields k k'\<close>: the running process, from within its stack, asks to be idle.\<close>

inductive yields :: "kernel \<Rightarrow> kernel \<Rightarrow> bool" where
  "curProc k \<noteq> NULL \<Longrightarrow> own_stack k regs \<Longrightarrow> reg_eax regs = IDLE \<Longrightarrow> trap regs k = Inr (regs', k') \<Longrightarrow>
   yields k k'"

text \<open>\<open>schedules k r q pr\<close>: the kernel state is sound, \<open>r\<close> runs and \<open>q\<close> is ready.\<close>

definition schedules :: "kernel \<Rightarrow> addr option \<Rightarrow> addr list \<Rightarrow> (addr \<Rightarrow> int) \<Rightarrow> bool" where
  "schedules k r q pr \<longleftrightarrow>
     (\<exists>A. wf_run k A \<and> isolated k \<and> running k = r \<and> A ReadyQ = q \<and> prio k = pr)"

lemma yields_sched:
  assumes y: "yields k k'" and s: "schedules k r q pr" and q: "(r', q') = sched pr Yield (r, q)"
  shows "schedules k' r' q' pr"
proof -
  from y obtain regs regs' where t: "own_stack k regs" "reg_eax regs = IDLE" "trap regs k = Inr (regs', k')"
    by (auto elim: yields.cases)
  obtain A where A: "wf_run k A" "isolated k" "running k = r" "A ReadyQ = q" "prio k = pr"
    using s by (auto simp: schedules_def)
  have "request_of (reg_eax regs) = Yield" using t(2) by (simp add: request_of_def)
  then obtain B where "wf_run k' B" "isolated k'" "(running k', B ReadyQ) = (r', q')" "prio k' = pr"
    using trap_simulates[OF A(1,2) t(1)] t(3) A(3-5) q by auto
  then show ?thesis by (auto simp: schedules_def)
qed

lemma sched_yield_Some:
  assumes "schedules k (Some c) (h # t) pr"
  shows "sched pr Yield (Some c, h # t) = (Some h, ins_ready pr c t)" "c \<notin> set (h # t)"
    "sorted (map pr (h # t))" "distinct (h # t)"
proof -
  obtain A where A: "wf_run k A" "running k = Some c" "A ReadyQ = h # t" "prio k = pr"
    using assms by (auto simp: schedules_def)
  then have "curProc k = c" "c \<noteq> NULL" by (auto simp: running_def split: if_splits)
  then have "\<not> queued A c" "wf k A" using A(1) by (auto simp: wf_run_def running_ok_def)
  then show "c \<notin> set (h # t)" "sorted (map pr (h # t))" "distinct (h # t)"
    using A(3,4) repD(4,6)[OF wfD(1)] unfolding queued_def prio_eq by (metis)+
qed simp

text \<open>Among processes of one priority the ready queue is served in turn.\<close>

lemma ins_ready_lowest: "\<forall>x\<in>set t. pr x \<le> pr c \<Longrightarrow> ins_ready pr c t = t @ [c]"
  by (simp add: ins_ready_def)

lemma ins_ready_highest: "\<forall>x\<in>set t. pr c < pr x \<Longrightarrow> ins_ready pr c t = c # t"
  by (cases t) (auto simp: ins_ready_def)

lemma schedules_running: "schedules k r q pr \<Longrightarrow> running k = r"
  by (auto simp: schedules_def)

lemma yields_rotate:
  assumes "(yields ^^ n) k k'" and "schedules k (Some c) q pr" and "q \<noteq> []"
    and "\<forall>x\<in>set (c # q). pr x = v"
  shows "\<exists>c' q'. schedules k' (Some c') q' pr \<and> c' # q' = rotate n (c # q)"
  using assms(1)
proof (induction n arbitrary: k')
  case 0
  then show ?case using assms(2) by auto
next
  case (Suc n)
  then obtain k1 where k1: "(yields ^^ n) k k1" "yields k1 k'" by auto
  obtain c1 q1 where s1: "schedules k1 (Some c1) q1 pr" "c1 # q1 = rotate n (c # q)"
    using Suc.IH[OF k1(1)] by blast
  have "length (c1 # q1) = length (c # q)" and st: "set (c1 # q1) = set (c # q)" unfolding s1(2) by simp_all
  then obtain h t where q1: "q1 = h # t" using assms(3) by (cases q1) auto
  have all: "\<forall>x\<in>set (c1 # q1). pr x = v" unfolding st by (rule assms(4))
  have "ins_ready pr c1 t = t @ [c1]" using all q1 by (intro ins_ready_lowest) simp
  then have "(Some h, t @ [c1]) = sched pr Yield (Some c1, q1)" using q1 by simp
  then have "schedules k' (Some h) (t @ [c1]) pr" by (rule yields_sched[OF k1(2) s1(1)])
  moreover have "h # t @ [c1] = rotate (Suc n) (c # q)" using s1(2)[symmetric] q1 by simp
  ultimately show ?case by blast
qed

lemma yields_pair:
  assumes "(yields ^^ n) k k'" and "schedules k (Some c) (h # t) pr"
    and "\<forall>x\<in>set t. pr c < pr x \<and> pr h < pr x"
  shows "schedules k' (Some c) (h # t) pr \<or> schedules k' (Some h) (c # t) pr"
  using assms(1)
proof (induction n arbitrary: k')
  case 0
  then show ?case using assms(2) by auto
next
  case (Suc n)
  then obtain k1 where k1: "(yields ^^ n) k k1" "yields k1 k'" by auto
  have "sched pr Yield (Some c, h # t) = (Some h, c # t)" "sched pr Yield (Some h, c # t) = (Some c, h # t)"
    using assms(3) ins_ready_highest[of t pr] by auto
  then show ?case using Suc.IH[OF k1(1)] yields_sched[OF k1(2)] by metis
qed

text \<open>A running process can always yield, for instance with its stack empty.\<close>

lemma yields_total:
  assumes s: "schedules k (Some c) q pr"
  shows "\<exists>k'. yields k k'"
proof -
  obtain A where A: "wf_run k A" "isolated k" "running k = Some c" using s by (auto simp: schedules_def)
  then have c: "curProc k = c" "c \<noteq> NULL" by (auto simp: running_def split: if_splits)
  then obtain p where "pcbs (pcbq k) c = Some p"
    using A(1) by (auto simp: wf_run_def running_ok_def home_of_def)
  then have "frame_in c (contextPtr p)" using A(2) by (auto simp: isolated_def)
  then have own: "own_stack k (zero_context\<lparr>reg_eax := IDLE, reg_esp := contextPtr p + 60\<rparr>)"
    using c by (simp add: own_stack_def)
  obtain regs' k' where "trap (zero_context\<lparr>reg_eax := IDLE, reg_esp := contextPtr p + 60\<rparr>) k = Inr (regs', k')"
    using trap_simulates[OF A(1,2) own] by blast
  then show ?thesis using yields.intros[OF _ own] c by (intro exI) simp
qed

lemma yields_runs:
  assumes "schedules k (Some c) q pr"
  shows "\<exists>k'. (yields ^^ n) k k'"
proof -
  have "\<exists>k' c' q'. (yields ^^ n) k k' \<and> schedules k' (Some c') q' pr"
  proof (induction n)
    case 0
    then show ?case using assms by auto
  next
    case (Suc n)
    then obtain k1 c1 q1 where k1: "(yields ^^ n) k k1" "schedules k1 (Some c1) q1 pr" by blast
    then obtain k' where "yields k1 k'" using yields_total by blast
    moreover have "\<exists>c' q'. (Some c', q') = sched pr Yield (Some c1, q1)" by (cases q1) auto
    ultimately show ?case using k1 yields_sched by (metis relpowp_Suc_I)
  qed
  then show ?thesis by blast
qed

section \<open>Properties\<close>

text \<open>Property C1. A software interrupt of a process (or, before the first dispatch, of
  \<open>kmain\<close>) always returns to some process, keeps the invariants of the queues, frames and
  stacks, and changes the running process and the ready queue exactly as the scheduler of
  lists does for the request in eax; the other queues and all priorities stay.\<close>

theorem trap_refines_scheduler:
  assumes "wf_run k A" and "isolated k" and "own_stack k regs"
  shows "\<exists>regs' k' B. trap regs k = Inr (regs', k') \<and> wf_run k' B \<and> isolated k' \<and>
    (running k', B ReadyQ) = sched (prio k) (request_of (reg_eax regs)) (running k, A ReadyQ) \<and>
    (\<forall>q. q \<noteq> ReadyQ \<longrightarrow> B q = A q) \<and> prio k' = prio k"
  by (rule trap_simulates[OF assms])

text \<open>Property C2. The context switch of a yield: the first ready process continues with
  exactly the registers it saved, the one that yields has saved its registers with -1 in eax
  (the result of the request) and stands in the ready queue behind those of its priority, and
  no other process's saved registers change.\<close>

theorem yield_switches_context:
  assumes "wf_run k A" and "isolated k" and "own_stack k regs" and "reg_eax regs = IDLE"
    and "curProc k \<noteq> NULL" and "A ReadyQ = h # t"
  shows "\<exists>regs' k'. trap regs k = Inr (regs', k') \<and> saved_regs k h = Some regs' \<and>
    saved_regs k' (curProc k) = Some (regs\<lparr>reg_eax := -1\<rparr>) \<and>
    (\<forall>b. b \<noteq> curProc k \<longrightarrow> saved_regs k' b = saved_regs k b) \<and>
    curProc k' = h \<and> wf_run k' (A(ReadyQ := ins_ready (prio k) (curProc k) t))"
  by (rule trap_yield[OF assms])

text \<open>Property C3. Round robin: when the running process and the ready ones have one
  priority, the n-th yield gives the processor to the n-th of them in turn, so each runs
  within as many yields as processes are ready, and such a run of yields exists.\<close>

theorem round_robin:
  assumes "schedules k (Some c) q pr" and "q \<noteq> []" and "\<forall>x\<in>set (c # q). pr x = v"
  shows "(\<exists>k'. (yields ^^ n) k k') \<and>
    (\<forall>k'. (yields ^^ n) k k' \<longrightarrow> running k' = Some ((c # q) ! (n mod length (c # q))))"
proof (intro conjI allI impI)
  show "\<exists>k'. (yields ^^ n) k k'" by (rule yields_runs[OF assms(1)])
  fix k' assume "(yields ^^ n) k k'"
  then obtain c' q' where s: "schedules k' (Some c') q' pr" "c' # q' = rotate n (c # q)"
    using yields_rotate[OF _ assms] by blast
  have "c' = hd (rotate n (c # q))" by (simp flip: s(2))
  also have "\<dots> = (c # q) ! (n mod length (c # q))" by (rule hd_rotate_conv_nth) simp
  finally show "running k' = Some ((c # q) ! (n mod length (c # q)))"
    using schedules_running[OF s(1)] by simp
qed

text \<open>Property C24. Starvation: as long as two processes of higher priority than all others
  do nothing but yield, only these two run, and the ready queue behind them does not change.\<close>

theorem two_starve_the_rest:
  assumes "schedules k (Some c) (h # t) pr" and "\<forall>x\<in>set t. pr c < pr x \<and> pr h < pr x"
    and "(yields ^^ n) k k'"
  shows "curProc k' \<in> {c, h} \<and> (\<exists>x. schedules k' (Some (curProc k')) (x # t) pr)"
proof -
  have "running k' = Some r \<Longrightarrow> curProc k' = r" for r by (auto simp: running_def split: if_splits)
  then show ?thesis using yields_pair[OF assms(3,1,2)] schedules_running by blast
qed

text \<open>Property C30. A yield with nobody ready does not come back to the process: the processor
  goes to the frame of the system (where \<open>kmain\<close> goes on to shut down), and what the process
  had in its registers is not recorded in its PCB.\<close>

theorem yield_with_nobody_ready:
  assumes "wf_run k A" and "isolated k" and "own_stack k regs" and "reg_eax regs = IDLE"
    and "curProc k \<noteq> NULL" and "A ReadyQ = []"
  shows "\<exists>x k'. contexts k (sysStackPtr k) = Some x \<and>
    trap regs k = Inr (x\<lparr>reg_esp := sysStackPtr k + 60\<rparr>, k') \<and>
    curProc k' = curProc k \<and> pcbq k' = pcbq k"
proof -
  obtain ctx k1 where "pushed A regs k ctx k1" by (rule push_frame_ok[OF assms(1-3)])
  note k1 = pushedD[OF this] and sel = pushed_sel[OF this]
  have sys: "sysStackPtr k \<noteq> NULL" "\<exists>x. contexts k (sysStackPtr k) = Some x"
    using assms(1,5) by (auto simp: wf_run_def running_ok_def)
  then obtain x where x: "contexts k (sysStackPtr k) = Some x" by blast
  have "contexts k1 (sysStackPtr k) = contexts k (sysStackPtr k)" and ne: "sysStackPtr k \<noteq> ctx"
    using sys_frame_kept[OF assms(1-3,5)] k1(1,2) by auto
  then have "contexts k1 (sysStackPtr k) = Some x" using x by simp
  moreover have "sys_call ctx k1 = Inr (sysStackPtr k, k1\<lparr>sysStackPtr := sysStackPtr k,
      contexts := (contexts k1)(ctx \<mapsto> regs\<lparr>reg_esp := reg_esp regs - 12, reg_eax := -1\<rparr>)\<rparr>)"
    using sys_call_idle_none[of k1 A ctx] k1(3,5,6) assms(4-6) by (simp add: wf_run_def sel)
  ultimately have "trap regs k = Inr (x\<lparr>reg_esp := sysStackPtr k + 60\<rparr>, k1\<lparr>sysStackPtr := sysStackPtr k,
      contexts := (contexts k1)(ctx \<mapsto> regs\<lparr>reg_esp := reg_esp regs - 12, reg_eax := -1\<rparr>)\<rparr>)"
    using sys(1) ne by (simp add: trap_def k1(1) pop_frame_def load_context_def)
  moreover have "curProc (k1\<lparr>sysStackPtr := a, contexts := f\<rparr>) = curProc k"
    "pcbq (k1\<lparr>sysStackPtr := a, contexts := f\<rparr>) = pcbq k" for a f using sel by simp_all
  ultimately show ?thesis using x by blast
qed

end
