(* ===== verification/NumText.thy ===== *)
theory NumText
  imports CStrings
begin

text \<open>
  Number formatting: \<open>itoa\<close> of \<^verbatim>\<open>kernel/itoa.c\<close> and \<open>itoBCD\<close> of
  \<^verbatim>\<open>kernel/itoBCD.c\<close>. Both fill a caller's buffer; a buffer that is too short
  is \<open>OutOfBounds\<close>. The lemmas give the exact text written, the space it needs, and the
  round trip through \<open>atoi\<close>.
\<close>

section \<open>kernel/itoa.c\<close>

text \<open>The loop that counts the highest power of ten.\<close>

function itoa_power :: "int \<Rightarrow> nat \<Rightarrow> nat" where
  "itoa_power numLeft maxPower =
     (if 1 < numLeft
      then let numLeft = cdiv numLeft 10
           in if numLeft < 1 then maxPower else itoa_power numLeft (maxPower + 1)
      else maxPower)"
  by pat_completeness auto
termination
  by (relation "measure (\<lambda>(n, p). nat n)") auto

declare itoa_power.simps [simp del]

definition ten_to_the :: "nat \<Rightarrow> int c" where
  "ten_to_the p = foldE (\<lambda>j t. i32 (t * 10)) [0..<p] 1"

text \<open>One round of the loops that write a digit: position \<open>pos\<close>, power \<open>p\<close>.\<close>

definition itoa_digit :: "nat \<Rightarrow> nat \<Rightarrow> cbuf \<times> int \<Rightarrow> (cbuf \<times> int) c" where
  "itoa_digit pos p s =
     (case s of (buffer, numLeft) \<Rightarrow>
       bindE (ten_to_the p) (\<lambda>tenToThePower.
         let numToChar = cdiv numLeft tenToThePower
         in bindE (put buffer pos (to_char (numToChar + 48))) (\<lambda>buffer.
            bindE (i32 (numToChar * tenToThePower)) (\<lambda>m.
            bindE (i32 (numLeft - m)) (\<lambda>numLeft. Inr (buffer, numLeft))))))"

definition itoa :: "int \<Rightarrow> cbuf \<Rightarrow> cbuf c" where
  "itoa num buffer =
     bindE (if num < 0 then i32 (-1 * num) else Inr num) (\<lambda>numLeft.
       let maxPower = itoa_power numLeft 0
       in if num < 0
          then bindE (put buffer 0 (CHR ''-'')) (\<lambda>buffer.
               bindE (foldE (\<lambda>i. itoa_digit i (maxPower + 1 - i)) [1..<maxPower + 2] (buffer, numLeft))
               (\<lambda>(buffer, _). put buffer (maxPower + 2) NUL))
          else bindE (foldE (\<lambda>i. itoa_digit i (maxPower - i)) [0..<maxPower + 1] (buffer, numLeft))
               (\<lambda>(buffer, _). put buffer (maxPower + 1) NUL))"

section \<open>kernel/itoBCD.c\<close>

function bcd_power :: "int \<Rightarrow> nat \<Rightarrow> nat" where
  "bcd_power numLeft pw =
     (if 0 < numLeft then bcd_power (cdiv numLeft 10) (pw + 1) else pw)"
  by pat_completeness auto
termination
  by (relation "measure (\<lambda>(n, p). nat n)") auto

declare bcd_power.simps [simp del]

text \<open>The chain of comparisons that picks the four characters; \<open>BCDval\<close> keeps its
  previous content when no case applies.\<close>

definition bcd_chars :: "int \<Rightarrow> string \<Rightarrow> string" where
  "bcd_chars numTo BCDval =
     (if numTo = 1 then ''0001''
      else if numTo = 2 then ''0010''
      else if numTo = 3 then ''0011''
      else if numTo = 4 then ''0100''
      else if numTo = 5 then ''0101''
      else if numTo = 6 then ''0110''
      else if numTo = 7 then ''0111''
      else if numTo = 8 then ''1000''
      else if numTo = 9 then ''1001''
      else if numTo = 0 then ''0000''
      else BCDval)"

definition bcd_round :: "nat \<Rightarrow> nat \<Rightarrow> cbuf \<times> int \<times> string \<Rightarrow> (cbuf \<times> int \<times> string) c" where
  "bcd_round pw count s =
     (case s of (buffer, numLeft, BCDval) \<Rightarrow>
       let numTo = numLeft
       in bindE (ten_to_the (pw - count - 1)) (\<lambda>tenToThe.
          let numLeft = cmod numLeft tenToThe;
              numTo = cdiv (numTo - numLeft) tenToThe;
              BCDval = bcd_chars numTo BCDval
          in bindE (foldE (\<lambda>j buffer. bindE (peek BCDval j) (put buffer (j + 4 * count))) [0..<4] buffer)
             (\<lambda>buffer. Inr (buffer, numLeft, BCDval))))"

text \<open>\<open>BCDval0\<close> is the unspecified initial content of the local array.\<close>

definition itoBCD :: "string \<Rightarrow> int \<Rightarrow> cbuf \<Rightarrow> cbuf c" where
  "itoBCD BCDval0 num buffer =
     (let pw = bcd_power num 0
      in bindE (foldE (bcd_round pw) [0..<pw] (buffer, num, BCDval0))
         (\<lambda>(buffer, _, _). put buffer (4 * pw) NUL))"

section \<open>Decimal digits\<close>

fun dec :: "nat \<Rightarrow> nat list" where
  "dec n = (if n < 10 then [n] else dec (n div 10) @ [n mod 10])"

declare dec.simps [simp del]

definition show_nat :: "nat \<Rightarrow> string" where
  "show_nat n = map digit_char (dec n)"

definition show_int :: "int \<Rightarrow> string" where
  "show_int n = (if n < 0 then CHR ''-'' # show_nat (nat (- n)) else show_nat (nat n))"

text \<open>The last \<open>k\<close> decimal digits of \<open>n\<close>, the highest first.\<close>

definition digs :: "nat \<Rightarrow> nat \<Rightarrow> nat list" where
  "digs k n = map (\<lambda>i. n div 10 ^ (k - 1 - i) mod 10) [0..<k]"

lemma length_digs [simp]: "length (digs k n) = k"
  by (simp add: digs_def)

lemma digs_Suc: "digs (Suc k) n = digs k (n div 10) @ [n mod 10]"
proof -
  have "n div 10 ^ (k - i) mod 10 = n div 10 div 10 ^ (k - 1 - i) mod 10" if "i < k" for i
  proof -
    have "10 ^ (k - i) = (10::nat) * 10 ^ (k - 1 - i)"
      using that by (metis Suc_diff_Suc diff_Suc_eq_diff_pred diff_commute power_Suc)
    then show ?thesis by (simp add: div_mult2_eq)
  qed
  then show ?thesis by (simp add: digs_def)
qed

lemma dec_not_Nil [simp]: "dec n \<noteq> []"
  by (subst dec.simps) simp

lemma dec_lt_10: "d \<in> set (dec n) \<Longrightarrow> d < 10"
proof (induction n rule: dec.induct)
  case (1 n)
  then show ?case by (subst (asm) (2) dec.simps) (auto split: if_splits)
qed

lemma digits_value_dec [simp]: "digits_value (dec n) = n"
proof (induction n rule: dec.induct)
  case (1 n)
  show ?case
  proof (cases "n < 10")
    case True
    then show ?thesis by (subst dec.simps) (simp add: digits_value_def)
  next
    case False
    then show ?thesis using 1 by (subst dec.simps) simp
  qed
qed

lemma digs_eq_dec: "n < 10 ^ Suc k \<Longrightarrow> k = 0 \<or> 10 ^ k \<le> n \<Longrightarrow> digs (Suc k) n = dec n"
proof (induction k arbitrary: n)
  case 0
  then show ?case by (subst dec.simps) (simp add: digs_def)
next
  case (Suc k)
  then have ge: "10 * 10 ^ k \<le> n" by simp
  then have k10: "10 ^ k \<le> n div 10" by (simp add: less_eq_div_iff_mult_less_eq mult.commute)
  have "n div 10 < 10 ^ Suc k" using Suc.prems(1) by (simp add: div_less_iff_less_mult mult.commute)
  then have "digs (Suc k) (n div 10) = dec (n div 10)"
    using k10 by (intro Suc.IH) auto
  moreover have "10 \<le> n" using ge by (metis le_trans mult_le_mono2 nat_mult_1_right one_le_numeral one_le_power)
  ultimately show ?case
    by (simp add: digs_Suc[of "Suc k"] dec.simps[of n])
qed

lemma length_dec_le: "n < 10 ^ Suc k \<Longrightarrow> length (dec n) \<le> Suc k"
proof (induction k arbitrary: n)
  case 0
  then show ?case by (subst dec.simps) simp
next
  case (Suc k)
  have "n div 10 < 10 ^ Suc k" using Suc.prems by (simp add: div_less_iff_less_mult mult.commute)
  then show ?case using Suc.IH by (subst dec.simps) auto
qed

section \<open>itoa writes the decimal text\<close>

lemma ten_to_the_spec: "p \<le> 9 \<Longrightarrow> ten_to_the p = Inr (10 ^ p)"
proof (induction p)
  case 0
  then show ?case by (simp add: ten_to_the_def)
next
  case (Suc p)
  have "(10::int) ^ Suc p \<le> 10 ^ 9" using Suc.prems by (intro power_increasing) auto
  then have "(10::int) ^ p * 10 \<le> 1000000000" by simp
  then have "i32 ((10::int) ^ p * 10) = Inr (10 ^ p * 10)"
    by (intro i32_in_range) (auto intro: order_trans[of _ 0])
  with Suc show ?case by (simp add: ten_to_the_def foldE_append mult.commute)
qed

lemma itoa_power_spec:
  "0 \<le> n \<Longrightarrow> \<exists>k. itoa_power n p = p + k \<and> nat n < 10 ^ Suc k \<and> (k = 0 \<or> 10 ^ k \<le> nat n)"
proof (induction n p rule: itoa_power.induct)
  case (1 n p)
  show ?case
  proof (cases "1 < n \<and> \<not> n div 10 < 1")
    case True
    then obtain k where k: "itoa_power (n div 10) (p + 1) = p + 1 + k"
      "nat (n div 10) < 10 ^ Suc k" "k = 0 \<or> 10 ^ k \<le> nat (n div 10)"
      using 1 by auto
    have q: "nat (n div 10) = nat n div 10" using True by (simp add: nat_div_distrib)
    have "1 \<le> nat n div 10" using True q by linarith
    then have "10 ^ k \<le> nat n div 10" using k(3) q by auto
    then have "10 ^ Suc k \<le> nat n" by (simp add: less_eq_div_iff_mult_less_eq mult.commute)
    moreover have "nat n < 10 ^ Suc (Suc k)"
      using k(2) q by (simp add: div_less_iff_less_mult mult.commute)
    moreover have "itoa_power n p = p + Suc k"
      using True k(1) by (subst itoa_power.simps) simp
    ultimately show ?thesis by blast
  next
    case False
    then have "nat n < 10" using 1 by auto
    moreover have "itoa_power n p = p" using False 1 by (subst itoa_power.simps) auto
    ultimately show ?thesis by (intro exI[of _ 0]) auto
  qed
qed

lemma i32_of_nat: "n \<le> 2147483647 \<Longrightarrow> i32 (int n) = Inr (int n)"
  by (simp add: i32_def)

lemma itoa_digit_spec:
  assumes "p \<le> 9" and "pos < length buf" and "n \<le> 2147483647"
  shows "itoa_digit pos p (buf, int n) =
    Inr (buf[pos := digit_char (n div 10 ^ p)], int (n mod 10 ^ p))"
proof -
  let ?d = "n div 10 ^ p"
  have le: "?d * 10 ^ p \<le> n" by (rule div_times_less_eq_dividend)
  have q: "cdiv (int n) (10 ^ p) = int ?d" by (simp add: zdiv_int)
  have m: "i32 (int ?d * 10 ^ p) = Inr (int (?d * 10 ^ p))"
    using i32_of_nat[of "?d * 10 ^ p"] le assms(3) by simp
  have "int n - int (?d * 10 ^ p) = int (n mod 10 ^ p)"
    using le by (metis minus_div_mult_eq_mod of_nat_diff)
  moreover have "n mod 10 ^ p \<le> 2147483647"
    using assms(3) mod_less_eq_dividend order_trans by blast
  ultimately have r: "i32 (int n - int (?d * 10 ^ p)) = Inr (int (n mod 10 ^ p))"
    using i32_of_nat by metis
  have c: "to_char (int ?d + 48) = digit_char ?d" by (simp add: digit_char_def add.commute)
  show ?thesis
    unfolding itoa_digit_def Let_def prod.case ten_to_the_spec[OF assms(1)] bindE.simps q c
      put_in_range[OF assms(2)] m r ..
qed

lemma digs_rec: "digs (Suc k) n = (n div 10 ^ k mod 10) # digs k n"
proof -
  have "[0..<Suc k] = 0 # map Suc [0..<k]" by (simp add: upt_conv_Cons map_Suc_upt del: upt_Suc)
  then show ?thesis by (simp add: digs_def)
qed

lemma mod_div_digit: "n mod 10 ^ Suc j div 10 ^ j = n div 10 ^ j mod (10::nat)"
  by (simp add: mod_mult2_eq mult.commute[of 10] div_add1_eq)

lemma itoa_loop_spec:
  assumes "i \<le> k + 1" and "k \<le> 9" and "off + k < length buf" and "n \<le> 2147483647"
  shows "foldE (\<lambda>i. itoa_digit (off + i) (k - i)) [i..<k + 1] (buf, int (n mod 10 ^ (k + 1 - i))) =
    Inr (take (off + i) buf @ map digit_char (digs (k + 1 - i) n) @ drop (off + k + 1) buf, 0)"
  using assms
proof (induction "k + 1 - i" arbitrary: i buf)
  case 0
  then show ?case by (simp add: digs_def)
next
  case (Suc j)
  let ?m = "n mod 10 ^ Suc j"
  let ?b = "buf[off + i := digit_char (n div 10 ^ j mod 10)]"
  have i: "i \<le> k" and j: "k - i = j" "k + 1 - i = Suc j" "k + 1 - (i + 1) = j"
    and j2: "Suc k - i = Suc j" using Suc by auto
  have "?m \<le> 2147483647" using Suc.prems(4) mod_less_eq_dividend order_trans by blast
  then have "itoa_digit (off + i) (k - i) (buf, int ?m) =
      Inr (buf[off + i := digit_char (?m div 10 ^ j)], int (?m mod 10 ^ j))"
    unfolding j(1) using Suc.prems i j by (intro itoa_digit_spec) auto
  moreover have "?m mod 10 ^ j = n mod 10 ^ j" by (simp add: mod_mod_cancel)
  ultimately have step: "itoa_digit (off + i) (k - i) (buf, int ?m) = Inr (?b, int (n mod 10 ^ j))"
    by (simp only: mod_div_digit)
  have "foldE (\<lambda>i. itoa_digit (off + i) (k - i)) [i + 1..<k + 1] (?b, int (n mod 10 ^ (k + 1 - (i + 1)))) =
    Inr (take (off + (i + 1)) ?b @ map digit_char (digs (k + 1 - (i + 1)) n) @ drop (off + k + 1) ?b, 0)"
    using Suc.hyps(2) Suc.prems i by (intro Suc.hyps(1)) auto
  moreover have "take (off + (i + 1)) ?b = take (off + i) buf @ [digit_char (n div 10 ^ j mod 10)]"
    using Suc.prems(3) i by (simp add: take_Suc_conv_app_nth)
  moreover have "[i..<k + 1] = i # [i + 1..<k + 1]" using i by (simp add: upt_conv_Cons)
  ultimately show ?case using step i by (simp add: j j2 digs_rec del: upt_Suc)
qed

lemma itoa_nonneg:
  assumes "n \<le> 2147483647" and "length (dec n) < length buf"
  shows "itoa (int n) buf = Inr (show_nat n @ NUL # drop (length (dec n) + 1) buf)"
proof -
  obtain k where k: "itoa_power (int n) 0 = k" "n < 10 ^ Suc k" "k = 0 \<or> 10 ^ k \<le> n"
    using itoa_power_spec[of "int n" 0] by auto
  have "k \<le> 9"
  proof (rule ccontr)
    assume "\<not> k \<le> 9"
    then have "(10::nat) ^ 10 \<le> 10 ^ k" by (intro power_increasing) auto
    with k(3) assms(1) \<open>\<not> k \<le> 9\<close> show False by simp
  qed
  have d: "digs (Suc k) n = dec n" using digs_eq_dec[OF k(2,3)] .
  then have len: "length (dec n) = Suc k" by (metis length_digs)
  have "foldE (\<lambda>i. itoa_digit (0 + i) (k - i)) [0..<k + 1] (buf, int (n mod 10 ^ (k + 1 - 0))) =
    Inr (take (0 + 0) buf @ map digit_char (digs (k + 1 - 0) n) @ drop (0 + k + 1) buf, 0)"
    using assms len \<open>k \<le> 9\<close> by (intro itoa_loop_spec) auto
  then have "foldE (\<lambda>i. itoa_digit i (k - i)) [0..<k + 1] (buf, int n) =
    Inr (show_nat n @ drop (k + 1) buf, 0)"
    using k(2) d by (simp add: show_nat_def del: upt_Suc)
  moreover have "put (show_nat n @ drop (k + 1) buf) (k + 1) NUL = Inr (show_nat n @ NUL # drop (k + 2) buf)"
    using assms(2) len Cons_nth_drop_Suc[of "k + 1" buf]
    by (simp add: put_def show_nat_def list_update_append flip: Cons_nth_drop_Suc)
  ultimately show ?thesis
    by (simp add: itoa_def k(1) Let_def len del: upt_Suc)
qed

lemma foldE_map: "foldE f (map g xs) s = foldE (\<lambda>x. f (g x)) xs s"
  by (induction xs arbitrary: s) (auto intro!: bindE_cong)

lemma itoa_negative:
  assumes "0 < n" and "n \<le> 2147483647" and "length (dec n) + 1 < length buf"
  shows "itoa (- int n) buf = Inr (CHR ''-'' # show_nat n @ NUL # drop (length (dec n) + 2) buf)"
proof -
  obtain k where k: "itoa_power (int n) 0 = k" "n < 10 ^ Suc k" "k = 0 \<or> 10 ^ k \<le> n"
    using itoa_power_spec[of "int n" 0] by auto
  have "k \<le> 9"
  proof (rule ccontr)
    assume "\<not> k \<le> 9"
    then have "(10::nat) ^ 10 \<le> 10 ^ k" by (intro power_increasing) auto
    with k(3) assms(2) \<open>\<not> k \<le> 9\<close> show False by simp
  qed
  have d: "digs (Suc k) n = dec n" using digs_eq_dec[OF k(2,3)] .
  then have len: "length (dec n) = Suc k" by (metis length_digs)
  let ?b = "buf[0 := CHR ''-'']"
  have sh: "[1..<k + 2] = map Suc [0..<k + 1]" by (simp add: map_Suc_upt del: upt_Suc)
  have "foldE (\<lambda>i. itoa_digit (1 + i) (k - i)) [0..<k + 1] (?b, int (n mod 10 ^ (k + 1 - 0))) =
    Inr (take (1 + 0) ?b @ map digit_char (digs (k + 1 - 0) n) @ drop (1 + k + 1) ?b, 0)"
    using assms len \<open>k \<le> 9\<close> by (intro itoa_loop_spec) auto
  moreover have "take 1 ?b = [CHR ''-'']" using assms(3) by (cases buf) auto
  ultimately have "foldE (\<lambda>i. itoa_digit i (k + 1 - i)) [1..<k + 2] (?b, int n) =
    Inr (CHR ''-'' # show_nat n @ drop (k + 2) buf, 0)"
    unfolding sh foldE_map using k(2) d by (simp add: show_nat_def del: upt_Suc)
  moreover have "put (CHR ''-'' # show_nat n @ drop (k + 2) buf) (k + 2) NUL =
      Inr (CHR ''-'' # show_nat n @ NUL # drop (k + 3) buf)"
    using assms(3) len Cons_nth_drop_Suc[of "k + 2" buf]
    by (simp add: put_def show_nat_def list_update_append numeral_3_eq_3 flip: Cons_nth_drop_Suc)
  moreover have "0 < length buf" using assms(3) by linarith
  ultimately show ?thesis using assms(1,2)
    by (simp add: itoa_def k(1) Let_def len numeral_3_eq_3 del: upt_Suc)
qed

text \<open>The text \<open>itoa\<close> writes, for every \<open>int\<close> but the smallest.\<close>

lemma itoa_spec:
  assumes "- 2147483647 \<le> n" and "n \<le> 2147483647" and "length (show_int n) < length buf"
  shows "itoa n buf = Inr (show_int n @ NUL # drop (length (show_int n) + 1) buf)"
proof (cases "n < 0")
  case True
  then obtain m where m: "n = - int m" "0 < m" by (metis neg_less_0_iff_less of_nat_0_less_iff zless_iff_Suc_zadd int_cases2 neg_0_less_iff_less not_less_iff_gr_or_eq of_nat_less_0_iff)
  then show ?thesis using itoa_negative[of m buf] assms by (simp add: show_int_def show_nat_def)
next
  case False
  then obtain m where m: "n = int m" using nonneg_int_cases[of n] by auto
  then show ?thesis using itoa_nonneg[of m buf] assms by (simp add: show_int_def show_nat_def)
qed

lemma itoa_int_min: "itoa (- 2147483648) buf = Inl SignedOverflow"
  by (simp add: itoa_def i32_def)

lemma NUL_notin_show_int: "NUL \<notin> set (show_int n)"
proof -
  have "NUL \<notin> set (show_nat m)" for m
    using digit_char_not dec_lt_10 by (fastforce simp: show_nat_def)
  then show ?thesis by (simp add: show_int_def)
qed

section \<open>Round trip through atoi, and the space a number takes\<close>

lemma atoi_show_int:
  assumes "- 2147483647 \<le> n" and "n \<le> 2147483647"
  shows "atoi (show_int n @ NUL # r) = Inr n"
proof (cases "n < 0")
  case True
  then show ?thesis using assms atoi_negative[of "dec (nat (- n))" NUL r]
    by (auto simp: show_int_def show_nat_def dec_lt_10)
next
  case False
  then show ?thesis using assms atoi_unsigned[of "dec (nat n)" NUL r]
    by (auto simp: show_int_def show_nat_def dec_lt_10)
qed

lemma length_show_int_nonneg: "0 \<le> n \<Longrightarrow> n < 10 ^ Suc k \<Longrightarrow> length (show_int n) \<le> Suc k"
  using length_dec_le[of "nat n" k] by (simp add: show_int_def show_nat_def nat_less_iff)

lemma length_show_int_le_11:
  assumes "- 2147483647 \<le> n" and "n \<le> 2147483647"
  shows "length (show_int n) \<le> 11"
proof -
  have "length (dec m) \<le> 10" if "m \<le> 2147483647" for m
    using length_dec_le[of m 9] that by simp
  from this[of "nat n"] this[of "nat (- n)"] assms show ?thesis
    by (auto simp: show_int_def show_nat_def nat_le_iff)
qed

lemma show_int_small: "0 \<le> n \<Longrightarrow> n < 10 \<Longrightarrow> show_int n = [digit_char (nat n)]"
  by (simp add: show_int_def show_nat_def dec.simps)

section \<open>itoBCD writes the binary-coded digits\<close>

definition bcd4 :: "nat \<Rightarrow> string" where
  "bcd4 d = map (\<lambda>i. if odd (d div 2 ^ i) then CHR ''1'' else CHR ''0'') [3, 2, 1, 0]"

lemma bcd_chars_digit: "d < 10 \<Longrightarrow> bcd_chars (int d) v = bcd4 d"
proof -
  assume "d < 10"
  then have "d \<in> {0, 1, 2, 3, 4, 5, 6, 7, 8, 9}" by auto
  then show ?thesis by (auto simp: bcd_chars_def bcd4_def)
qed

lemma length_bcd4 [simp]: "length (bcd4 d) = 4"
  by (simp add: bcd4_def)

lemma bcd_power_spec:
  "0 \<le> n \<Longrightarrow> \<exists>k. bcd_power n p = p + k \<and> nat n < 10 ^ k \<and> (k = 0 \<or> 10 ^ (k - 1) \<le> nat n)"
proof (induction n p rule: bcd_power.induct)
  case (1 n p)
  show ?case
  proof (cases "0 < n")
    case True
    then have "0 \<le> n div 10" by simp
    with True obtain k where k: "bcd_power (n div 10) (p + 1) = p + 1 + k"
      "nat (n div 10) < 10 ^ k" "k = 0 \<or> 10 ^ (k - 1) \<le> nat (n div 10)"
      using "1.IH" [OF True] by (auto simp: add.assoc)
    have q: "nat (n div 10) = nat n div 10" using True by (simp add: nat_div_distrib)
    have "10 ^ k \<le> nat n"
    proof (cases k)
      case 0
      then show ?thesis using True by simp
    next
      case (Suc j)
      then show ?thesis using k(3) q by (simp add: less_eq_div_iff_mult_less_eq mult.commute)
    qed
    moreover have "nat n < 10 ^ Suc k" using k(2) q by (simp add: div_less_iff_less_mult mult.commute)
    moreover have "bcd_power n p = p + Suc k" using True k(1) by (subst bcd_power.simps) simp
    ultimately show ?thesis by (intro exI[of _ "Suc k"]) simp
  next
    case False
    then show ?thesis using 1 by (intro exI[of _ 0]) (subst bcd_power.simps, auto)
  qed
qed

lemma write4_spec:
  assumes "length v = 4" and "off + 4 \<le> length buf"
  shows "foldE (\<lambda>j buffer. bindE (peek v j) (put buffer (j + off))) [0..<4] buf =
    Inr (take off buf @ v @ drop (off + 4) buf)"
proof -
  obtain a b c' d where v: "v = [a, b, c', d]"
    using assms(1) by (auto simp: numeral_eq_Suc length_Suc_conv)
  have "foldE (\<lambda>j buffer. bindE (peek v j) (put buffer (j + off))) [0..<4] buf =
    Inr (buf[off := a, off + 1 := b, off + 2 := c', off + 3 := d])"
    using assms(2) by (simp add: v upt_rec[of _ 4] add.commute numeral_eq_Suc)
  moreover have "buf[off := a, off + 1 := b, off + 2 := c', off + 3 := d] = take off buf @ v @ drop (off + 4) buf"
  proof (rule nth_equalityI)
    fix i assume "i < length (buf[off := a, off + 1 := b, off + 2 := c', off + 3 := d])"
    then consider "i < off" | "i = off" | "i = off + 1" | "i = off + 2" | "i = off + 3" | "off + 4 \<le> i"
      by linarith
    then show "buf[off := a, off + 1 := b, off + 2 := c', off + 3 := d] ! i = (take off buf @ v @ drop (off + 4) buf) ! i"
      using assms(2) by cases (auto simp: v nth_append nth_list_update)
  qed (use assms(2) v in simp)
  ultimately show ?thesis by simp
qed

lemma bcd_round_spec:
  assumes "pw - count - 1 = j" and "j \<le> 9" and "4 * count + 4 \<le> length buf"
    and "n < 10 ^ Suc j" and "length v = 4"
  shows "bcd_round pw count (buf, int n, v) =
    Inr (take (4 * count) buf @ bcd4 (n div 10 ^ j) @ drop (4 * count + 4) buf, int (n mod 10 ^ j), bcd4 (n div 10 ^ j))"
proof -
  have d: "n div 10 ^ j < 10" using assms(4) by (simp add: div_less_iff_less_mult mult.commute)
  have m: "cmod (int n) (10 ^ j) = int (n mod 10 ^ j)" by (simp add: zmod_int)
  have "int n - int (n mod 10 ^ j) = int (n div 10 ^ j) * 10 ^ j"
    by (simp add: zdiv_int zmod_int minus_mod_eq_div_mult)
  then have q: "cdiv (int n - int (n mod 10 ^ j)) (10 ^ j) = int (n div 10 ^ j)" by simp
  show ?thesis
    unfolding bcd_round_def prod.case Let_def assms(1) ten_to_the_spec[OF assms(2)] bindE.simps m q
      bcd_chars_digit[OF d] write4_spec[OF length_bcd4 assms(3)] ..
qed

lemma bcd_loop_spec:
  assumes "i \<le> k" and "k \<le> 10" and "4 * k \<le> length buf" and "length v = 4"
  shows "\<exists>v'. foldE (bcd_round k) [i..<k] (buf, int (n mod 10 ^ (k - i)), v) =
    Inr (take (4 * i) buf @ concat (map bcd4 (digs (k - i) n)) @ drop (4 * k) buf, 0, v')"
  using assms
proof (induction "k - i" arbitrary: i buf v)
  case 0
  then show ?case by (simp add: digs_def)
next
  case (Suc j)
  let ?m = "n mod 10 ^ Suc j"
  let ?d = "bcd4 (n div 10 ^ j mod 10)"
  let ?b = "take (4 * i) buf @ ?d @ drop (4 * i + 4) buf"
  have i: "i < k" "k - i = Suc j" "k - i - 1 = j" "k - (i + 1) = j" "k - Suc i = j" using Suc by auto
  have "bcd_round k i (buf, int ?m, v) =
      Inr (take (4 * i) buf @ bcd4 (?m div 10 ^ j) @ drop (4 * i + 4) buf, int (?m mod 10 ^ j), bcd4 (?m div 10 ^ j))"
    using Suc.prems i by (intro bcd_round_spec) auto
  moreover have "?m mod 10 ^ j = n mod 10 ^ j" by (simp add: mod_mod_cancel)
  ultimately have step: "bcd_round k i (buf, int ?m, v) = Inr (?b, int (n mod 10 ^ j), ?d)"
    by (simp only: mod_div_digit)
  have "\<exists>v'. foldE (bcd_round k) [i + 1..<k] (?b, int (n mod 10 ^ (k - (i + 1))), ?d) =
    Inr (take (4 * (i + 1)) ?b @ concat (map bcd4 (digs (k - (i + 1)) n)) @ drop (4 * k) ?b, 0, v')"
    using Suc.prems i by (intro Suc.hyps(1)) auto
  then obtain v' where v': "foldE (bcd_round k) [i + 1..<k] (?b, int (n mod 10 ^ j), ?d) =
    Inr (take (4 * (i + 1)) ?b @ concat (map bcd4 (digs j n)) @ drop (4 * k) ?b, 0, v')"
    unfolding i(4) ..
  have tk: "take (4 * (i + 1)) ?b = take (4 * i) buf @ ?d" using Suc.prems i by (simp add: min_def)
  have "4 * i + 4 \<le> 4 * k" using i(1) by simp
  then have dr: "drop (4 * k) ?b = drop (4 * k) buf" using Suc.prems by (simp add: min_def)
  have up: "[i..<k] = i # [i + 1..<k]" using i by (simp add: upt_conv_Cons)
  have "foldE (bcd_round k) [i..<k] (buf, int (n mod 10 ^ (k - i)), v) =
      foldE (bcd_round k) [i + 1..<k] (?b, int (n mod 10 ^ j), ?d)"
    unfolding up foldE.simps i(2) step bindE.simps ..
  also have "\<dots> = Inr ((take (4 * i) buf @ ?d) @ concat (map bcd4 (digs j n)) @ drop (4 * k) buf, 0, v')"
    unfolding v' tk dr ..
  finally show ?case by (simp add: i digs_rec)
qed

lemma itoBCD_spec:
  assumes "0 < n" and "n \<le> 2147483647" and "4 * length (dec n) < length buf" and "length v = 4"
  shows "itoBCD v (int n) buf =
    Inr (concat (map bcd4 (dec n)) @ NUL # drop (4 * length (dec n) + 1) buf)"
proof -
  obtain k where k: "bcd_power (int n) 0 = k" "n < 10 ^ k" "k = 0 \<or> 10 ^ (k - 1) \<le> n"
    using bcd_power_spec[of "int n" 0] by auto
  obtain j where j: "k = Suc j" using k(2) assms(1) by (cases k) auto
  have "j \<le> 9"
  proof (rule ccontr)
    assume "\<not> j \<le> 9"
    then have "(10::nat) ^ 10 \<le> 10 ^ j" by (intro power_increasing) auto
    with k(3) assms(2) j show False by simp
  qed
  have d: "digs k n = dec n" using digs_eq_dec[of n j] k(2,3) j by auto
  then have len: "length (dec n) = k" by (metis length_digs)
  have "\<exists>v'. foldE (bcd_round k) [0..<k] (buf, int (n mod 10 ^ (k - 0)), v) =
    Inr (take (4 * 0) buf @ concat (map bcd4 (digs (k - 0) n)) @ drop (4 * k) buf, 0, v')"
    using assms len j \<open>j \<le> 9\<close> by (intro bcd_loop_spec) auto
  then obtain v' where "foldE (bcd_round k) [0..<k] (buf, int n, v) =
    Inr (concat (map bcd4 (dec n)) @ drop (4 * k) buf, 0, v')" using k(2) d by auto
  moreover have "length (concat (map bcd4 (dec n))) = 4 * k"
    using len by (simp add: length_concat comp_def sum_list_triv)
  ultimately show ?thesis
    using assms(3) len
    by (simp add: itoBCD_def k(1) Let_def put_def list_update_append flip: Cons_nth_drop_Suc)
qed

lemma itoBCD_nonpos: "n \<le> 0 \<Longrightarrow> buf \<noteq> [] \<Longrightarrow> itoBCD v n buf = Inr (NUL # tl buf)"
  by (cases buf) (simp_all add: itoBCD_def bcd_power.simps)

section \<open>Properties\<close>

text \<open>Property C28. \<open>itoa\<close> followed by \<open>atoi\<close> is the identity: for every \<open>int\<close> but the
  smallest, with a buffer of 12 bytes, \<open>itoa\<close> writes the decimal digits (with a minus sign)
  and a NUL, and \<open>atoi\<close> reads the number back; the smallest \<open>int\<close> overflows when it is
  negated.\<close>

theorem itoa_atoi:
  assumes "- 2147483648 \<le> n" and "n \<le> 2147483647" and "12 \<le> length buf"
  shows "if n = - 2147483648 then itoa n buf = Inl SignedOverflow
    else \<exists>buf'. itoa n buf = Inr buf' \<and> length buf' = length buf \<and>
      text_of buf' = show_int n \<and> atoi buf' = Inr n"
proof (cases "n = - 2147483648")
  case True
  then show ?thesis using itoa_int_min by simp
next
  case False
  then have n: "- 2147483647 \<le> n" using assms(1) by simp
  have len: "length (show_int n) < length buf" using length_show_int_le_11[OF n assms(2)] assms(3) by linarith
  let ?b = "show_int n @ NUL # drop (length (show_int n) + 1) buf"
  have "text_of ?b = show_int n" using text_of_take[of "show_int n" ?b] NUL_notin_show_int[of n] by simp
  then show ?thesis
    using False itoa_spec[OF n assms(2) len] atoi_show_int[OF n assms(2)] len by simp
qed

text \<open>\<open>itoBCD\<close> of a positive number writes four binary digits for each decimal
  digit, the most significant first, and a NUL; of 0 and of negative numbers it writes the
  empty string.\<close>

theorem itoBCD_digits:
  assumes "n \<le> 2147483647" and "4 * length (dec n) < length buf" and "length v = 4"
  shows "itoBCD v (int n) buf =
    (if n = 0 then Inr (NUL # tl buf)
     else Inr (concat (map bcd4 (dec n)) @ NUL # drop (4 * length (dec n) + 1) buf))"
proof (cases "n = 0")
  case True
  then show ?thesis using itoBCD_nonpos[of 0 buf v] assms(2) by (cases buf) auto
next
  case False
  then show ?thesis using itoBCD_spec[OF _ assms] by simp
qed

end
