(* ===== verification/PcbCommands.thy ===== *)
theory PcbCommands
  imports Scheduler NumText
begin

text \<open>
  The commands that change processes: \<^verbatim>\<open>user/pcb/block.c\<close>, \<^verbatim>\<open>user/pcb/ready.c\<close>
  (suspend and resume), \<^verbatim>\<open>user/pcb/setPriority.c\<close>, the live part of
  \<^verbatim>\<open>user/pcb/init.c\<close> (delete) and \<^verbatim>\<open>user/loadR3.c\<close>.

  A function takes the kernel state and returns it changed; what it prints goes to COM1.
  Messages are HOL strings; where the code writes a literal with a length of its own,
  \<open>kwrite\<close> sends that many bytes of the object (most lengths count the NUL).
  The arguments of a command are the rest of the input line; a pointer that the code compares
  with NULL is an option.
\<close>

definition deref :: "cptr \<Rightarrow> cbuf c" where
  "deref p = (case p of None \<Rightarrow> Inl NullDeref | Some s \<Rightarrow> Inr s)"

text \<open>\<open>args == NULL || *args == '\0'\<close>\<close>

definition no_args :: "cptr \<Rightarrow> bool c" where
  "no_args args =
     (case args of None \<Rightarrow> Inr True | Some s \<Rightarrow> bindE (peek s 0) (\<lambda>ch. Inr (ch = NUL)))"

definition args_are :: "cptr \<Rightarrow> string \<Rightarrow> bool c" where
  "args_are args str = bindE (deref args) (\<lambda>s. bindE (strcmp s (lit str)) (\<lambda>d. Inr (d = 0)))"

definition args_start :: "cptr \<Rightarrow> string \<Rightarrow> nat \<Rightarrow> bool c" where
  "args_start args str n =
     bindE (deref args) (\<lambda>s. bindE (strncmp s (lit str) n) (\<lambda>d. Inr (d = 0)))"

text \<open>On a C string the three tests are tests of its text.\<close>

lemma no_args_text: "terminated a \<Longrightarrow> no_args (Some a) = Inr (text_of a = [])"
  by (cases a) (auto simp: no_args_def)

lemma args_are_text:
  assumes "terminated a" and "NUL \<notin> set str"
  shows "args_are (Some a) str = Inr (text_of a = str)"
  using strcmp_terminated[OF assms(1) terminated_lit[of str]] assms(2)
  by (auto simp: args_are_def deref_def)

lemma args_start_text:
  assumes "terminated a" and "NUL \<notin> set str"
  shows "args_start (Some a) str n = Inr (take n (text_of a) = take n str)"
  using strncmp_terminated[OF assms(1) terminated_lit[of str], of n] assms(2)
  by (auto simp: args_start_def deref_def)

lemmas args_text = no_args_text args_are_text args_start_text

text \<open>\<open>strlen(name) < 1 || strlen(name) > PCB_NAME_MAX_LEN\<close>\<close>

definition bad_name :: "cbuf \<Rightarrow> bool c" where
  "bad_name nm = bindE (strlen nm) (\<lambda>n. Inr (n < 1 \<or> PCB_NAME_MAX_LEN < n))"

section \<open>Messages\<close>

definition show_pcb_help_text :: string where
  "show_pcb_help_text =
     CR # LF # ESC # ''[33mshow'' @ ESC # ''[0m [<'' @ ESC # ''[36mname'' @ ESC # ''[0m>|'' @
     ESC # ''[36mready'' @ ESC # ''[0m|'' @ ESC # ''[36mblocked'' @ ESC # ''[0m|'' @ ESC #
     ''[36msuspended'' @ ESC # ''[0m|'' @ ESC # ''[36mall'' @ ESC # ''[0m|'' @ ESC #
     ''[36mhelp'' @ ESC # ''[0m]'' @ CR # LF # ''  '' @ ESC # ''[33mshow'' @ ESC # ''[0m <'' @
     ESC # ''[36mname'' @ ESC # ''[0m>     prints details for the named process'' @ CR # LF #
     ''  '' @ ESC # ''[33mshow'' @ ESC # ''[0m '' @ ESC # ''[36mready'' @ ESC #
     ''[0m      prints details of processes in ready queue'' @ CR # LF # ''  '' @ ESC #
     ''[33mshow'' @ ESC # ''[0m '' @ ESC # ''[36mblocked'' @ ESC #
     ''[0m    prints details of processes in blocked queue'' @ CR # LF # ''  '' @ ESC #
     ''[33mshow'' @ ESC # ''[0m '' @ ESC # ''[36msuspended'' @ ESC #
     ''[0m  prints details of processes in the suspended queues'' @ CR # LF # ''  '' @ ESC #
     ''[33mshow'' @ ESC # ''[0m '' @ ESC # ''[36mall'' @ ESC #
     ''[0m        prints details of all processes'' @ CR # LF # ''  '' @ ESC # ''[33mshow'' @
     ESC # ''[0m '' @ ESC # ''[36mhelp'' @ ESC # ''[0m       prints this message'' @ CR # LF #
     CR # [LF]"

definition show_pcb_help :: "kernel \<Rightarrow> kernel c" where
  "show_pcb_help = say (lit show_pcb_help_text)"

definition block_help_text :: string where
  "block_help_text =
     CR # LF # ESC # ''[33mblock'' @ ESC # ''[0m [<'' @ ESC # ''[36mname'' @ ESC # ''[0m>|'' @
     ESC # ''[36mhelp'' @ ESC # ''[0m]'' @ CR # LF # ''  '' @ ESC # ''[33mblock'' @ ESC #
     ''[0m <'' @ ESC # ''[36mname'' @ ESC #
     ''[0m>      block the requested process with the given name (1-16 characters)'' @ CR #
     LF # ''  '' @ ESC # ''[33mblock'' @ ESC # ''[0m '' @ ESC # ''[36mhelp'' @ ESC #
     ''[0m        prints this message'' @ CR # LF # CR # [LF]"

definition block_help :: "kernel \<Rightarrow> kernel c" where
  "block_help = say (lit block_help_text)"

definition unblock_help_text :: string where
  "unblock_help_text =
     CR # LF # ESC # ''[33munblock'' @ ESC # ''[0m [<'' @ ESC # ''[36mname'' @ ESC #
     ''[0m>|'' @ ESC # ''[36mhelp'' @ ESC # ''[0m]'' @ CR # LF # ''  '' @ ESC #
     ''[33munblock'' @ ESC # ''[0m <'' @ ESC # ''[36mname'' @ ESC #
     ''[0m>      unblock the requested process with the given name (1-16 characters)'' @ CR #
     LF # ''  '' @ ESC # ''[33munblock'' @ ESC # ''[0m '' @ ESC # ''[36mhelp'' @ ESC #
     ''[0m        prints this message'' @ CR # LF # CR # [LF]"

definition unblock_help :: "kernel \<Rightarrow> kernel c" where
  "unblock_help = say (lit unblock_help_text)"

definition suspend_help_text :: string where
  "suspend_help_text =
     CR # LF # ESC # ''[33msuspend'' @ ESC # ''[0m [<'' @ ESC # ''[36mname'' @ ESC #
     ''[0m>|'' @ ESC # ''[36mhelp'' @ ESC # ''[0m]'' @ CR # LF # ''  '' @ ESC #
     ''[33msuspend'' @ ESC # ''[0m <'' @ ESC # ''[36mname'' @ ESC #
     ''[0m>    Puts a non-system process in the suspended state, and moves it to the appropriate queue.'' @
     CR # LF # ''  '' @ ESC # ''[33msuspend'' @ ESC # ''[0m '' @ ESC # ''[36mhelp'' @ ESC #
     ''[0m      prints this message'' @ CR # LF # CR # [LF]"

definition suspend_help :: "kernel \<Rightarrow> kernel c" where
  "suspend_help = say (lit suspend_help_text)"

definition resume_help_text :: string where
  "resume_help_text =
     CR # LF # ESC # ''[33mresume'' @ ESC # ''[0m [<'' @ ESC # ''[36mname'' @ ESC # ''[0m>|'' @
     ESC # ''[36mall'' @ ESC # ''[0m]|'' @ ESC # ''[36mhelp'' @ ESC # ''[0m]'' @ CR # LF #
     ''  '' @ ESC # ''[33mresume'' @ ESC # ''[0m <'' @ ESC # ''[36mname'' @ ESC #
     ''[0m>    Puts a process in the active (not suspended) state, and moves it to the appropriate queue.'' @
     CR # LF # ''  '' @ ESC # ''[33mresume'' @ ESC # ''[0m '' @ ESC # ''[36mall'' @ ESC #
     ''[0m      Puts all suspended processes in the ready state, and moves it to the appropriate queue.'' @
     CR # LF # ''  '' @ ESC # ''[33mresume'' @ ESC # ''[0m '' @ ESC # ''[36mhelp'' @ ESC #
     ''[0m      prints this message'' @ CR # LF # CR # [LF]"

definition resume_help :: "kernel \<Rightarrow> kernel c" where
  "resume_help = say (lit resume_help_text)"

definition set_priority_help_text :: string where
  "set_priority_help_text =
     CR # LF # ESC # ''[33mpriority set'' @ ESC # ''[0m [<'' @ ESC # ''[36mname'' @ ESC #
     ''[0m>|'' @ ESC # ''[36mhelp'' @ ESC # ''[0m] [<'' @ ESC # ''[36mpriority'' @ ESC #
     ''[0m>]'' @ CR # LF # ''  '' @ ESC # ''[33mpriority set'' @ ESC # ''[0m <'' @ ESC #
     ''[36mname'' @ ESC # ''[0m> <'' @ ESC # ''[36mpriority'' @ ESC #
     ''[0m>    sets the priority of a process to an integer priority value'' @ CR # LF #
     ''  '' @ ESC # ''[33mpriority set'' @ ESC # ''[0m '' @ ESC # ''[36mhelp'' @ ESC #
     ''[0m                 prints this message'' @ CR # LF # CR # [LF]"

definition set_priority_help :: "kernel \<Rightarrow> kernel c" where
  "set_priority_help = say (lit set_priority_help_text)"

definition create_help_text :: string where
  "create_help_text =
     CR # LF # ESC # ''[33mcreate'' @ ESC # ''[0m [<'' @ ESC # ''[36mname'' @ ESC # ''[0m>|'' @
     ESC # ''[36mhelp'' @ ESC # ''[0m] [<'' @ ESC # ''[36mclass'' @ ESC # ''[0m>] [<'' @ ESC #
     ''[36mpriority'' @ ESC # ''[0m>]'' @ CR # LF # ''  '' @ ESC # ''[33mcreate'' @ ESC #
     ''[0m <'' @ ESC # ''[36mname'' @ ESC # ''[0m> <'' @ ESC # ''[36mclass'' @ ESC #
     ''[0m> <'' @ ESC # ''[36mpriority'' @ ESC #
     ''[0m>    create a new process with the given:'' @ CR # LF #
     ''     name (1-16 characters)'' @ CR # LF # ''     class (0=system or 1=user)'' @ CR #
     LF # ''     priority (0=highest to 9=lowest)'' @ CR # LF # ''  '' @ ESC # ''[33mcreate'' @
     ESC # ''[0m '' @ ESC # ''[36mhelp'' @ ESC # ''[0m    prints this message'' @ CR # LF #
     CR # [LF]"

definition create_help :: "kernel \<Rightarrow> kernel c" where
  "create_help = say (lit create_help_text)"

definition delete_help_text :: string where
  "delete_help_text =
     CR # LF # ESC # ''[33mdelete'' @ ESC # ''[0m [<'' @ ESC # ''[36mname'' @ ESC # ''[0m>|'' @
     ESC # ''[36mhelp'' @ ESC # ''[0m]'' @ CR # LF # ''  '' @ ESC # ''[33mdelete'' @ ESC #
     ''[0m <'' @ ESC # ''[36mname'' @ ESC #
     ''[0m>    deletes the requested user process with the given name (1-16 characters)'' @
     CR # LF # ''  '' @ ESC # ''[33mdelete'' @ ESC # ''[0m '' @ ESC # ''[36mhelp'' @ ESC #
     ''[0m      prints this message'' @ CR # LF # CR # [LF]"

definition delete_help :: "kernel \<Rightarrow> kernel c" where
  "delete_help = say (lit delete_help_text)"

definition load_help_text :: string where
  "load_help_text =
     CR # LF # ESC # ''[33mload'' @ ESC # ''[0m [<'' @ ESC # ''[36mname'' @ ESC # ''[0m>|'' @
     ESC # ''[36mhelp'' @ ESC # ''[0m|'' @ ESC # ''[36msuspended'' @ ESC # ''[0m]'' @ CR # LF #
     ''  '' @ ESC # ''[33mload'' @ ESC # ''[0m            loads all 5 premade processes'' @
     CR # LF # ''  '' @ ESC # ''[33mload '' @ ESC # ''[0m<'' @ ESC # ''[36mname'' @ ESC #
     ''[0m>     loads a specific process, name is like 'proc1'' @ CHR 0x27 # CR # LF # ''  '' @
     ESC # ''[33mload '' @ ESC # ''[36msuspended  '' @ ESC #
     ''[0mloads all 5 processes as suspended'' @ CR # LF # ''  '' @ ESC # ''[33mload '' @ ESC #
     ''[36mhelp '' @ ESC # ''[0m      prints this message'' @ CR # [LF]"

definition load_help :: "kernel \<Rightarrow> kernel c" where
  "load_help = say (lit load_help_text)"

definition already_blocked_text :: string where
  "already_blocked_text =
     ESC # ''[31mProcess has already been blocked.'' @ ESC # ''[0m'' @ [LF]"

definition blocked_text :: string where
  "blocked_text =
     ESC # ''[36mProcess blocked successfully'' @ ESC # ''[0m'' @ [LF]"

definition already_unblocked_text :: string where
  "already_unblocked_text =
     ESC # ''[31mProcess has already been unblocked.'' @ ESC # ''[0m'' @ [LF]"

definition unblocked_text :: string where
  "unblocked_text =
     ESC # ''[36mProcess unblocked successfully'' @ ESC # ''[0m'' @ [LF]"

definition no_process_text :: string where
  "no_process_text =
     ESC # ''[31mInvalid Process: Given process does not exist'' @ ESC # ''[0m'' @ [LF]"

definition system_process_text :: string where
  "system_process_text =
     ESC # ''[31mInvalid Process: Given process is a kernel/system level process'' @ ESC #
     ''[0m'' @ [LF]"

definition bad_priority_text :: string where
  "bad_priority_text =
     ESC #
     ''[31mInvalid Priority: Priority level must be between 0 (Highest) and 9 (Lowest)'' @
     ESC # ''[0m'' @ [LF]"

definition deleted_text :: string where
  "deleted_text =
     ESC # ''[36mProcess deleted successfully'' @ ESC # ''[0m'' @ [LF]"

definition no_such_name_text :: string where
  "no_such_name_text =
     ESC # ''[31mInvalid Name: Given process does not exist'' @ ESC # ''[0m'' @ [LF]"

definition resuming_text :: string where
  "resuming_text =
     ESC # ''[32mResuming all Processes:'' @ ESC # ''[0m'' @ [LF]"

definition none_suspended_text :: string where
  "none_suspended_text =
     ''No processes in the suspended ready queue'' @ [LF]"

section \<open>user/pcb/block.c\<close>

text \<open>Take a process out of its queue, change it, and put it into the queue of its new
  state: the three statements the commands share.\<close>

definition move_pcb :: "addr \<Rightarrow> (pcb \<Rightarrow> pcb) \<Rightarrow> kernel \<Rightarrow> kernel c" where
  "move_pcb p f k =
     bindE (k_remove p k) (\<lambda>(_, k). bindE (modify_pcb p f k) (\<lambda>k. k_insert p k))"

definition block_pcb :: "cbuf \<Rightarrow> kernel \<Rightarrow> kernel c" where
  "block_pcb nm k =
     bindE (pcb_find (Some nm) (pcbq k)) (\<lambda>p.
     bindE (load p (pcbq k)) (\<lambda>r.
     if execution_state r = STATE_BLOCKED
     then kwrite (lit already_blocked_text) 44 k
     else bindE (bad_name nm) (\<lambda>bad.
       if bad then bindE (kwrite (lit (ESC #
                                       ''[31mInvalid Name: Given name must be 1-16 characters'' @
                                       ESC # ''[0m'' @ [LF])) 59 k) block_help
       else if p = NULL
       then bindE (kwrite (lit (ESC #
                                ''[31mCould not find process: use 'show' for list of processes'' @
                                ESC # ''[0m'' @ [LF])) 67 k) show_pcb_help
       else bindE (move_pcb p (\<lambda>r. r\<lparr>execution_state := STATE_BLOCKED\<rparr>) k)
              (kwrite (lit blocked_text) 39))))"

text \<open>A space anywhere in the arguments.\<close>

definition has_space :: "cbuf \<Rightarrow> bool c" where
  "has_space s = bindE (strlen s) (\<lambda>n. Inr (list_ex (\<lambda>i. s ! i = CHR '' '') [0..<n]))"

definition block_pcb_command :: "cptr \<Rightarrow> kernel \<Rightarrow> kernel c" where
  "block_pcb_command args k =
     bindE (bindE (deref args) has_space) (\<lambda>space.
     if space then bindE (kwrite (lit (ESC #
                                       ''[31mError: Please ensure a valid name is given'' @
                                       ESC # ''[0m'' @ [LF])) 47 k) block_help
     else bindE (no_args args) (\<lambda>none.
     if none then bindE (kwrite (lit (ESC # ''[31mError: Please ensure a name is given'' @
                                      ESC # ''[0m'' @ [LF])) 47 k) block_help
     else bindE (args_are args ''help'') (\<lambda>hlp.
     if hlp then block_help k
     else bindE (deref args) (\<lambda>nm. block_pcb nm k))))"

definition unblock_pcb :: "cbuf \<Rightarrow> kernel \<Rightarrow> kernel c" where
  "unblock_pcb nm k =
     bindE (pcb_find (Some nm) (pcbq k)) (\<lambda>p.
     bindE (load p (pcbq k)) (\<lambda>r.
     if execution_state r = STATE_READY
     then kwrite (lit already_unblocked_text) 46 k
     else bindE (bad_name nm) (\<lambda>bad.
       if bad then bindE (kwrite (lit (ESC #
                                       ''[31mInvalid Name: Given name must be 1-16 characters'' @
                                       ESC # ''[0m'' @ [LF])) 59 k) unblock_help
       else if p = NULL
       then bindE (kwrite (lit (ESC #
                                ''[31mCould not find process: use 'show' for list of processes'' @
                                ESC # ''[0m'' @ [LF])) 67 k) show_pcb_help
       else bindE (move_pcb p (\<lambda>r. r\<lparr>execution_state := STATE_READY\<rparr>) k)
              (kwrite (lit unblocked_text) 41))))"

definition unblock_pcb_command :: "cptr \<Rightarrow> kernel \<Rightarrow> kernel c" where
  "unblock_pcb_command args k =
     bindE (bindE (deref args) has_space) (\<lambda>space.
     if space then bindE (kwrite (lit (ESC #
                                       ''[31mError: Please ensure a valid name is given'' @
                                       ESC # ''[0m'' @ [LF])) 47 k) unblock_help
     else bindE (no_args args) (\<lambda>none.
     if none then bindE (kwrite (lit (ESC # ''[31mError: Please ensure a name is given'' @
                                      ESC # ''[0m'' @ [LF])) 47 k) unblock_help
     else bindE (args_are args ''help'') (\<lambda>hlp.
     if hlp then unblock_help k
     else bindE (deref args) (\<lambda>nm. unblock_pcb nm k))))"

section \<open>user/pcb/ready.c\<close>

definition empty_name :: "cptr \<Rightarrow> bool c" where
  "empty_name nm =
     (case nm of None \<Rightarrow> Inr True | Some s \<Rightarrow> bindE (strlen s) (\<lambda>n. Inr (n = 0)))"

text \<open>\<open>if (pcb_remove(p) != 0) return 1\<close>, the change, \<open>pcb_insert(p)\<close>, \<open>return 0\<close>.\<close>

definition redispatch :: "addr \<Rightarrow> dispatch_state \<Rightarrow> kernel \<Rightarrow> (int \<times> kernel) c" where
  "redispatch p d k =
     bindE (k_remove p k) (\<lambda>(r, k).
     if r \<noteq> 0 then Inr (1, k)
     else bindE (modify_pcb p (\<lambda>r. r\<lparr>dispatch_state := d\<rparr>) k) (\<lambda>k.
          bindE (k_insert p k) (\<lambda>k. Inr (0, k))))"

definition suspend_pcb :: "cptr \<Rightarrow> kernel \<Rightarrow> (int \<times> kernel) c" where
  "suspend_pcb nm k =
     bindE (empty_name nm) (\<lambda>none.
     if none then Inr (-1, k)
     else bindE (pcb_find nm (pcbq k)) (\<lambda>p.
       if p = NULL then Inr (-1, k)
       else bindE (load p (pcbq k)) (\<lambda>r.
         if process_class r = CLASS_SYSTEM then Inr (-2, k)
         else if dispatch_state r = DISPATCH_SUSPENDED then Inr (1, k)
         else redispatch p DISPATCH_SUSPENDED k)))"

definition suspend_command :: "cptr \<Rightarrow> kernel \<Rightarrow> kernel c" where
  "suspend_command args k =
     bindE (no_args args) (\<lambda>none.
     bindE (if none then Inr True else args_are args ''help'') (\<lambda>hlp.
     if hlp then suspend_help k
     else bindE (suspend_pcb args k) (\<lambda>(result, k).
       if result = -1 then bindE (say (lit (ESC #
                                            ''[31mInvalid process/name. Please try again.'' @
                                            ESC # ''[0m'' @ CR # [LF])) k) suspend_help
       else if result = -2 then say (lit (ESC #
                                          ''[31mProcess is a system process and cannot be suspended.'' @
                                          ESC # ''[0m'' @ CR # [LF])) k
       else if result = 1 then say (lit (ESC # ''[31mThe process is already suspended.'' @
                                         ESC # ''[0m'' @ CR # [LF])) k
       else if result = 0 then say (lit (ESC # ''[36mThe process has been suspended.'' @ ESC #
                                         ''[0m'' @ CR # [LF])) k
       else say (lit (ESC # ''[31mInvalid argument. Please try again.'' @ ESC # ''[0m'' @ CR #
                      [LF])) k)))"

definition resume_pcb :: "cptr \<Rightarrow> kernel \<Rightarrow> (int \<times> kernel) c" where
  "resume_pcb nm k =
     bindE (empty_name nm) (\<lambda>none.
     if none then Inr (-1, k)
     else bindE (pcb_find nm (pcbq k)) (\<lambda>p.
       if p = NULL then Inr (-1, k)
       else bindE (load p (pcbq k)) (\<lambda>r.
         if dispatch_state r = DISPATCH_ACTIVE then Inr (1, k)
         else redispatch p DISPATCH_ACTIVE k)))"

text \<open>The loop of \<open>resume all\<close> along the suspended-ready queue.\<close>

partial_function (option) resume_loop :: "addr \<Rightarrow> kernel \<Rightarrow> kernel c option" where
  "resume_loop curPtr k =
     (if curPtr = NULL then Some (Inr k)
      else case load curPtr (pcbq k) of
        Inl e \<Rightarrow> Some (Inl e)
      | Inr r \<Rightarrow>
          (case resume_pcb (Some (pname r)) k of
             Inl e \<Rightarrow> Some (Inl e)
           | Inr (_, k) \<Rightarrow> resume_loop (pnext r) k))"

definition resume_command :: "cptr \<Rightarrow> kernel \<Rightarrow> kernel c" where
  "resume_command args k =
     bindE (no_args args) (\<lambda>none.
     bindE (if none then Inr True else args_are args ''help'') (\<lambda>hlp.
     if hlp then resume_help k
     else bindE (args_are args ''all'') (\<lambda>all.
     if all then
       let curPtr = head (queues (pcbq k) SuspReadyQ)
       in if curPtr = NULL then kwrite (lit none_suspended_text) 42 k
          else bindE (say (lit resuming_text) k) (\<lambda>k.
               loop_result (resume_loop curPtr k))
     else bindE (resume_pcb args k) (\<lambda>(result, k).
       if result = -1 then bindE (say (lit (ESC #
                                            ''[31mInvalid process/name. Please try again.'' @
                                            ESC # ''[0m'' @ CR # [LF])) k) resume_help
       else if result = 1 then say (lit (ESC # ''[31mThe process is already active.'' @ ESC #
                                         ''[0m'' @ CR # [LF])) k
       else if result = 0 then say (lit (ESC # ''[36mThe process has been resumed.'' @ ESC #
                                         ''[0m'' @ CR # [LF])) k
       else say (lit (ESC # ''[31mInvalid argument. Please try again.'' @ ESC # ''[0m'' @ CR #
                      [LF])) k))))"

section \<open>user/pcb/setPriority.c\<close>

definition setPriority :: "cbuf \<Rightarrow> int \<Rightarrow> kernel \<Rightarrow> kernel c" where
  "setPriority nm newPriority k =
     bindE (pcb_find (Some nm) (pcbq k)) (\<lambda>p.
     if p = NULL then kwrite (lit no_process_text) 56 k
     else bindE (load p (pcbq k)) (\<lambda>r.
       if process_class r = CLASS_SYSTEM
       then kwrite (lit system_process_text) 74 k
       else if newPriority > 9 \<or> newPriority < 0
       then kwrite (lit bad_priority_text) 86 k
       else if newPriority \<le> 9 \<and> newPriority \<ge> 0
       then move_pcb p (\<lambda>r. r\<lparr>priority := newPriority\<rparr>) k
       else Inr k))"

text \<open>The first space that is not the first character, 0 if there is none.\<close>

definition split_index :: "cbuf \<Rightarrow> nat \<Rightarrow> nat" where
  "split_index s n =
     (case find (\<lambda>i. s ! i = CHR '' '' \<and> i \<noteq> 0) [0..<n] of Some i \<Rightarrow> i | None \<Rightarrow> 0)"

text \<open>The check of all characters of the number but the last.\<close>

definition not_number :: "cbuf \<Rightarrow> nat \<Rightarrow> bool" where
  "not_number s m =
     list_ex (\<lambda>i. (schar (s ! i) \<le> schar (CHR ''0'') \<or> schar (CHR ''9'') \<le> schar (s ! i)) \<and>
                  s ! i \<noteq> NUL \<and> s ! i \<noteq> CHR '' '') [0..<m - 1]"

definition set_priority_command :: "cptr \<Rightarrow> kernel \<Rightarrow> kernel c" where
  "set_priority_command args k =
     bindE (no_args args) (\<lambda>none.
     if none then bindE (kwrite (lit (ESC #
                                      ''[31mError: Please ensure a name and priority are given'' @
                                      ESC # ''[0m'' @ [LF])) 61 k) set_priority_help
     else bindE (args_are args ''help'') (\<lambda>hlp.
     if hlp then set_priority_help k
     else bindE (deref args) (\<lambda>s. bindE (strlen s) (\<lambda>n.
       let temp = split_index s n
       in if temp \<noteq> 0 then
            let nm = take temp s @ [NUL]; numArg = drop temp s
            in bindE (strlen numArg) (\<lambda>m.
               if not_number numArg m
               then bindE (kwrite (lit (ESC #
                                        ''[31mError: Please ensure the priority argument is a number'' @
                                        ESC # ''[0m'' @ [LF])) 64 k) set_priority_help
               else bindE (atoi numArg) (\<lambda>pr. setPriority nm pr k))
          else bindE (kwrite (lit (ESC #
                                   ''[31mError: Please ensure a name and priority are given'' @
                                   ESC # ''[0m'' @ [LF])) 61 k) set_priority_help))))"

section \<open>user/pcb/init.c\<close>

text \<open>\<open>create\<close> has lost its working part to a comment; it prints messages only.\<close>

definition create_pcb_command :: "cptr \<Rightarrow> kernel \<Rightarrow> kernel c" where
  "create_pcb_command args k =
     bindE (no_args args) (\<lambda>none.
     if none then bindE (kwrite (lit (ESC #
                                      ''[31mError: Please ensure a name, class, and priority are given'' @
                                      ESC # ''[0m'' @ [LF])) 69 k) create_help
     else bindE (args_are args ''help'') (\<lambda>hlp. if hlp then create_help k else Inr k))"

definition delete_pcb :: "cbuf \<Rightarrow> kernel \<Rightarrow> kernel c" where
  "delete_pcb nm k =
     bindE (pcb_find (Some nm) (pcbq k)) (\<lambda>p.
     if p = NULL then kwrite (lit no_such_name_text) 53 k
     else bindE (bad_name nm) (\<lambda>bad.
       if bad then bindE (kwrite (lit (ESC #
                                       ''[31mInvalid Name: Given name must be 1-16 characters'' @
                                       ESC # ''[0m'' @ [LF])) 59 k) delete_help
       else bindE (load p (pcbq k)) (\<lambda>r.
         if process_class r = CLASS_SYSTEM
         then kwrite (lit system_process_text) 74 k
         else bindE (k_remove p k) (\<lambda>(_, k).
              bindE (pcb_free p k) (\<lambda>(_, k).
              kwrite (lit deleted_text) 39 k)))))"

definition delete_pcb_command :: "cptr \<Rightarrow> kernel \<Rightarrow> kernel c" where
  "delete_pcb_command args k =
     bindE (no_args args) (\<lambda>none.
     if none then bindE (kwrite (lit (ESC # ''[31mError: Please ensure a name is given'' @
                                      ESC # ''[0m'' @ [LF])) 47 k) delete_help
     else bindE (args_are args ''help'') (\<lambda>hlp.
     if hlp then delete_help k
     else bindE (deref args) (\<lambda>nm. delete_pcb nm k)))"

section \<open>user/loadR3.c\<close>

text \<open>\<open>entry i\<close> is the address of the function \<open>proci\<close> of \<^verbatim>\<open>user/core.c\<close>.\<close>

definition load_proc :: "(nat \<Rightarrow> addr) \<Rightarrow> string \<Rightarrow> nat \<Rightarrow> kernel \<Rightarrow> kernel c" where
  "load_proc entry nm i k =
     bindE (pcb_setup (Some (lit nm)) CLASS_USER 1 (entry i) k) (\<lambda>(newProc, k). k_insert newProc k)"

definition loadR3 :: "(nat \<Rightarrow> addr) \<Rightarrow> kernel \<Rightarrow> kernel c" where
  "loadR3 entry k =
     bindE (load_proc entry ''proc1'' 1 k) (\<lambda>k.
     bindE (load_proc entry ''proc2'' 2 k) (\<lambda>k.
     bindE (load_proc entry ''proc3'' 3 k) (\<lambda>k.
     bindE (load_proc entry ''proc4'' 4 k) (\<lambda>k.
     load_proc entry ''proc5'' 5 k))))"

definition loadR3_suspended :: "(nat \<Rightarrow> addr) \<Rightarrow> kernel \<Rightarrow> kernel c" where
  "loadR3_suspended entry k =
     bindE (loadR3 entry k) (\<lambda>k.
     bindE (suspend_pcb (Some (lit ''proc1'')) k) (\<lambda>(_, k).
     bindE (suspend_pcb (Some (lit ''proc2'')) k) (\<lambda>(_, k).
     bindE (suspend_pcb (Some (lit ''proc3'')) k) (\<lambda>(_, k).
     bindE (suspend_pcb (Some (lit ''proc4'')) k) (\<lambda>(_, k).
     bindE (suspend_pcb (Some (lit ''proc5'')) k) (\<lambda>(_, k).
     Inr k))))))"

definition loadProcess :: "(nat \<Rightarrow> addr) \<Rightarrow> cptr \<Rightarrow> kernel \<Rightarrow> kernel c" where
  "loadProcess entry nm k =
     bindE (args_are nm ''proc1'') (\<lambda>b. if b then load_proc entry ''proc1'' 1 k else
     bindE (args_are nm ''proc2'') (\<lambda>b. if b then load_proc entry ''proc2'' 2 k else
     bindE (args_are nm ''proc3'') (\<lambda>b. if b then load_proc entry ''proc3'' 3 k else
     bindE (args_are nm ''proc4'') (\<lambda>b. if b then load_proc entry ''proc4'' 4 k else
     bindE (args_are nm ''proc5'') (\<lambda>b. if b then load_proc entry ''proc5'' 5 k else
     bindE (say (lit (ESC # ''[31mError: Please enter a valid process name, like 'proc1'' @
                      CHR 0x27 # ESC # ''[0m'' @ CR # [LF])) k) load_help)))))"

definition load_command :: "(nat \<Rightarrow> addr) \<Rightarrow> cptr \<Rightarrow> kernel \<Rightarrow> kernel c" where
  "load_command entry args k =
     bindE (no_args args) (\<lambda>none. if none then loadR3 entry k else
     bindE (args_start args ''suspended'' 9) (\<lambda>b. if b then loadR3_suspended entry k else
     bindE (args_start args ''help'' 4) (\<lambda>b. if b then load_help k else
     loadProcess entry args k)))"

section \<open>Moving a process\<close>

lemma kwrite_wf: "wf k A \<Longrightarrow> n \<le> length b \<Longrightarrow> kwrite b n k = Inr (emit (take n b) k)"
  by (rule kwrite_online[OF wfD(3)])

lemma length_lit [simp]: "length (lit s) = length s + 1"
  by (simp add: lit_def)

lemma pcb_find_unique:
  assumes wf: "wf k A" and nm: "terminated nm" and a: "a \<in> set (A q)" "name_of (pcbq k) a = text_of nm"
    and one: "\<And>b. queued A b \<Longrightarrow> name_of (pcbq k) b = text_of nm \<Longrightarrow> b = a"
  shows "pcb_find (Some nm) (pcbq k) = Inr a"
proof -
  have "queued A a" using a(1) by (auto simp: queued_def)
  then obtain b where "pcb_find (Some nm) (pcbq k) = Inr b" "queued A b" "name_of (pcbq k) b = text_of nm"
    using pcb_find_queued[OF wf nm _ a(2)] by blast
  then show ?thesis using one by simp
qed

definition with_changed :: "addr \<Rightarrow> pcb \<Rightarrow> pcb_state \<Rightarrow> pcb_state" where
  "with_changed a r s = s\<lparr>pcbs := (pcbs s)(a \<mapsto> r)\<rparr>"

lemma move_pcb_ok:
  assumes wf: "wf k A" and a: "a \<in> set (A q)" and r: "pcbs (pcbq k) a = Some r"
    and f: "\<And>x. unlinked x = unlinked r \<Longrightarrow> unlinked (f x) = unlinked (f r) \<and> pnext (f x) = pnext x \<and> pprev (f x) = pprev x"
    and fr: "pname (f r) = pname r" "0 \<le> priority (f r)" "priority (f r) \<le> 9" "contextPtr (f r) = contextPtr r"
      "select_queue (f r) = q'"
  defines "B \<equiv> A(q := remove1 a (A q))" and "t \<equiv> with_changed a (f r) (pcbq k)"
  shows "\<exists>s. move_pcb a f k = Inr (k\<lparr>pcbq := s\<rparr>) \<and> wf (k\<lparr>pcbq := s\<rparr>) (B(q' := place t a q' (B q'))) \<and> same_pcbs t s"
proof -
  obtain s1 where s1: "k_remove a k = Inr (0, k\<lparr>pcbq := s1\<rparr>)" "same_pcbs (pcbq k) s1" "wf (k\<lparr>pcbq := s1\<rparr>) B"
    "\<not> queued B a" and live: "\<And>p. pcbs s1 a = Some p \<Longrightarrow> live k (contextPtr p)"
    using k_remove_member[OF wf a] unfolding B_def by metis
  obtain r1 where r1: "pcbs s1 a = Some r1" "unlinked r1 = unlinked r" using same_pcbs_Some[OF s1(2) r] by metis
  have u: "unlinked (f r1) = unlinked (f r)" "pnext (f r1) = pnext r1" "pprev (f r1) = pprev r1" using f[OF r1(2)] by auto
  let ?t = "s1\<lparr>pcbs := (pcbs s1)(a \<mapsto> f r1)\<rparr>"
  have wr: "wf_pcb k a r" by (rule wf_pcbD[OF wf r])
  have w1: "wf_pcb (k\<lparr>pcbq := s1\<rparr>) a (f r1)"
    using wr fr unlinked_fields[OF u(1)] by (simp add: wf_pcb_def)
  have m: "modify_pcb a f (k\<lparr>pcbq := s1\<rparr>) = Inr (k\<lparr>pcbq := ?t\<rparr>)" "wf (k\<lparr>pcbq := ?t\<rparr>) B"
    using modify_detached[OF s1(3,4), of r1 f] r1(1) w1 u by simp_all
  have home: "home_of ?t a = Some q'" using unlinked_fields(9)[OF u(1)] fr(5) by (simp add: home_of_def)
  have cp: "live (k\<lparr>pcbq := ?t\<rparr>) (contextPtr p)" if "pcbs (pcbq (k\<lparr>pcbq := ?t\<rparr>)) a = Some p" for p
    using that live[OF r1(1)] unlinked_fields(8)[OF u(1)] unlinked_fields(8)[OF r1(2)] fr(4)
    by (auto simp: live_def)
  have home': "home_of (pcbq (k\<lparr>pcbq := ?t\<rparr>)) a = Some q'" using home by simp
  obtain s2 where s2: "k_insert a (k\<lparr>pcbq := ?t\<rparr>) = Inr (k\<lparr>pcbq := ?t, pcbq := s2\<rparr>)"
    "same_pcbs (pcbq (k\<lparr>pcbq := ?t\<rparr>)) s2"
    "wf (k\<lparr>pcbq := ?t, pcbq := s2\<rparr>) (B(q' := place (pcbq (k\<lparr>pcbq := ?t\<rparr>)) a q' (B q')))"
    by (rule k_insert_detached[OF m(2) s1(4) home' cp])
  have same: "same_pcbs t ?t" using s1(2) u(1) by (simp add: same_pcbs_def t_def with_changed_def)
  then have "place ?t = place t" by (rule pq.same_placed)
  then have "wf (k\<lparr>pcbq := s2\<rparr>) (B(q' := place t a q' (B q')))" using s2(3) by simp
  moreover have "move_pcb a f k = Inr (k\<lparr>pcbq := s2\<rparr>)" using s1(1) m(1) s2(1) by (simp add: move_pcb_def)
  moreover have "same_pcbs t s2" using same_pcbs_trans[OF same] s2(2) by simp
  ultimately show ?thesis by blast
qed

text \<open>
  \<open>process_named k A nm q a r\<close>: \<open>a\<close> is the one queued process with the name \<open>nm\<close>, it is
  in queue \<open>q\<close> and \<open>r\<close> is its PCB. \<open>moves k A q a r' k'\<close>: in \<open>k'\<close> its PCB is \<open>r'\<close> and it is
  in the queue \<open>r'\<close> selects, by priority or at the end; nothing else has changed.
\<close>

definition process_named ::
    "kernel \<Rightarrow> (qid \<Rightarrow> addr list) \<Rightarrow> cbuf \<Rightarrow> qid \<Rightarrow> addr \<Rightarrow> pcb \<Rightarrow> bool" where
  "process_named k A nm q a r \<longleftrightarrow>
     wf k A \<and> terminated nm \<and> text_of nm \<noteq> [] \<and> a \<in> set (A q) \<and> pcbs (pcbq k) a = Some r \<and>
     text_of (pname r) = text_of nm \<and>
     (\<forall>b. queued A b \<longrightarrow> name_of (pcbq k) b = text_of nm \<longrightarrow> b = a)"

definition requeued :: "kernel \<Rightarrow> (qid \<Rightarrow> addr list) \<Rightarrow> qid \<Rightarrow> addr \<Rightarrow> pcb \<Rightarrow> qid \<Rightarrow> addr list" where
  "requeued k A q a r' =
     (let B = A(q := remove1 a (A q)); q' = select_queue r'
      in B(q' := place (with_changed a r' (pcbq k)) a q' (B q')))"

definition moves :: "kernel \<Rightarrow> (qid \<Rightarrow> addr list) \<Rightarrow> qid \<Rightarrow> addr \<Rightarrow> pcb \<Rightarrow> kernel \<Rightarrow> bool" where
  "moves k A q a r' k' \<longleftrightarrow>
     (\<exists>s. k' = k\<lparr>pcbq := s\<rparr> \<and> wf k' (requeued k A q a r') \<and> same_pcbs (with_changed a r' (pcbq k)) s)"

lemma process_namedD:
  assumes "process_named k A nm q a r"
  shows "wf k A" "pcb_find (Some nm) (pcbq k) = Inr a" "a \<noteq> NULL" "load a (pcbq k) = Inr r"
    "bad_name nm = Inr False" "empty_name (Some nm) = Inr False" "select_queue r = q"
    "0 \<le> priority r" "priority r \<le> 9" "pcbs (pcbq k) a = Some r" "a \<in> set (A q)"
proof -
  show w: "wf k A" "pcbs (pcbq k) a = Some r" "a \<in> set (A q)" using assms by (auto simp: process_named_def)
  show a: "a \<noteq> NULL" "load a (pcbq k) = Inr r" "select_queue r = q"
    using rep_home[OF wfD(1)[OF w(1)] w(3)] w(2) by (auto simp: load_live)
  show "pcb_find (Some nm) (pcbq k) = Inr a"
    by (rule pcb_find_unique[OF w(1)]) (use assms in \<open>auto simp: process_named_def name_of_def\<close>)
  have p: "wf_pcb k a r" by (rule wf_pcbD[OF w(1,2)])
  then show "0 \<le> priority r" "priority r \<le> 9" by (simp_all add: wf_pcb_def)
  have "length (text_of (pname r)) < 16" using p length_text_of[of "pname r"] by (simp add: wf_pcb_def)
  then show "bad_name nm = Inr False" "empty_name (Some nm) = Inr False"
    using assms by (auto simp: process_named_def bad_name_def empty_name_def Suc_le_eq)
qed

lemma move_named:
  assumes n: "process_named k A nm q a r"
    and f: "\<And>x. unlinked x = unlinked r \<Longrightarrow> unlinked (f x) = unlinked (f r) \<and> pnext (f x) = pnext x \<and> pprev (f x) = pprev x"
    and fr: "pname (f r) = pname r" "0 \<le> priority (f r)" "priority (f r) \<le> 9" "contextPtr (f r) = contextPtr r"
  shows "\<exists>k'. move_pcb a f k = Inr k' \<and> moves k A q a (f r) k'"
  using move_pcb_ok[OF process_namedD(1,11,10)[OF n] f fr refl] unfolding moves_def requeued_def Let_def by blast

lemma unlinked_eq_iff:
  "unlinked x = unlinked y \<longleftrightarrow> pname x = pname y \<and> process_class x = process_class y \<and>
    priority x = priority y \<and> execution_state x = execution_state y \<and> dispatch_state x = dispatch_state y \<and>
    pargs x = pargs y \<and> pstack x = pstack y \<and> contextPtr x = contextPtr y"
  by (cases x; cases y) (auto simp: unlinked_def)

lemma move_state:
  assumes n: "process_named k A nm q a r"
  shows "\<exists>k'. move_pcb a (\<lambda>r. r\<lparr>execution_state := e\<rparr>) k = Inr k' \<and> moves k A q a (r\<lparr>execution_state := e\<rparr>) k'"
    and "\<exists>k'. move_pcb a (\<lambda>r. r\<lparr>dispatch_state := d\<rparr>) k = Inr k' \<and> moves k A q a (r\<lparr>dispatch_state := d\<rparr>) k'"
    and "0 \<le> v \<Longrightarrow> v \<le> 9 \<Longrightarrow>
      \<exists>k'. move_pcb a (\<lambda>r. r\<lparr>priority := v\<rparr>) k = Inr k' \<and> moves k A q a (r\<lparr>priority := v\<rparr>) k'"
  using process_namedD(8,9)[OF n] by (intro move_named[OF n]; auto simp: unlinked_eq_iff)+

lemma wf_moves: "moves k A q a r' k' \<Longrightarrow> wf k' (requeued k A q a r')"
  by (auto simp: moves_def)

lemma block_pcb_moves:
  assumes n: "process_named k A nm q a r" and e: "execution_state r \<noteq> STATE_BLOCKED"
  shows "\<exists>k'. moves k A q a (r\<lparr>execution_state := STATE_BLOCKED\<rparr>) k' \<and>
    block_pcb nm k = Inr (emit (blocked_text @ [NUL]) k')"
proof -
  obtain k' where k': "move_pcb a (\<lambda>r. r\<lparr>execution_state := STATE_BLOCKED\<rparr>) k = Inr k'"
    "moves k A q a (r\<lparr>execution_state := STATE_BLOCKED\<rparr>) k'" using move_state(1)[OF n] by blast
  have "length (lit blocked_text) = 39" by (simp add: blocked_text_def)
  then have "kwrite (lit blocked_text) 39 k' = Inr (emit (blocked_text @ [NUL]) k')"
    using kwrite_wf[OF wf_moves[OF k'(2)], of 39 "lit blocked_text"] by (simp add: lit_def)
  then show ?thesis using k' e by (intro exI[of _ k']) (simp add: block_pcb_def process_namedD(2-5)[OF n])
qed

lemma unblock_pcb_moves:
  assumes n: "process_named k A nm q a r" and e: "execution_state r \<noteq> STATE_READY"
  shows "\<exists>k'. moves k A q a (r\<lparr>execution_state := STATE_READY\<rparr>) k' \<and>
    unblock_pcb nm k = Inr (emit (unblocked_text @ [NUL]) k')"
proof -
  obtain k' where k': "move_pcb a (\<lambda>r. r\<lparr>execution_state := STATE_READY\<rparr>) k = Inr k'"
    "moves k A q a (r\<lparr>execution_state := STATE_READY\<rparr>) k'" using move_state(1)[OF n] by blast
  have "length (lit unblocked_text) = 41" by (simp add: unblocked_text_def)
  then have "kwrite (lit unblocked_text) 41 k' = Inr (emit (unblocked_text @ [NUL]) k')"
    using kwrite_wf[OF wf_moves[OF k'(2)], of 41 "lit unblocked_text"] by (simp add: lit_def)
  then show ?thesis using k' e by (intro exI[of _ k']) (simp add: unblock_pcb_def process_namedD(2-5)[OF n])
qed

lemma block_again:
  assumes n: "process_named k A nm q a r"
  shows "execution_state r = STATE_BLOCKED \<Longrightarrow> block_pcb nm k = Inr (emit (already_blocked_text @ [NUL]) k)"
    and "execution_state r = STATE_READY \<Longrightarrow> unblock_pcb nm k = Inr (emit (already_unblocked_text @ [NUL]) k)"
proof -
  have "length (lit already_blocked_text) = 44" "length (lit already_unblocked_text) = 46"
    by (simp_all add: already_blocked_text_def already_unblocked_text_def)
  then have "kwrite (lit already_blocked_text) 44 k = Inr (emit (already_blocked_text @ [NUL]) k)"
    "kwrite (lit already_unblocked_text) 46 k = Inr (emit (already_unblocked_text @ [NUL]) k)"
    using kwrite_wf[OF process_namedD(1)[OF n], of 44 "lit already_blocked_text"]
      kwrite_wf[OF process_namedD(1)[OF n], of 46 "lit already_unblocked_text"] by (simp_all add: lit_def)
  then show "execution_state r = STATE_BLOCKED \<Longrightarrow> block_pcb nm k = Inr (emit (already_blocked_text @ [NUL]) k)"
    "execution_state r = STATE_READY \<Longrightarrow> unblock_pcb nm k = Inr (emit (already_unblocked_text @ [NUL]) k)"
    by (simp_all add: block_pcb_def unblock_pcb_def process_namedD(2-5)[OF n])
qed

lemma unknown_name:
  assumes "wf k A" and "terminated nm" and "\<forall>b. queued A b \<longrightarrow> name_of (pcbq k) b \<noteq> text_of nm"
  shows "block_pcb nm k = Inl NullDeref" "unblock_pcb nm k = Inl NullDeref"
    "suspend_pcb (Some nm) k = Inr (-1, k)" "resume_pcb (Some nm) k = Inr (-1, k)"
    "delete_pcb nm k = Inr (emit (no_such_name_text @ [NUL]) k)"
    "setPriority nm v k = Inr (emit (no_process_text @ [NUL]) k)"
proof -
  note none = pcb_find_free[OF assms]
  show "block_pcb nm k = Inl NullDeref" "unblock_pcb nm k = Inl NullDeref"
    "suspend_pcb (Some nm) k = Inr (-1, k)" "resume_pcb (Some nm) k = Inr (-1, k)"
    using assms(2)
    by (auto simp: block_pcb_def unblock_pcb_def suspend_pcb_def resume_pcb_def none load_def empty_name_def)
  have "length (lit no_such_name_text) = 53" "length (lit no_process_text) = 56"
    by (simp_all add: no_such_name_text_def no_process_text_def)
  then show "delete_pcb nm k = Inr (emit (no_such_name_text @ [NUL]) k)"
    "setPriority nm v k = Inr (emit (no_process_text @ [NUL]) k)"
    using kwrite_wf[OF assms(1), of 53 "lit no_such_name_text"] kwrite_wf[OF assms(1), of 56 "lit no_process_text"]
    by (simp_all add: delete_pcb_def setPriority_def none lit_def)
qed

lemma redispatch_eq:
  assumes n: "process_named k A nm q a r"
  shows "\<exists>k'. moves k A q a (r\<lparr>dispatch_state := d\<rparr>) k' \<and> redispatch a d k = Inr (0, k')"
proof -
  obtain k' where k': "move_pcb a (\<lambda>r. r\<lparr>dispatch_state := d\<rparr>) k = Inr k'"
    "moves k A q a (r\<lparr>dispatch_state := d\<rparr>) k'" using move_state(2)[OF n] by blast
  obtain s where "k_remove a k = Inr (0, k\<lparr>pcbq := s\<rparr>)"
    using k_remove_member[OF process_namedD(1,11)[OF n]] by metis
  then show ?thesis using k' by (intro exI[of _ k']) (auto simp: move_pcb_def redispatch_def bindE_eq_Inr)
qed

lemma suspend_pcb_cases:
  assumes n: "process_named k A nm q a r"
  shows "process_class r = CLASS_SYSTEM \<Longrightarrow> suspend_pcb (Some nm) k = Inr (-2, k)"
    and "process_class r = CLASS_USER \<Longrightarrow> dispatch_state r = DISPATCH_SUSPENDED \<Longrightarrow>
      suspend_pcb (Some nm) k = Inr (1, k)"
    and "process_class r = CLASS_USER \<Longrightarrow> dispatch_state r = DISPATCH_ACTIVE \<Longrightarrow>
      \<exists>k'. moves k A q a (r\<lparr>dispatch_state := DISPATCH_SUSPENDED\<rparr>) k' \<and> suspend_pcb (Some nm) k = Inr (0, k')"
  using redispatch_eq[OF n, of DISPATCH_SUSPENDED] process_namedD(3)[OF n]
  by (auto simp: suspend_pcb_def process_namedD(2,4,6)[OF n])

lemma resume_pcb_cases:
  assumes n: "process_named k A nm q a r"
  shows "dispatch_state r = DISPATCH_ACTIVE \<Longrightarrow> resume_pcb (Some nm) k = Inr (1, k)"
    and "dispatch_state r = DISPATCH_SUSPENDED \<Longrightarrow>
      \<exists>k'. moves k A q a (r\<lparr>dispatch_state := DISPATCH_ACTIVE\<rparr>) k' \<and> resume_pcb (Some nm) k = Inr (0, k')"
  using redispatch_eq[OF n, of DISPATCH_ACTIVE] process_namedD(3)[OF n]
  by (auto simp: resume_pcb_def process_namedD(2,4,6)[OF n])

lemma setPriority_cases:
  assumes n: "process_named k A nm q a r"
  shows "process_class r = CLASS_SYSTEM \<Longrightarrow>
      setPriority nm v k = Inr (emit (system_process_text @ [NUL]) k)"
    and "process_class r = CLASS_USER \<Longrightarrow> v < 0 \<or> 9 < v \<Longrightarrow>
      setPriority nm v k = Inr (emit (bad_priority_text @ [NUL]) k)"
    and "process_class r = CLASS_USER \<Longrightarrow> 0 \<le> v \<Longrightarrow> v \<le> 9 \<Longrightarrow>
      \<exists>k'. moves k A q a (r\<lparr>priority := v\<rparr>) k' \<and> setPriority nm v k = Inr k'"
proof -
  have "length (lit system_process_text) = 74" "length (lit bad_priority_text) = 86"
    by (simp_all add: system_process_text_def bad_priority_text_def)
  then show "process_class r = CLASS_SYSTEM \<Longrightarrow>
      setPriority nm v k = Inr (emit (system_process_text @ [NUL]) k)"
    "process_class r = CLASS_USER \<Longrightarrow> v < 0 \<or> 9 < v \<Longrightarrow>
      setPriority nm v k = Inr (emit (bad_priority_text @ [NUL]) k)"
    using kwrite_wf[OF process_namedD(1)[OF n], of 74 "lit system_process_text"]
      kwrite_wf[OF process_namedD(1)[OF n], of 86 "lit bad_priority_text"] process_namedD(3)[OF n]
    by (auto simp: setPriority_def process_namedD(2,4)[OF n] lit_def)
  show "process_class r = CLASS_USER \<Longrightarrow> 0 \<le> v \<Longrightarrow> v \<le> 9 \<Longrightarrow>
      \<exists>k'. moves k A q a (r\<lparr>priority := v\<rparr>) k' \<and> setPriority nm v k = Inr k'"
    using move_state(3)[OF n, of v] process_namedD(3)[OF n] by (auto simp: setPriority_def process_namedD(2,4)[OF n])
qed

text \<open>Deleting takes the process out of its queue; its memory is not used again, because the
  kernel runs without a function to free it.\<close>

lemma delete_pcb_cases:
  assumes n: "process_named k A nm q a r"
  shows "process_class r = CLASS_SYSTEM \<Longrightarrow>
      delete_pcb nm k = Inr (emit (system_process_text @ [NUL]) k)"
    and "process_class r = CLASS_USER \<Longrightarrow>
      \<exists>s. delete_pcb nm k = Inr (emit (deleted_text @ [NUL]) (k\<lparr>pcbq := s\<rparr>)) \<and>
        wf (k\<lparr>pcbq := s\<rparr>) (A(q := remove1 a (A q))) \<and> same_pcbs (pcbq k) s \<and>
        \<not> queued (A(q := remove1 a (A q))) a"
proof -
  have len: "length (lit system_process_text) = 74" "length (lit deleted_text) = 39"
    by (simp_all add: system_process_text_def deleted_text_def)
  then show "process_class r = CLASS_SYSTEM \<Longrightarrow>
      delete_pcb nm k = Inr (emit (system_process_text @ [NUL]) k)"
    using kwrite_wf[OF process_namedD(1)[OF n], of 74 "lit system_process_text"] process_namedD(3)[OF n]
    by (simp add: delete_pcb_def process_namedD(2,4,5)[OF n] lit_def)
  obtain s where s: "k_remove a k = Inr (0, k\<lparr>pcbq := s\<rparr>)" "same_pcbs (pcbq k) s"
    "wf (k\<lparr>pcbq := s\<rparr>) (A(q := remove1 a (A q)))" "\<not> queued (A(q := remove1 a (A q))) a" "home_of s a = Some q"
    using k_remove_member[OF process_namedD(1,11)[OF n]] by metis
  have "pcb_free a (k\<lparr>pcbq := s\<rparr>) = Inr (0, k\<lparr>pcbq := s\<rparr>)"
    using s(5) process_namedD(3)[OF n] by (intro pcb_free_nop) (auto simp: home_of_def)
  then show "process_class r = CLASS_USER \<Longrightarrow>
      \<exists>s. delete_pcb nm k = Inr (emit (deleted_text @ [NUL]) (k\<lparr>pcbq := s\<rparr>)) \<and>
        wf (k\<lparr>pcbq := s\<rparr>) (A(q := remove1 a (A q))) \<and> same_pcbs (pcbq k) s \<and>
        \<not> queued (A(q := remove1 a (A q))) a"
    using kwrite_wf[OF s(3), of 39 "lit deleted_text"] s len process_namedD(3)[OF n]
    by (intro exI[of _ s]) (simp add: delete_pcb_def process_namedD(2,4,5)[OF n] lit_def)
qed

section \<open>The argument of \<open>priority set\<close>\<close>

lemma find_first_space:
  assumes "CHR '' '' \<notin> set str" and "str \<noteq> []"
  shows "split_index (str @ CHR '' '' # rest) (length str + Suc n) = length str"
proof -
  let ?P = "\<lambda>i. (str @ CHR '' '' # rest) ! i = CHR '' '' \<and> i \<noteq> 0"
  have "\<not> ?P i" if "i < length str" for i
    using assms(1) that by (auto simp: nth_append in_set_conv_nth)
  then have "find ?P [0..<length str] = None" by (auto simp: find_None_iff)
  moreover have "find P (xs @ ys) = (case find P xs of None \<Rightarrow> find P ys | Some z \<Rightarrow> Some z)" for P and xs ys :: "nat list"
    by (induction xs) auto
  moreover have "[0..<length str + Suc n] = [0..<length str] @ length str # [Suc (length str)..<length str + Suc n]"
    using upt_add_eq_append[of 0 "length str" "Suc n"] upt_conv_Cons[of "length str" "length str + Suc n"] by simp
  ultimately show ?thesis using assms(2) by (simp add: split_index_def)
qed

text \<open>With one character as the priority: a digit gives its value, anything else 0.\<close>

definition digit_or_0 :: "char \<Rightarrow> int" where
  "digit_or_0 ch = (if is_digit_char ch then schar ch - schar (CHR ''0'') else 0)"

lemma atoi_one_char:
  assumes "ch \<noteq> NUL" "ch \<noteq> CHR '' ''"
  shows "atoi [CHR '' '', ch, NUL] = Inr (digit_or_0 ch)"
proof -
  have "- 2147483648 \<le> schar ch - schar (CHR ''0'')" "schar ch - schar (CHR ''0'') \<le> 2147483647"
    using uchar_range[of ch] by (auto simp: schar_alt uchar_def)
  moreover have "\<not> is_digit_char NUL" "\<not> isspace NUL" by (simp_all add: is_digit_char_def schar_def isspace_def)
  moreover have "\<not> is_digit_char ch" if "isspace ch \<or> ch = CHR ''-'' \<or> ch = CHR ''+''"
    using that by (auto simp: isspace_def is_digit_char_def schar_def)
  ultimately show ?thesis
    by (cases "isspace ch \<or> ch = CHR ''-'' \<or> ch = CHR ''+''")
       (auto simp: atoi_def digit_or_0_def Let_def isspace_def)
qed

lemma set_priority_one_char:
  assumes "NUL \<notin> set str" "CHR '' '' \<notin> set str" "str \<noteq> []" and "ch \<noteq> NUL" "ch \<noteq> CHR '' ''"
  shows "set_priority_command (Some (lit (str @ [CHR '' '', ch]))) k = setPriority (lit str) (digit_or_0 ch) k"
proof -
  let ?s = "lit (str @ [CHR '' '', ch])"
  have nn: "NUL \<notin> set (str @ [CHR '' '', ch])" using assms by auto
  have len: "strlen ?s = Inr (length str + 2)" using nn by simp
  have none: "no_args (Some ?s) = Inr False"
    using assms(1,3) by (cases str) (auto simp: no_args_def lit_def peek_def)
  have "text_of ?s \<noteq> text_of (lit ''help'')" using nn assms(2,3)
    by (auto simp: append_eq_Cons_conv)
  then have "args_are (Some ?s) ''help'' = Inr False"
    using strcmp_terminated[of ?s "lit ''help''"] by (auto simp: args_are_def deref_def)
  moreover have "split_index ?s (length str + 2) = length str"
    using find_first_space[OF assms(2,3), of "[ch, NUL]" 1] by (simp add: lit_def numeral_2_eq_2)
  moreover have "take (length str) ?s @ [NUL] = lit str" "drop (length str) ?s = [CHR '' '', ch, NUL]"
    by (simp_all add: lit_def)
  moreover have "strlen [CHR '' '', ch, NUL] = Inr 2" using assms(4) by (simp add: strlen_def)
  moreover have "\<not> not_number [CHR '' '', ch, NUL] (Suc (Suc 0))" by (simp add: not_number_def)
  ultimately show ?thesis using assms(3) none len
    by (simp add: set_priority_command_def deref_def Let_def atoi_one_char[OF assms(4,5)])
qed

section \<open>Properties\<close>

text \<open>Blocking a queued process that is not blocked moves it to the end of the
  blocked queue (of the suspended-blocked queue if it is suspended), changes only its
  execution state, and says so; a process that is blocked already is left alone.\<close>

theorem block_pcb_blocks:
  assumes "process_named k A nm q a r"
  shows "if execution_state r = STATE_BLOCKED
    then block_pcb nm k = Inr (emit (already_blocked_text @ [NUL]) k)
    else \<exists>k'. block_pcb nm k = Inr (emit (blocked_text @ [NUL]) k') \<and>
      moves k A q a (r\<lparr>execution_state := STATE_BLOCKED\<rparr>) k'"
  using block_again(1)[OF assms] block_pcb_moves[OF assms] by auto

text \<open>Unblocking a blocked process moves it into the ready queue by its priority
  (to the end of the suspended-ready queue if it is suspended); a ready process is left
  alone.\<close>

theorem unblock_pcb_readies:
  assumes "process_named k A nm q a r"
  shows "if execution_state r = STATE_READY
    then unblock_pcb nm k = Inr (emit (already_unblocked_text @ [NUL]) k)
    else \<exists>k'. unblock_pcb nm k = Inr (emit (unblocked_text @ [NUL]) k') \<and>
      moves k A q a (r\<lparr>execution_state := STATE_READY\<rparr>) k'"
  using block_again(2)[OF assms] unblock_pcb_moves[OF assms] by auto

text \<open>Property C18. \<open>block\<close> and \<open>unblock\<close>. Blocking a queued process that is not blocked moves
  it to the end of the blocked queue (of the suspended-blocked queue if it is suspended),
  unblocking one that is not ready into the ready queue by its priority (to the end of the
  suspended-ready queue if it is suspended); each changes only the execution state and says
  so. A process that is in the state already is left alone.\<close>

theorem block_unblock:
  assumes "process_named k A nm q a r"
  shows "(if execution_state r = STATE_BLOCKED
    then block_pcb nm k = Inr (emit (already_blocked_text @ [NUL]) k)
    else \<exists>k'. block_pcb nm k = Inr (emit (blocked_text @ [NUL]) k') \<and>
      moves k A q a (r\<lparr>execution_state := STATE_BLOCKED\<rparr>) k') \<and>
    (if execution_state r = STATE_READY
    then unblock_pcb nm k = Inr (emit (already_unblocked_text @ [NUL]) k)
    else \<exists>k'. unblock_pcb nm k = Inr (emit (unblocked_text @ [NUL]) k') \<and>
      moves k A q a (r\<lparr>execution_state := STATE_READY\<rparr>) k')"
  using block_pcb_blocks[OF assms] unblock_pcb_readies[OF assms] by (rule conjI)

text \<open>Suspending: -2 for a system process, 1 for a process that is suspended
  already, both without effect; else 0, and the process is in the suspended queue of its
  execution state, with nothing but its dispatch state changed.\<close>

theorem suspend_pcb_suspends:
  assumes "process_named k A nm q a r"
  shows "if process_class r = CLASS_SYSTEM then suspend_pcb (Some nm) k = Inr (-2, k)
    else if dispatch_state r = DISPATCH_SUSPENDED then suspend_pcb (Some nm) k = Inr (1, k)
    else \<exists>k'. suspend_pcb (Some nm) k = Inr (0, k') \<and>
      moves k A q a (r\<lparr>dispatch_state := DISPATCH_SUSPENDED\<rparr>) k'"
  using suspend_pcb_cases[OF assms] by (cases "process_class r"; cases "dispatch_state r") auto

text \<open>Resuming: 1 without effect for an active process; else 0, and the process
  is back in the queue of its execution state, in the ready queue by its priority.\<close>

theorem resume_pcb_resumes:
  assumes "process_named k A nm q a r"
  shows "if dispatch_state r = DISPATCH_ACTIVE then resume_pcb (Some nm) k = Inr (1, k)
    else \<exists>k'. resume_pcb (Some nm) k = Inr (0, k') \<and>
      moves k A q a (r\<lparr>dispatch_state := DISPATCH_ACTIVE\<rparr>) k'"
  using resume_pcb_cases[OF assms] by (cases "dispatch_state r") auto

text \<open>Property C19. \<open>suspend\<close> and \<open>resume\<close>. Suspending gives -2 for a system process and 1 for
  one that is suspended already, resuming 1 for an active one, all without effect; else the
  result is 0 and the process is in the suspended queue, or in the active queue, of its
  execution state, in the ready queue by its priority, with nothing but its dispatch state
  changed.\<close>

theorem suspend_resume:
  assumes "process_named k A nm q a r"
  shows "(if process_class r = CLASS_SYSTEM then suspend_pcb (Some nm) k = Inr (-2, k)
    else if dispatch_state r = DISPATCH_SUSPENDED then suspend_pcb (Some nm) k = Inr (1, k)
    else \<exists>k'. suspend_pcb (Some nm) k = Inr (0, k') \<and>
      moves k A q a (r\<lparr>dispatch_state := DISPATCH_SUSPENDED\<rparr>) k') \<and>
    (if dispatch_state r = DISPATCH_ACTIVE then resume_pcb (Some nm) k = Inr (1, k)
    else \<exists>k'. resume_pcb (Some nm) k = Inr (0, k') \<and>
      moves k A q a (r\<lparr>dispatch_state := DISPATCH_ACTIVE\<rparr>) k')"
  using suspend_pcb_suspends[OF assms] resume_pcb_resumes[OF assms] by (rule conjI)

text \<open>Property C21. Setting a priority: refused with a message for a system process and for a
  value outside 0 to 9; else the process has the new priority and stands in the ready queue
  where the new priority belongs (other queues: at the end).\<close>

theorem setPriority_sets:
  assumes "process_named k A nm q a r"
  shows "if process_class r = CLASS_SYSTEM then setPriority nm v k = Inr (emit (system_process_text @ [NUL]) k)
    else if v < 0 \<or> 9 < v then setPriority nm v k = Inr (emit (bad_priority_text @ [NUL]) k)
    else \<exists>k'. setPriority nm v k = Inr k' \<and> moves k A q a (r\<lparr>priority := v\<rparr>) k'"
proof (cases "process_class r")
  case CLASS_SYSTEM
  then show ?thesis using setPriority_cases(1)[OF assms] by simp
next
  case CLASS_USER
  then show ?thesis using setPriority_cases(2,3)[OF assms CLASS_USER, of v] by (cases "v < 0 \<or> 9 < v") auto
qed

text \<open>Deleting takes a user process out of its queue for good and is refused for a
  system process; the heap is as full as before, so the memory of a deleted process is never
  used again.\<close>

theorem delete_pcb_deletes:
  assumes "process_named k A nm q a r"
  shows "if process_class r = CLASS_SYSTEM
    then delete_pcb nm k = Inr (emit (system_process_text @ [NUL]) k)
    else \<exists>k'. delete_pcb nm k = Inr (emit (deleted_text @ [NUL]) k') \<and>
      wf k' (A(q := remove1 a (A q))) \<and> \<not> queued (A(q := remove1 a (A q))) a \<and>
      kvm k' = kvm k \<and> dom (pcbs (pcbq k')) = dom (pcbs (pcbq k))"
proof (cases "process_class r")
  case CLASS_SYSTEM
  then show ?thesis using delete_pcb_cases(1)[OF assms] by simp
next
  case CLASS_USER
  obtain s where "delete_pcb nm k = Inr (emit (deleted_text @ [NUL]) (k\<lparr>pcbq := s\<rparr>))"
    "wf (k\<lparr>pcbq := s\<rparr>) (A(q := remove1 a (A q)))" "same_pcbs (pcbq k) s"
    "\<not> queued (A(q := remove1 a (A q))) a"
    using delete_pcb_cases(2)[OF assms CLASS_USER] by blast
  then show ?thesis using CLASS_USER same_pcbs_dom by (intro if_not_P[THEN iffD2] exI[of _ "k\<lparr>pcbq := s\<rparr>"]) auto
qed

text \<open>Property C31. A name no queued process has: suspend, resume, delete and priority report
  it, but block and unblock read the state of the process before they look whether there is
  one, through the NULL pointer.\<close>

theorem unknown_process_name:
  assumes "wf k A" and "terminated nm" and "\<forall>b. queued A b \<longrightarrow> name_of (pcbq k) b \<noteq> text_of nm"
  shows "suspend_pcb (Some nm) k = Inr (-1, k) \<and> resume_pcb (Some nm) k = Inr (-1, k) \<and>
    delete_pcb nm k = Inr (emit (no_such_name_text @ [NUL]) k) \<and>
    setPriority nm v k = Inr (emit (no_process_text @ [NUL]) k) \<and>
    block_pcb nm k = Inl NullDeref \<and> unblock_pcb nm k = Inl NullDeref"
  using unknown_name[OF assms] by simp

text \<open>\<open>priority set\<close> with a name and one more character: a digit sets this
  priority; any other character, which should be refused as not a number, sets priority 0,
  the highest.\<close>

theorem set_priority_one_character:
  assumes "NUL \<notin> set str" and "CHR '' '' \<notin> set str" and "str \<noteq> []" and "ch \<noteq> NUL" and "ch \<noteq> CHR '' ''"
  shows "set_priority_command (Some (lit (str @ [CHR '' '', ch]))) k =
    setPriority (lit str)
      (if schar (CHR ''0'') \<le> schar ch \<and> schar ch \<le> schar (CHR ''9'') then schar ch - schar (CHR ''0'') else 0) k"
  using set_priority_one_char[OF assms] by (simp add: digit_or_0_def is_digit_char_def)

end
