(* ===== verification/ShowPcb.thy ===== *)
theory ShowPcb
  imports PcbCommands
begin

text \<open>
  The command that prints processes, \<^verbatim>\<open>user/pcb/showPCB.c\<close>.

  \<open>showPCB\<close> looks the process up again by its name, also when it walks a queue; the walk
  is a partial function on the links. \<open>junk\<close> is what the local array holds before it is
  written. The output is compared with \<open>describe\<close>, the text of one PCB.
\<close>

section \<open>The functions\<close>

definition showPCB :: "(nat \<Rightarrow> char) \<Rightarrow> cptr \<Rightarrow> kernel \<Rightarrow> kernel c" where
  "showPCB junk nm k =
     bindE (pcb_find nm (pcbq k)) (\<lambda>pcbPTR.
     if pcbPTR = NULL
     then bindE (kwrite (lit no_process_text) 56 k) show_pcb_help
     else bindE (load pcbPTR (pcbq k)) (\<lambda>p.
       bindE (say (lit ''Name: '') k) (\<lambda>k.
       bindE (say (pname p) k) (\<lambda>k.
       bindE (kwrite (lit [LF]) 1 k) (\<lambda>k.
       bindE (say (lit ''Class: '') k) (\<lambda>k.
       bindE (if process_class p = CLASS_SYSTEM then say (lit (''System/Kernel'' @ [LF])) k
              else say (lit (''User'' @ [LF])) k) (\<lambda>k.
       bindE (say (lit ''State: '') k) (\<lambda>k.
       bindE (if execution_state p = STATE_READY then say (lit (''Ready'' @ [LF])) k
              else if execution_state p = STATE_RUNNING then say (lit (''Running'' @ [LF])) k
              else say (lit (''Blocked'' @ [LF])) k) (\<lambda>k.
       bindE (say (lit ''Suspension Status: '') k) (\<lambda>k.
       bindE (if dispatch_state p = DISPATCH_ACTIVE then say (lit (''Not suspended'' @ [LF])) k
              else say (lit (''Suspended'' @ [LF])) k) (\<lambda>k.
       bindE (say (lit ''Priority: '') k) (\<lambda>k.
       bindE (itoa (priority p) (local_array junk 20)) (\<lambda>buffer.
       bindE (say buffer k) (\<lambda>k.
       kwrite (lit [LF, LF]) 2 k))))))))))))))"

text \<open>One round of the walk: the next pointer is read after the process is shown.\<close>

definition show_turn :: "(nat \<Rightarrow> char) \<Rightarrow> addr \<Rightarrow> kernel \<Rightarrow> (addr \<times> kernel) c" where
  "show_turn junk nextPtr k =
     bindE (load nextPtr (pcbq k)) (\<lambda>p.
     bindE (showPCB junk (Some (pname p)) k) (\<lambda>k.
     bindE (load nextPtr (pcbq k)) (\<lambda>p. Inr (pnext p, k))))"

partial_function (option) show_loop :: "(nat \<Rightarrow> char) \<Rightarrow> addr \<Rightarrow> kernel \<Rightarrow> kernel c option" where
  "show_loop junk nextPtr k =
     (if nextPtr = NULL then Some (Inr k)
      else case show_turn junk nextPtr k of
             Inl e \<Rightarrow> Some (Inl e)
           | Inr s \<Rightarrow> show_loop junk (fst s) (snd s))"

definition show_queue ::
    "(nat \<Rightarrow> char) \<Rightarrow> qid \<Rightarrow> string \<times> nat \<Rightarrow> string \<times> nat \<Rightarrow> kernel \<Rightarrow> kernel c" where
  "show_queue junk q none some k =
     (let nextPtr = head (queues (pcbq k) q)
      in if nextPtr = NULL then kwrite (lit (fst none)) (snd none) k
         else bindE (kwrite (lit (fst some)) (snd some) k) (\<lambda>k.
              loop_result (show_loop junk nextPtr k)))"

definition showReady :: "(nat \<Rightarrow> char) \<Rightarrow> kernel \<Rightarrow> kernel c" where
  "showReady junk = show_queue junk ReadyQ
     (''No processes in the ready queue'' @ [LF], 32)
     (ESC # ''[32mReady Processes:'' @ ESC # ''[0m'' @ [LF], 27)"

definition showBlocked :: "(nat \<Rightarrow> char) \<Rightarrow> kernel \<Rightarrow> kernel c" where
  "showBlocked junk = show_queue junk BlockedQ
     (''No processes in the blocked queue'' @ [LF], 34)
     (ESC # ''[31mBlocked Processes:'' @ ESC # ''[0m'' @ LF # [CR], 29)"

definition showSuspended :: "(nat \<Rightarrow> char) \<Rightarrow> kernel \<Rightarrow> kernel c" where
  "showSuspended junk k =
     bindE (show_queue junk SuspReadyQ
              (''No processes in the suspended-ready queue'' @ [LF], 42)
              (ESC # ''[33mSuspended Ready Processes:'' @ ESC # ''[0m'' @ LF # [CR], 37) k)
       (show_queue junk SuspBlockedQ
              (''No processes in the suspended-blocked queue'' @ [LF], 44)
              (ESC # ''[33mSuspended Blocked Processes:'' @ ESC # ''[0m'' @ LF # [CR], 39))"

definition showAllPCB :: "(nat \<Rightarrow> char) \<Rightarrow> kernel \<Rightarrow> kernel c" where
  "showAllPCB junk k =
     bindE (showReady junk k) (\<lambda>k. bindE (showBlocked junk k) (showSuspended junk))"

definition show_command :: "(nat \<Rightarrow> char) \<Rightarrow> cptr \<Rightarrow> kernel \<Rightarrow> kernel c" where
  "show_command junk args k =
     bindE (no_args args) (\<lambda>none. if none then showAllPCB junk k else
     bindE (args_are args ''all'') (\<lambda>b. if b then showAllPCB junk k else
     bindE (args_start args ''ready'' 5) (\<lambda>b. if b then showReady junk k else
     bindE (args_start args ''blocked'' 7) (\<lambda>b. if b then showBlocked junk k else
     bindE (args_start args ''help'' 4) (\<lambda>b. if b then show_pcb_help k else
     bindE (args_start args ''suspended'' 9) (\<lambda>b. if b then showSuspended junk k else
     showPCB junk args k))))))"

section \<open>What is printed\<close>

definition describe :: "pcb \<Rightarrow> string" where
  "describe p =
     ''Name: '' @ text_of (pname p) @ [LF] @
     ''Class: '' @ (if process_class p = CLASS_SYSTEM then ''System/Kernel'' else ''User'') @ [LF] @
     ''State: '' @ (case execution_state p of STATE_READY \<Rightarrow> ''Ready'' | STATE_RUNNING \<Rightarrow> ''Running''
                    | STATE_BLOCKED \<Rightarrow> ''Blocked'') @ [LF] @
     ''Suspension Status: '' @
       (if dispatch_state p = DISPATCH_ACTIVE then ''Not suspended'' else ''Suspended'') @ [LF] @
     ''Priority: '' @ show_int (priority p) @ [LF, LF]"

definition describe_all :: "kernel \<Rightarrow> addr list \<Rightarrow> string" where
  "describe_all k xs = concat (map (\<lambda>a. describe (the (pcbs (pcbq k) a))) xs)"

text \<open>A queue with its heading; the heading of the ready queue is written with its NUL.\<close>

definition listing :: "kernel \<Rightarrow> (qid \<Rightarrow> addr list) \<Rightarrow> qid \<Rightarrow> string" where
  "listing k A q =
     (if A q = []
      then ''No processes in the '' @
        (case q of ReadyQ \<Rightarrow> ''ready'' | BlockedQ \<Rightarrow> ''blocked''
         | SuspReadyQ \<Rightarrow> ''suspended-ready'' | SuspBlockedQ \<Rightarrow> ''suspended-blocked'') @ '' queue'' @ [LF]
      else
        (case q of ReadyQ \<Rightarrow> ESC # ''[32mReady'' | BlockedQ \<Rightarrow> ESC # ''[31mBlocked''
         | SuspReadyQ \<Rightarrow> ESC # ''[33mSuspended Ready'' | SuspBlockedQ \<Rightarrow> ESC # ''[33mSuspended Blocked'') @
        '' Processes:'' @ ESC # ''[0m'' @ [LF] @ (if q = ReadyQ then [NUL] else [CR]) @
        describe_all k (A q))"

lemma showPCB_found:
  assumes wf: "wf k A" and f: "pcb_find (Some nm) (pcbq k) = Inr a" and p: "pcbs (pcbq k) a = Some p"
  shows "showPCB junk (Some nm) k = Inr (emit (describe p) k)"
proof -
  have wp: "wf_pcb k a p" by (rule wf_pcbD[OF wf p])
  then have a: "a \<noteq> NULL" "load a (pcbq k) = Inr p" using p by (auto simp: wf_pcb_def)
  have pr: "0 \<le> priority p" "priority p \<le> 9" and t: "terminated (pname p)" using wp by (auto simp: wf_pcb_def)
  define b where "b = show_int (priority p) @ NUL # drop (length (show_int (priority p)) + 1) (local_array junk 20)"
  have i: "itoa (priority p) (local_array junk 20) = Inr b"
    unfolding b_def using pr by (intro itoa_spec) (simp_all add: show_int_small)
  have b: "terminated b" "text_of b = show_int (priority p)"
    using NUL_notin_show_int by (simp_all add: b_def text_of_append_NUL)
  note on = wfD(3)[OF wf]
  show ?thesis
    by (simp add: showPCB_def f a i say_lit say_online kwrite_online on t b describe_def lit_def
        split: execution_state.split)
qed

text \<open>Distinct names: then the look-up by name finds the process the walk is at.\<close>

definition names_distinct :: "kernel \<Rightarrow> (qid \<Rightarrow> addr list) \<Rightarrow> bool" where
  "names_distinct k A \<longleftrightarrow> inj_on (name_of (pcbq k)) {a. queued A a}"

lemma find_own_name:
  assumes wf: "wf k A" and d: "names_distinct k A" and a: "queued A a" and p: "pcbs (pcbq k) a = Some p"
  shows "pcb_find (Some (pname p)) (pcbq k) = Inr a"
proof -
  obtain q where "a \<in> set (A q)" using a by (auto simp: queued_def)
  moreover have n: "name_of (pcbq k) a = text_of (pname p)" using p by (simp add: name_of_def)
  moreover have "terminated (pname p)" using wf_pcbD[OF wf p] by (simp add: wf_pcb_def)
  moreover have "b = a" if "queued A b" "name_of (pcbq k) b = text_of (pname p)" for b
    using d that a n unfolding names_distinct_def inj_on_def by simp
  ultimately show ?thesis by (intro pcb_find_unique[OF wf])
qed

lemma show_loop_spec:
  assumes "wf k A" and "names_distinct k A" and "seg (pcbs (pcbq k)) pv xs NULL" and "\<forall>a\<in>set xs. queued A a"
  shows "show_loop junk (first_or NULL xs) k = Some (Inr (emit (describe_all k xs) k))"
  using assms
proof (induction xs arbitrary: pv k)
  case Nil
  then show ?case by (simp add: show_loop.simps describe_all_def)
next
  case (Cons x xs)
  then obtain p where p: "pcbs (pcbq k) x = Some p" "pnext p = first_or NULL xs" "x \<noteq> NULL" "seg (pcbs (pcbq k)) x xs NULL"
    by (auto split: option.splits)
  let ?k = "emit (describe p) k"
  have "pcb_find (Some (pname p)) (pcbq k) = Inr x" using find_own_name Cons.prems p(1) by simp
  then have "show_turn junk x k = Inr (first_or NULL xs, ?k)"
    using showPCB_found[OF Cons.prems(1) _ p(1)] p(1-3)
    by (simp add: show_turn_def load_live)
  moreover have "show_loop junk (first_or NULL xs) ?k = Some (Inr (emit (describe_all ?k xs) ?k))"
    using Cons.IH[of ?k x] Cons.prems p(4) by (simp add: names_distinct_def)
  ultimately show ?case using p(1,3) by (subst show_loop.simps) (simp add: describe_all_def)
qed

lemma show_queue_spec:
  assumes wf: "wf k A" and d: "names_distinct k A"
    and n: "snd none = length (fst none)" "snd some \<le> length (fst some) + 1"
  shows "show_queue junk q none some k =
    Inr (emit (if A q = [] then fst none else take (snd some) (lit (fst some)) @ describe_all k (A q)) k)"
proof -
  note r = wfD(1)[OF wf] note on = wfD(3)[OF wf]
  have h: "first_or NULL (A q) = NULL \<longleftrightarrow> A q = []"
    by (rule first_last_simps(1)) (use rep_no_NULL[OF r] in auto)
  have "show_loop junk (first_or NULL (A q)) (emit str k) =
      Some (Inr (emit (describe_all k (A q)) (emit str k)))" for str
    using show_loop_spec[of "emit str k" A NULL "A q" junk] wf d repD(3)[OF r, of q]
    by (auto simp: names_distinct_def describe_all_def queued_def)
  then show ?thesis using n h
    by (simp add: show_queue_def repD(1)[OF r] kwrite_online[OF on] lit_def)
qed

lemma show_parts:
  assumes "wf k A" and "names_distinct k A"
  shows "showReady junk k = Inr (emit (listing k A ReadyQ) k)"
    and "showBlocked junk k = Inr (emit (listing k A BlockedQ) k)"
    and "showSuspended junk k = Inr (emit (listing k A SuspReadyQ @ listing k A SuspBlockedQ) k)"
  using assms
  by (simp_all add: showReady_def showBlocked_def showSuspended_def show_queue_spec listing_def lit_def
      names_distinct_def describe_all_def)

lemma showAll_spec:
  assumes "wf k A" and "names_distinct k A"
  shows "showAllPCB junk k = Inr (emit (concat (map (listing k A) [ReadyQ, BlockedQ, SuspReadyQ, SuspBlockedQ])) k)"
  using assms
  by (simp add: showAllPCB_def show_parts names_distinct_def listing_def describe_all_def)

lemma length_no_process: "length no_process_text = 55"
  by (simp add: no_process_text_def)

lemma NUL_notin_help: "NUL \<notin> set show_pcb_help_text"
  by (simp add: show_pcb_help_text_def)

section \<open>Properties\<close>

text \<open>Property C37. With distinct names, the commands \<open>show\<close> and \<open>show all\<close> print every
  process of every queue exactly once, in the order of the queues (the ready queue in the
  order of dispatching), under its heading, and change nothing else.\<close>

theorem show_lists_all:
  assumes "wf k A" and "names_distinct k A" and "args \<in> {None, Some (lit ''''), Some (lit ''all'')}"
  shows "show_command junk args k =
    Inr (emit (concat (map (listing k A) [ReadyQ, BlockedQ, SuspReadyQ, SuspBlockedQ])) k)"
proof -
  have "strcmp (lit ''all'') (lit ''all'') = Inr 0" by (simp add: strcmp_eq_0)
  then show ?thesis using assms showAll_spec[OF assms(1,2)]
    by (auto simp: show_command_def no_args_def args_are_def deref_def lit_def)
qed

text \<open>\<open>showPCB\<close> of one process prints its name, class, state, suspension and
  priority; for a name nobody has it prints the message and the help text.\<close>

theorem showPCB_shows:
  assumes "wf k A" and "terminated nm"
  shows "(process_named k A nm q a r \<longrightarrow> showPCB junk (Some nm) k = Inr (emit (describe r) k)) \<and>
    ((\<forall>b. queued A b \<longrightarrow> name_of (pcbq k) b \<noteq> text_of nm) \<longrightarrow>
      showPCB junk (Some nm) k = Inr (emit (no_process_text @ [NUL] @ show_pcb_help_text) k))"
proof (intro conjI impI)
  assume "process_named k A nm q a r"
  then show "showPCB junk (Some nm) k = Inr (emit (describe r) k)"
    using showPCB_found[OF assms(1)] process_namedD by metis
next
  assume "\<forall>b. queued A b \<longrightarrow> name_of (pcbq k) b \<noteq> text_of nm"
  then have "pcb_find (Some nm) (pcbq k) = Inr NULL" by (rule pcb_find_free[OF assms])
  moreover have "take 56 (lit no_process_text) = no_process_text @ [NUL]"
    by (simp add: lit_def length_no_process)
  ultimately show "showPCB junk (Some nm) k = Inr (emit (no_process_text @ [NUL] @ show_pcb_help_text) k)"
    using wfD(3)[OF assms(1)]
    by (simp add: showPCB_def kwrite_online length_no_process show_pcb_help_def say_lit NUL_notin_help)
qed

end
