(* ===== verification/Clock.thy ===== *)
theory Clock
  imports Serial NumText
begin

unbundle bit_operations_syntax

text \<open>
  The clock: \<^verbatim>\<open>user/clock.c\<close>. The real time clock is the CMOS register file of the
  theory \<open>Hardware\<close>; a time and a date are three bytes each. Bit 2 of status register B says
  whether the registers hold binary numbers or BCD digits.

  Uninitialised local arrays are filled by \<open>junk\<close>, an argument the results do not depend
  on. The locale \<open>rtc_codec\<close> is what reading back needs of the encoding of a register; the
  BCD and the binary mode are its two interpretations.
\<close>

record rtc_time =
  second :: u8
  minute :: u8
  hour :: u8

record rtc_date =
  day :: u8
  month :: u8
  year :: u8

abbreviation (input) REG_SECONDS :: u8 where "REG_SECONDS \<equiv> 0x00"
abbreviation (input) REG_MINUTES :: u8 where "REG_MINUTES \<equiv> 0x02"
abbreviation (input) REG_HOURS :: u8 where "REG_HOURS \<equiv> 0x04"
abbreviation (input) REG_DAY :: u8 where "REG_DAY \<equiv> 0x07"
abbreviation (input) REG_MONTH :: u8 where "REG_MONTH \<equiv> 0x08"
abbreviation (input) REG_YEAR :: u8 where "REG_YEAR \<equiv> 0x09"
abbreviation (input) REG_STATUS_B :: u8 where "REG_STATUS_B \<equiv> 0x0B"

section \<open>Registers\<close>

definition bcd_to_bin :: "u8 \<Rightarrow> u8" where
  "bcd_to_bin v = (drop_bit 4 v * 10) + (v AND 0x0F)"

text \<open>The shift is of an \<open>int\<close>; the result is cut to a byte.\<close>

definition bin_to_bcd :: "u8 \<Rightarrow> u8" where
  "bin_to_bcd v = ucast (push_bit 4 (ucast (v div 10) :: 32 word) OR (ucast (v mod 10) :: 32 word))"

definition rtc_read :: "u8 \<Rightarrow> hw \<Rightarrow> u8 \<times> hw" where
  "rtc_read reg m = inb CMOS_DATA (outb CMOS_ADDRESS reg m)"

definition rtc_write :: "u8 \<Rightarrow> u8 \<Rightarrow> hw \<Rightarrow> hw" where
  "rtc_write reg v m = outb CMOS_DATA v (outb CMOS_ADDRESS reg m)"

definition bcd_mode :: "u8 \<Rightarrow> bool" where
  "bcd_mode regB \<longleftrightarrow> regB AND 0x04 = 0"

definition get_time :: "hw \<Rightarrow> rtc_time \<times> hw" where
  "get_time m =
     (let (regB, m) = rtc_read REG_STATUS_B m;
          (s, m) = rtc_read REG_SECONDS m;
          (mi, m) = rtc_read REG_MINUTES m;
          (h, m) = rtc_read REG_HOURS m
      in if bcd_mode regB
         then (\<lparr>second = bcd_to_bin s, minute = bcd_to_bin mi, hour = bcd_to_bin h\<rparr>, m)
         else (\<lparr>second = s, minute = mi, hour = h\<rparr>, m))"

definition set_time :: "rtc_time \<Rightarrow> hw \<Rightarrow> hw" where
  "set_time t m =
     (let (regB, m) = rtc_read REG_STATUS_B m;
          m = cli m;
          m = (if bcd_mode regB
               then rtc_write REG_HOURS (bin_to_bcd (hour t))
                      (rtc_write REG_MINUTES (bin_to_bcd (minute t))
                        (rtc_write REG_SECONDS (bin_to_bcd (second t)) m))
               else rtc_write REG_HOURS (hour t)
                      (rtc_write REG_MINUTES (minute t) (rtc_write REG_SECONDS (second t) m)))
      in sti m)"

definition get_date :: "hw \<Rightarrow> rtc_date \<times> hw" where
  "get_date m =
     (let (regB, m) = rtc_read REG_STATUS_B m;
          (d, m) = rtc_read REG_DAY m;
          (mo, m) = rtc_read REG_MONTH m;
          (y, m) = rtc_read REG_YEAR m
      in if bcd_mode regB
         then (\<lparr>day = bcd_to_bin d, month = bcd_to_bin mo, year = bcd_to_bin y\<rparr>, m)
         else (\<lparr>day = d, month = mo, year = y\<rparr>, m))"

definition set_date :: "rtc_date \<Rightarrow> hw \<Rightarrow> hw" where
  "set_date d m =
     (let (regB, m) = rtc_read REG_STATUS_B m;
          m = cli m;
          m = (if bcd_mode regB
               then rtc_write REG_YEAR (bin_to_bcd (year d))
                      (rtc_write REG_MONTH (bin_to_bcd (month d))
                        (rtc_write REG_DAY (bin_to_bcd (day d)) m))
               else rtc_write REG_YEAR (year d)
                      (rtc_write REG_MONTH (month d) (rtc_write REG_DAY (day d) m)))
      in sti m)"

section \<open>Printing\<close>

definition print_str :: "cbuf \<Rightarrow> io \<Rightarrow> io c" where
  "print_str b s = bindE (strlen b) (\<lambda>n. sys_req_WRITE COM1 b n s)"

text \<open>\<open>if (v < 10) my_strcat(buffer, "0"); itoa(v, num); my_strcat(buffer, num);
  my_strcat(buffer, sep)\<close>\<close>

definition put_field :: "u8 \<Rightarrow> string \<Rightarrow> cbuf \<times> cbuf \<Rightarrow> (cbuf \<times> cbuf) c" where
  "put_field v sep = (\<lambda>(buffer, num).
     bindE (if v < 10 then my_strcat buffer (lit ''0'') else Inr buffer) (\<lambda>buffer.
     bindE (itoa (uint v) num) (\<lambda>num.
     bindE (my_strcat buffer num) (\<lambda>buffer.
     bindE (my_strcat buffer (lit sep)) (\<lambda>buffer. Inr (buffer, num))))))"

definition print_time :: "(nat \<Rightarrow> char) \<Rightarrow> rtc_time \<Rightarrow> io \<Rightarrow> io c" where
  "print_time junk t s =
     bindE (my_strcpy (local_array junk 100) (lit (CR # LF # ''Time: ''))) (\<lambda>buffer.
     bindE (put_field (hour t) '':'' (buffer, local_array junk 4)) (\<lambda>st.
     bindE (put_field (minute t) '':'' st) (\<lambda>st.
     bindE (put_field (second t) [CR, LF, LF] st) (\<lambda>(buffer, num).
     print_str buffer s))))"

definition print_date :: "(nat \<Rightarrow> char) \<Rightarrow> rtc_date \<Rightarrow> io \<Rightarrow> io c" where
  "print_date junk d s =
     bindE (my_strcpy (local_array junk 100) (lit (CR # LF # ''Date: ''))) (\<lambda>buffer.
     bindE (put_field (month d) ''/'' (buffer, local_array junk 4)) (\<lambda>st.
     bindE (put_field (day d) ''/'' st) (\<lambda>st.
     bindE (put_field (year d) [CR, LF, LF] st) (\<lambda>(buffer, num).
     print_str buffer s))))"

definition clock_help_text :: string where
  "clock_help_text =
     CR # LF # ESC # ''[33mclock'' @ ESC # ''[0m ['' @ ESC # ''[36mget'' @ ESC # ''[0m|'' @
     ESC # ''[36mset'' @ ESC # ''[0m|'' @ ESC # ''[36mhelp'' @ ESC # ''[0m]  ['' @ ESC #
     ''[36mtime'' @ ESC # ''[0m <'' @ ESC # ''[36mHH:MM:SS'' @ ESC # ''[0m>|'' @ ESC #
     ''[36mdate'' @ ESC # ''[0m <'' @ ESC # ''[36mMM/DD/YY'' @ ESC # ''[0m>]'' @ CR # LF #
     ''  '' @ ESC # ''[33mclock'' @ ESC #
     ''[0m                        prints the current date and time.'' @ CR # LF # ''  '' @
     ESC # ''[33mclock'' @ ESC # ''[0m '' @ ESC # ''[36mget'' @ ESC # ''[0m '' @ ESC #
     ''[36mtime'' @ ESC #
     ''[0m               prints the current time as: hour:minute:second.'' @ CR # LF # ''  '' @
     ESC # ''[33mclock'' @ ESC # ''[0m '' @ ESC # ''[36mget'' @ ESC # ''[0m '' @ ESC #
     ''[36mdate'' @ ESC # ''[0m               prints the current date as: month/day/year.'' @
     CR # LF # ''  '' @ ESC # ''[33mclock'' @ ESC # ''[0m '' @ ESC # ''[36mset'' @ ESC #
     ''[0m '' @ ESC # ''[36mtime'' @ ESC # ''[0m <'' @ ESC # ''[36mHH:MM:SS'' @ ESC #
     ''[0m>    sets the current time to: hour:minute:second.'' @ CR # LF # ''  '' @ ESC #
     ''[33mclock'' @ ESC # ''[0m '' @ ESC # ''[36mset'' @ ESC # ''[0m '' @ ESC # ''[36mdate'' @
     ESC # ''[0m <'' @ ESC # ''[36mMM/DD/YY'' @ ESC #
     ''[0m>    sets the current date to: month/day/year.'' @ CR # LF # ''  '' @ ESC #
     ''[33mclock'' @ ESC # ''[0m '' @ ESC # ''[36mhelp'' @ ESC #
     ''[0m                   prints this message'' @ CR # LF # CR # [LF]"

definition clock_help :: "io \<Rightarrow> io c" where
  "clock_help = print_str (lit clock_help_text)"

section \<open>The clock command\<close>

definition on_hw :: "(hw \<Rightarrow> 'a \<times> hw) \<Rightarrow> io \<Rightarrow> 'a \<times> io" where
  "on_hw f s = (let (x, m) = f (devices s) in (x, s\<lparr>devices := m\<rparr>))"

text \<open>The two characters at \<open>i\<close>, and the number they stand for.\<close>

definition two_digits :: "cbuf \<Rightarrow> nat \<Rightarrow> int c" where
  "two_digits val i =
     bindE (peek val i) (\<lambda>a. bindE (peek val (i + 1)) (\<lambda>b. atoi [a, b, NUL]))"

definition bad_format :: "cbuf \<Rightarrow> char \<Rightarrow> bool c" where
  "bad_format val sep =
     bindE (strlen val) (\<lambda>n.
     if n \<noteq> 8 then Inr True
     else bindE (peek val 2) (\<lambda>a. if a \<noteq> sep then Inr True
     else bindE (peek val 5) (\<lambda>b. Inr (b \<noteq> sep))))"

definition set_time_command :: "cbuf \<Rightarrow> io \<Rightarrow> io c" where
  "set_time_command val s =
     bindE (bad_format val (CHR '':'')) (\<lambda>bad.
     if bad then bindE (print_str (lit (ESC # ''[31mInvalid format. Use set time <HH:MM:SS>'' @
                                        ESC # ''[0m'' @ CR # [LF])) s) clock_help
     else
       bindE (two_digits val 0) (\<lambda>h.
       bindE (two_digits val 3) (\<lambda>mi.
       bindE (two_digits val 6) (\<lambda>sec.
       if h < 0 \<or> h > 23 \<or> mi < 0 \<or> mi > 59 \<or> sec < 0 \<or> sec > 59
       then bindE (print_str (lit (ESC # ''[31mInvalid time values.'' @ ESC # ''[0m'' @ CR #
                                   [LF])) s) clock_help
       else Inr (s\<lparr>devices := set_time
              \<lparr>second = of_int sec, minute = of_int mi, hour = of_int h\<rparr> (devices s)\<rparr>)))))"

definition set_date_command :: "cbuf \<Rightarrow> io \<Rightarrow> io c" where
  "set_date_command val s =
     bindE (bad_format val (CHR ''/'')) (\<lambda>bad.
     if bad then bindE (print_str (lit (ESC # ''[31mInvalid format. Use set date <MM/DD/YY>'' @
                                        ESC # ''[0m'' @ CR # [LF])) s) clock_help
     else
       bindE (two_digits val 0) (\<lambda>mo.
       bindE (two_digits val 3) (\<lambda>d.
       bindE (two_digits val 6) (\<lambda>y.
       if d < 1 \<or> d > 31 \<or> mo < 1 \<or> mo > 12
       then bindE (print_str (lit (ESC # ''[31mInvalid date values.'' @ ESC # ''[0m'' @ CR #
                                   [LF])) s) clock_help
       else Inr (s\<lparr>devices := set_date
              \<lparr>day = of_int d, month = of_int mo, year = of_int y\<rparr> (devices s)\<rparr>)))))"

definition clock_command :: "(nat \<Rightarrow> char) \<Rightarrow> cptr \<Rightarrow> io \<Rightarrow> io c" where
  "clock_command junk args s =
     bindE (case args of None \<Rightarrow> Inr True | Some a \<Rightarrow> bindE (peek a 0) (\<lambda>ch. Inr (ch = NUL))) (\<lambda>none.
     if none then
       let (t, s) = on_hw get_time s; (d, s) = on_hw get_date s
       in bindE (print_date junk d s) (print_time junk t)
     else case args of None \<Rightarrow> Inl NullDeref | Some a \<Rightarrow>
       bindE (strcmp a (lit ''get time'')) (\<lambda>r. if r = 0
         then let (t, s) = on_hw get_time s in print_time junk t s
       else bindE (strcmp a (lit ''get date'')) (\<lambda>r. if r = 0
         then let (d, s) = on_hw get_date s in print_date junk d s
       else bindE (strncmp a (lit ''set time '') 9) (\<lambda>r. if r = 0
         then set_time_command (drop 9 a) s
       else bindE (strncmp a (lit ''set date '') 9) (\<lambda>r. if r = 0
         then set_date_command (drop 9 a) s
       else bindE (strcmp a (lit ''help'')) (\<lambda>r. if r = 0
         then clock_help s
       else bindE (print_str (lit (ESC # ''[31mInvalid argument. Please try again.'' @ ESC #
                                   ''[0m'' @ CR # [LF])) s) clock_help))))))"

section \<open>tz\_correction\<close>

text \<open>The computation between reading and writing the clock. Hours are \<open>int\<close>, the fields of
  the date are bytes; of a month that is none of 1 to 12 the day is left.\<close>

definition last_day :: "rtc_date \<Rightarrow> u8" where
  "last_day d =
     (if month d \<in> {1, 3, 5, 7, 8, 10, 12} then 31
      else if month d \<in> {4, 6, 9, 11} then 30
      else if month d = 2 then if year d mod 4 = 0 then 29 else 28
      else day d)"

definition tz_shift :: "rtc_time \<Rightarrow> rtc_date \<Rightarrow> rtc_time \<times> rtc_date" where
  "tz_shift t d =
     (let new_hour = uint (hour t) - 4
      in if new_hour < 0 then
           let d = d\<lparr>day := day d - 1\<rparr>;
               d = (if day d < 1 then
                      let d = d\<lparr>month := month d - 1\<rparr>;
                          d = (if month d < 1 then d\<lparr>month := 12, year := year d - 1\<rparr> else d)
                      in d\<lparr>day := last_day d\<rparr>
                    else d)
           in (t\<lparr>hour := of_int (new_hour + 24)\<rparr>, d)
         else (t\<lparr>hour := of_int new_hour\<rparr>, d))"

definition tz_correction :: "hw \<Rightarrow> hw" where
  "tz_correction m =
     (let (t, m) = get_time m; (d, m) = get_date m; (t, d) = tz_shift t d
      in set_date d (set_time t m))"

section \<open>The register file\<close>

lemma rtc_read_eq [simp]:
  "reg \<in> {0, 2, 4, 7, 8, 9, 11} \<Longrightarrow> rtc_read reg m = (cmos m reg, m\<lparr>cmos_index := reg\<rparr>)"
  by (auto simp: rtc_read_def outb_def inb_def)

lemma rtc_write_eq [simp]:
  "reg \<in> {0, 2, 4, 7, 8, 9, 11} \<Longrightarrow> rtc_write reg v m = m\<lparr>cmos_index := reg, cmos := (cmos m)(reg := v)\<rparr>"
  by (auto simp: rtc_write_def outb_def)

definition bcd_clock :: "hw \<Rightarrow> bool" where
  "bcd_clock m \<longleftrightarrow> bcd_mode (cmos m REG_STATUS_B)"

definition encode :: "bool \<Rightarrow> u8 \<Rightarrow> u8" where
  "encode bcd v = (if bcd then bin_to_bcd v else v)"

definition decode :: "bool \<Rightarrow> u8 \<Rightarrow> u8" where
  "decode bcd v = (if bcd then bcd_to_bin v else v)"

definition clock_time :: "hw \<Rightarrow> rtc_time" where
  "clock_time m = \<lparr>second = decode (bcd_clock m) (cmos m 0), minute = decode (bcd_clock m) (cmos m 2),
     hour = decode (bcd_clock m) (cmos m 4)\<rparr>"

definition clock_date :: "hw \<Rightarrow> rtc_date" where
  "clock_date m = \<lparr>day = decode (bcd_clock m) (cmos m 7), month = decode (bcd_clock m) (cmos m 8),
     year = decode (bcd_clock m) (cmos m 9)\<rparr>"

lemma get_time_eq: "get_time m = (clock_time m, m\<lparr>cmos_index := 4\<rparr>)"
  by (simp add: get_time_def clock_time_def bcd_clock_def decode_def)

lemma get_date_eq: "get_date m = (clock_date m, m\<lparr>cmos_index := 9\<rparr>)"
  by (simp add: get_date_def clock_date_def bcd_clock_def decode_def)

lemma set_time_eq:
  "set_time t m = m\<lparr>cmos_index := 4, interrupts_on := True,
     cmos := (cmos m)(0 := encode (bcd_clock m) (second t), 2 := encode (bcd_clock m) (minute t),
       4 := encode (bcd_clock m) (hour t))\<rparr>"
  by (simp add: set_time_def cli_def sti_def bcd_clock_def encode_def)

lemma set_date_eq:
  "set_date d m = m\<lparr>cmos_index := 9, interrupts_on := True,
     cmos := (cmos m)(7 := encode (bcd_clock m) (day d), 8 := encode (bcd_clock m) (month d),
       9 := encode (bcd_clock m) (year d))\<rparr>"
  by (simp add: set_date_def cli_def sti_def bcd_clock_def encode_def)

section \<open>The encodings\<close>

locale rtc_codec =
  fixes enc :: "u8 \<Rightarrow> u8" and dec :: "u8 \<Rightarrow> u8" and ok :: "u8 \<Rightarrow> bool"
  assumes dec_enc: "ok v \<Longrightarrow> dec (enc v) = v"
begin

lemma reads_back: "ok v \<Longrightarrow> dec (((cmos m)(reg := enc v)) reg) = v"
  by (simp add: dec_enc)

lemma enc_inj: "ok v \<Longrightarrow> ok w \<Longrightarrow> enc v = enc w \<Longrightarrow> v = w"
  by (metis dec_enc)

end

lemma bcd_all: "list_all (\<lambda>n. bcd_to_bin (bin_to_bcd (of_nat n)) = of_nat n) [0..<100]"
  by code_simp

interpretation bcd: rtc_codec bin_to_bcd bcd_to_bin "\<lambda>v. v < 100"
proof
  fix v :: u8 assume "v < 100"
  then have "unat v < 100" by (simp add: word_less_nat_alt)
  then have "bcd_to_bin (bin_to_bcd (of_nat (unat v))) = of_nat (unat v)"
    using bcd_all unfolding list_all_iff by (metis atLeastLessThan_iff le0 set_upt)
  then show "bcd_to_bin (bin_to_bcd v) = v" by simp
qed

interpretation binary: rtc_codec "\<lambda>v. v" "\<lambda>v. v" "\<lambda>_. True"
  by unfold_locales simp

text \<open>Both modes at once: a value a clock register can hold is read back.\<close>

interpretation mode: rtc_codec "encode b" "decode b" "\<lambda>v. v < 100" for b
  by unfold_locales (simp add: encode_def decode_def bcd.dec_enc)

section \<open>What is printed\<close>

text \<open>A number of at most three digits, with a leading 0 when it has one.\<close>

definition two :: "u8 \<Rightarrow> string" where
  "two v = (if v < 10 then ''0'' else []) @ show_int (uint v)"

lemma strcat_text:
  assumes "terminated b" and "terminated src" and "length (text_of b) + length (text_of src) < length b"
  obtains b' where "my_strcat b src = Inr b'" "length b' = length b" "terminated b'"
    "text_of b' = text_of b @ text_of src"
proof -
  have "text_of (text_of b @ text_of src @ NUL # r) = text_of b @ text_of src" for r
    using text_of_take[of "text_of b @ text_of src" "text_of b @ text_of src @ NUL # r"] by simp
  then show ?thesis using that my_strcat_spec[OF assms] assms(3) by simp
qed

lemma put_field_text:
  assumes b: "terminated b" "length b = 100" "length (text_of b) + 8 < 100" and num: "length num = 4"
    and sep: "NUL \<notin> set sep" "length sep \<le> 4"
  obtains b' num' where "put_field v sep (b, num) = Inr (b', num')" "terminated b'" "length b' = 100"
    "length num' = 4" "text_of b' = text_of b @ two v @ sep"
proof -
  have v: "0 \<le> uint v" "uint v \<le> 255" using uint_range_size[of v] by (simp_all add: word_size)
  then have l: "length (show_int (uint v)) \<le> 3" using length_show_int_nonneg[of "uint v" 2] by simp
  obtain b1 where b1: "(if v < 10 then my_strcat b (lit ''0'') else Inr b) = Inr b1" "length b1 = 100"
    "terminated b1" "text_of b1 = text_of b @ (if v < 10 then ''0'' else [])"
    by (cases "v < 10"; (use strcat_text[of b "lit ''0''"] b in auto))
  have len1: "length (text_of b1) < 93" using b1(4) b(3) by (cases "v < 10") simp_all
  let ?n = "show_int (uint v) @ NUL # drop (length (show_int (uint v)) + 1) num"
  have n: "itoa (uint v) num = Inr ?n" using itoa_spec[of "uint v" num] v l num by simp
  have tn: "terminated ?n" "text_of ?n = show_int (uint v)" "length ?n = 4"
    using text_of_take[of "show_int (uint v)" ?n] NUL_notin_show_int l num by simp_all
  obtain b2 where b2: "my_strcat b1 ?n = Inr b2" "length b2 = 100" "terminated b2"
    "text_of b2 = text_of b1 @ show_int (uint v)"
    by (rule strcat_text[of b1 ?n]) (use b1 tn l len1 in auto)
  obtain b3 where b3: "my_strcat b2 (lit sep) = Inr b3" "length b3 = 100" "terminated b3"
    "text_of b3 = text_of b2 @ sep"
    by (rule strcat_text[of b2 "lit sep"]) (use b2 l len1 sep in auto)
  show ?thesis
    using that[of b3 ?n] b1 b2 b3 n tn(3) by (simp add: put_field_def two_def)
qed

lemma print_str_text:
  assumes "online COM1 s" and "terminated b"
  shows "print_str b s = Inr (set_line COM1 (sent COM1 s @ text_of b) (pending COM1 s) s)"
proof -
  obtain r where "b = text_of b @ NUL # r" using terminated_split[OF assms(2)] by blast
  then have "length (text_of b) \<le> length b" "take (length (text_of b)) b = text_of b"
    by (metis length_append le_add1, metis append_eq_conv_conj)
  then show ?thesis using assms by (simp add: print_str_def sys_req_WRITE_online)
qed

lemma strcpy_text:
  assumes "NUL \<notin> set str" and "length str < length b"
  obtains b' where "my_strcpy b (lit str) = Inr b'" "length b' = length b" "terminated b'" "text_of b' = str"
proof -
  have "text_of (str @ NUL # r) = str" for r using text_of_take[of str "str @ NUL # r"] assms(1) by simp
  then show ?thesis using that my_strcpy_spec[of "lit str" b] assms by simp
qed

lemma fields_text:
  assumes on: "online COM1 s" and hd: "NUL \<notin> set hdr" "length hdr \<le> 20" and sep: "NUL \<notin> set sep" "length sep \<le> 4"
  shows "bindE (my_strcpy (local_array junk 100) (lit hdr)) (\<lambda>buffer.
     bindE (put_field a sep (buffer, local_array junk 4)) (\<lambda>st.
     bindE (put_field b sep st) (\<lambda>st.
     bindE (put_field c [CR, LF, LF] st) (\<lambda>(buffer, num).
     print_str buffer s)))) =
   Inr (set_line COM1 (sent COM1 s @ hdr @ two a @ sep @ two b @ sep @ two c @ [CR, LF, LF]) (pending COM1 s) s)"
proof -
  have len: "length (two v) \<le> 4" for v :: u8
  proof -
    have "uint v \<le> 255" using uint_range_size[of v] by (simp add: word_size)
    then show ?thesis using length_show_int_nonneg[of "uint v" 2] by (simp add: two_def)
  qed
  obtain b0 where b0: "my_strcpy (local_array junk 100) (lit hdr) = Inr b0" "length b0 = 100" "terminated b0" "text_of b0 = hdr"
    using strcpy_text[of hdr "local_array junk 100"] hd by (auto simp: local_array_def)
  have n0: "length (local_array junk 4) = 4" by (simp add: local_array_def)
  obtain b1 n1 where b1: "put_field a sep (b0, local_array junk 4) = Inr (b1, n1)" "terminated b1" "length b1 = 100" "length n1 = 4"
    "text_of b1 = text_of b0 @ two a @ sep"
    by (rule put_field_text[where b = b0 and num = "local_array junk 4" and sep = sep and v = a]) (use b0 hd sep n0 in auto)
  obtain b2 n2 where b2: "put_field b sep (b1, n1) = Inr (b2, n2)" "terminated b2" "length b2 = 100" "length n2 = 4"
    "text_of b2 = text_of b1 @ two b @ sep"
    by (rule put_field_text[where b = b1 and num = n1 and sep = sep and v = b]) (use b0 b1 hd sep len[of a] in auto)
  obtain b3 n3 where b3: "put_field c [CR, LF, LF] (b2, n2) = Inr (b3, n3)" "terminated b3"
    "text_of b3 = text_of b2 @ two c @ [CR, LF, LF]"
    by (rule put_field_text[where b = b2 and num = n2 and sep = "[CR, LF, LF]" and v = c]) (use b0 b1 b2 hd sep len[of a] len[of b] in auto)
  show ?thesis using b0 b1 b2 b3 print_str_text[OF on b3(2)] by simp
qed

lemma print_time_text:
  assumes "online COM1 s"
  shows "print_time junk t s = Inr (set_line COM1 (sent COM1 s @
    [CR, LF] @ ''Time: '' @ two (hour t) @ '':'' @ two (minute t) @ '':'' @ two (second t) @ [CR, LF, LF])
    (pending COM1 s) s)"
  using fields_text[OF assms, of "[CR, LF] @ ''Time: ''" "'':''"] by (simp add: print_time_def)

lemma print_date_text:
  assumes "online COM1 s"
  shows "print_date junk d s = Inr (set_line COM1 (sent COM1 s @
    [CR, LF] @ ''Date: '' @ two (month d) @ ''/'' @ two (day d) @ ''/'' @ two (year d) @ [CR, LF, LF])
    (pending COM1 s) s)"
  using fields_text[OF assms, of "[CR, LF] @ ''Date: ''" "''/''"] by (simp add: print_date_def)

section \<open>The calendar\<close>

text \<open>The years 2000 to 2099, in which every fourth year is a leap year.\<close>

definition days_in_month :: "nat \<Rightarrow> nat \<Rightarrow> nat" where
  "days_in_month y m =
     (if m \<in> {1, 3, 5, 7, 8, 10, 12} then 31 else if m \<in> {4, 6, 9, 11} then 30
      else if y mod 4 = 0 then 29 else 28)"

definition valid_date :: "rtc_date \<Rightarrow> bool" where
  "valid_date d \<longleftrightarrow> unat (year d) < 100 \<and> 1 \<le> unat (month d) \<and> unat (month d) \<le> 12 \<and>
     1 \<le> unat (day d) \<and> unat (day d) \<le> days_in_month (unat (year d)) (unat (month d))"

definition day_number :: "nat \<Rightarrow> nat \<Rightarrow> nat \<Rightarrow> nat" where
  "day_number y m d = 365 * y + (y + 3) div 4 + (\<Sum>i = 1..<m. days_in_month y i) + d"

text \<open>Hours since the beginning of the century (plus one day).\<close>

definition hours_of :: "rtc_time \<Rightarrow> rtc_date \<Rightarrow> int" where
  "hours_of t d = 24 * int (day_number (unat (year d)) (unat (month d)) (unat (day d))) + int (unat (hour t))"

lemma day_number_new_year:
  "1 \<le> y \<Longrightarrow> day_number y 1 1 = Suc (day_number (y - 1) 12 31)"
proof -
  assume "1 \<le> y"
  then obtain x where x: "y = Suc x" by (cases y) auto
  have s: "(\<Sum>i = 1..<12. days_in_month x i) = (if x mod 4 = 0 then 335 else 334)"
  proof -
    have "{1..<12} = {1, 2, 3, 4, 5, 6, 7, 8, 9, 10, 11::nat}" by (auto; presburger)
    then show ?thesis by (simp add: days_in_month_def)
  qed
  have "(x + 4) div 4 = (x + 3) div 4 + (if x mod 4 = 0 then 1 else 0)" by presburger
  then show ?thesis using s x by (simp add: day_number_def add.commute)
qed

lemma day_number_new_month:
  "1 < m \<Longrightarrow> day_number y m 1 = Suc (day_number y (m - 1) (days_in_month y (m - 1)))"
  by (cases m) (simp_all add: day_number_def)

lemma unat_pred: "(1::nat) \<le> unat (w::u8) \<Longrightarrow> unat (w - 1) = unat w - 1"
  by (rule unat_minus_one) auto

lemma last_day_spec:
  "1 \<le> unat (month d) \<Longrightarrow> unat (month d) \<le> 12 \<Longrightarrow>
   unat (last_day d) = days_in_month (unat (year d)) (unat (month d))"
  by (auto simp: last_day_def days_in_month_def word_unat_eq_iff unat_mod; presburger)

text \<open>The four ways of \<open>tz_shift\<close>.\<close>

lemma uint_less_4: "uint (w :: u8) < 4 \<longleftrightarrow> unat w < 4"
proof -
  have "uint w = int (unat w)" by simp
  then show ?thesis by linarith
qed

lemma byte_one: "unat (w :: u8) = 1 \<longleftrightarrow> w = 1"
  by (simp add: word_unat_eq_iff)

lemma tz_shift_day:
  "4 \<le> unat (hour t) \<Longrightarrow> tz_shift t d = (t\<lparr>hour := hour t - 4\<rparr>, d)"
  by (simp add: tz_shift_def Let_def uint_less_4)

lemma tz_shift_back:
  assumes "unat (hour t) < 4" and "1 \<le> unat (day d)" and "1 \<le> unat (month d)"
  shows "tz_shift t d = (t\<lparr>hour := hour t + 20\<rparr>,
    if day d \<noteq> 1 then d\<lparr>day := day d - 1\<rparr>
    else if month d \<noteq> 1 then let e = d\<lparr>day := 0, month := month d - 1\<rparr> in e\<lparr>day := last_day e\<rparr>
    else d\<lparr>day := 31, month := 12, year := year d - 1\<rparr>)"
proof -
  have lt: "w - 1 < 1 \<longleftrightarrow> w = 1" if "1 \<le> unat w" for w :: u8
    using unat_pred[OF that] that by (auto simp: word_less_nat_alt byte_one[symmetric])
  have h: "uint (hour t) - 4 < 0" "word_of_int (uint (hour t) - 4 + 24) = hour t + 20"
    using assms(1) uint_less_4[of "hour t"] by simp_all
  show ?thesis using lt[OF assms(2)] lt[OF assms(3)] h
    by (cases "day d = 1"; cases "month d = 1") (simp_all add: tz_shift_def last_day_def)
qed

text \<open>One day back in the calendar, as the code goes back: in the month, into the month before, into the
  year before.\<close>

definition day_before :: "rtc_date \<Rightarrow> rtc_date" where
  "day_before d = (if day d \<noteq> 1 then d\<lparr>day := day d - 1\<rparr>
    else if month d \<noteq> 1 then let e = d\<lparr>day := 0, month := month d - 1\<rparr> in e\<lparr>day := last_day e\<rparr>
    else d\<lparr>day := 31, month := 12, year := year d - 1\<rparr>)"

abbreviation calendar_day :: "rtc_date \<Rightarrow> nat" where
  "calendar_day d \<equiv> day_number (unat (year d)) (unat (month d)) (unat (day d))"

lemma days_in_month_bounds: "28 \<le> days_in_month y m" "days_in_month y m \<le> 31"
  by (auto simp: days_in_month_def)

lemma day_before_in_month:
  assumes "valid_date d" and "unat (day d) \<noteq> 1"
  shows "valid_date (day_before d) \<and> Suc (calendar_day (day_before d)) = calendar_day d"
proof -
  have d: "1 \<le> unat (day d)" using assms(1) by (simp add: valid_date_def)
  have "day d \<noteq> 1" using assms(2) by auto
  moreover have "unat (day d - 1) = unat (day d) - 1" by (rule unat_pred[OF d])
  moreover obtain n where "unat (day d) = Suc (Suc n)"
    using assms(2) d by (metis One_nat_def Suc_le_D Suc_le_eq le_neq_implies_less not0_implies_Suc)
  ultimately show ?thesis using assms(1) by (simp add: day_before_def valid_date_def day_number_def)
qed

lemma day_before_new_month:
  assumes v: "valid_date d" and "unat (day d) = 1" and "unat (month d) \<noteq> 1"
  shows "valid_date (day_before d) \<and> Suc (calendar_day (day_before d)) = calendar_day d"
proof -
  have dm: "1 \<le> unat (month d)" "unat (month d) \<le> 12" "unat (year d) < 100" using v by (auto simp: valid_date_def)
  have m: "1 < unat (month d)" "month d \<noteq> 1" and w1: "day d = 1" using dm assms(2,3) iffD1[OF byte_one] by auto
  define e where "e = d\<lparr>day := 0, month := month d - 1\<rparr>"
  have d': "day_before d = e\<lparr>day := last_day e\<rparr>" using w1 m by (simp add: day_before_def e_def Let_def)
  have em: "unat (month e) = unat (month d) - 1" "year e = year d"
    using unat_pred[OF dm(1)] by (simp_all add: e_def)
  have "unat (last_day e) = days_in_month (unat (year e)) (unat (month e))"
    using em m dm by (intro last_day_spec) simp_all
  moreover have "1 \<le> unat (month d) - 1 \<and> unat (month d) - 1 \<le> 12" using m dm(2) by linarith
  ultimately show ?thesis
    using day_number_new_month[OF m(1), of "unat (year d)"] em dm assms(2)
      days_in_month_bounds(1)[of "unat (year d)" "unat (month d) - 1"]
    by (simp add: d' valid_date_def)
qed

lemma day_before_new_year:
  assumes v: "valid_date d" and "unat (day d) = 1" and "unat (month d) = 1" and y: "1 \<le> unat (year d)"
  shows "valid_date (day_before d) \<and> Suc (calendar_day (day_before d)) = calendar_day d"
proof -
  have w: "day d = 1" "month d = 1" using assms(2,3) by (simp_all only: byte_one)
  have "unat (year d - 1) = unat (year d) - 1" by (rule unat_pred[OF y])
  moreover have "days_in_month x 12 = 31" for x by (simp add: days_in_month_def)
  moreover have "unat (year d) < 100" using v by (simp add: valid_date_def)
  ultimately show ?thesis using day_number_new_year[OF y] w by (simp add: day_before_def valid_date_def)
qed

lemma tz_shift_calendar:
  assumes d: "valid_date d" and h: "unat (hour t) < 24"
    and later: "unat (hour t) < 4 \<Longrightarrow> \<not> (unat (year d) = 0 \<and> unat (month d) = 1 \<and> unat (day d) = 1)"
  defines "t' \<equiv> fst (tz_shift t d)" and "d' \<equiv> snd (tz_shift t d)"
  shows "valid_date d'" "unat (hour t') < 24" "hours_of t' d' = hours_of t d - 4"
    "minute t' = minute t" "second t' = second t"
proof -
  have dm: "1 \<le> unat (month d)" "1 \<le> unat (day d)" using d by (auto simp: valid_date_def)
  have "valid_date d' \<and> unat (hour t') < 24 \<and> hours_of t' d' = hours_of t d - 4 \<and>
    minute t' = minute t \<and> second t' = second t"
  proof (cases "4 \<le> unat (hour t)")
    case True
    then have "unat (hour t - 4) = unat (hour t) - 4" by (simp add: unat_sub word_le_nat_alt)
    then show ?thesis using True h d
      by (simp add: t'_def d'_def tz_shift_day hours_of_def of_nat_diff del: of_nat_unat)
  next
    case False
    then have lt: "unat (hour t) < 4" by simp
    then have u: "unat (hour t + 20) = unat (hour t) + 20"
      using unat_add_lem[of "hour t" 20] by simp
    have "t' = t\<lparr>hour := hour t + 20\<rparr>" "d' = day_before d"
      using tz_shift_back[OF lt dm(2,1)] by (simp_all add: t'_def d'_def day_before_def)
    moreover have "valid_date (day_before d) \<and> Suc (calendar_day (day_before d)) = calendar_day d"
      using day_before_in_month[OF d] day_before_new_month[OF d] day_before_new_year[OF d] later[OF lt]
      by (cases "unat (day d) = 1"; cases "unat (month d) = 1") auto
    ultimately show ?thesis using u lt by (simp add: hours_of_def)
  qed
  then show "valid_date d'" "unat (hour t') < 24" "hours_of t' d' = hours_of t d - 4"
    "minute t' = minute t" "second t' = second t" by auto
qed

section \<open>Setting the clock from the command line\<close>

definition tens_ones :: "nat \<Rightarrow> string" where
  "tens_ones n = [digit_char (n div 10), digit_char (n mod 10)]"

lemma atoi_tens_ones: "n < 100 \<Longrightarrow> atoi (tens_ones n @ [NUL]) = Inr (int n)"
proof -
  assume n: "n < 100"
  have d: "n div 10 < 10" using n by (simp add: less_mult_imp_div_less)
  have e: "digits_value [n div 10, n mod 10] = n"
    unfolding digits_value_def foldl.simps mult_zero_left add_0 by (rule div_mult_mod_eq)
  have z: "\<not> is_digit_char NUL" by (simp add: is_digit_char_def schar_def)
  have "\<forall>x\<in>set [n div 10, n mod 10]. x < 10" using d by auto
  from atoi_unsigned[OF _ this z, of "[]"] show ?thesis using n
    unfolding e tens_ones_def by (simp only: list.map append.simps) simp
qed

definition clock_text :: "nat \<Rightarrow> char \<Rightarrow> nat \<Rightarrow> char \<Rightarrow> nat \<Rightarrow> string" where
  "clock_text a x b y c' = tens_ones a @ x # tens_ones b @ y # tens_ones c'"

lemma two_digits_clock_text:
  assumes "a < 100" "b < 100" "c' < 100"
  shows "two_digits (lit (clock_text a x b y c')) 0 = Inr (int a)"
    "two_digits (lit (clock_text a x b y c')) 3 = Inr (int b)"
    "two_digits (lit (clock_text a x b y c')) 6 = Inr (int c')"
proof -
  have l: "lit (clock_text a x b y c') = [digit_char (a div 10), digit_char (a mod 10), x,
      digit_char (b div 10), digit_char (b mod 10), y, digit_char (c' div 10), digit_char (c' mod 10), NUL]"
    by (simp add: lit_def clock_text_def tens_ones_def)
  have t: "atoi [digit_char (n div 10), digit_char (n mod 10), NUL] = Inr (int n)" if "n < 100" for n
    using atoi_tens_ones[OF that] by (simp add: tens_ones_def)
  show "two_digits (lit (clock_text a x b y c')) 0 = Inr (int a)"
    "two_digits (lit (clock_text a x b y c')) 3 = Inr (int b)"
    "two_digits (lit (clock_text a x b y c')) 6 = Inr (int c')"
    unfolding l two_digits_def by (simp_all add: t[OF assms(1)] t[OF assms(2)] t[OF assms(3)])
qed

lemma digit_char_not_NUL: "d < 10 \<Longrightarrow> digit_char d \<noteq> NUL"
  using NUL_notin_show_int[of "int d"] show_int_small[of "int d"] by simp

lemma NUL_notin_clock_text:
  assumes "a < 100" "b < 100" "c' < 100" "x \<noteq> NUL" "y \<noteq> NUL"
  shows "NUL \<notin> set (clock_text a x b y c')"
  using assms digit_char_not_NUL less_mult_imp_div_less[of _ 10 10]
  by (auto simp: clock_text_def tens_ones_def dest: sym)

lemma bad_format_clock_text:
  assumes "a < 100" "b < 100" "c' < 100" "x \<noteq> NUL" "y \<noteq> NUL"
  shows "bad_format (lit (clock_text a x b y c')) sep = Inr (x \<noteq> sep \<or> y \<noteq> sep)"
proof -
  have l: "lit (clock_text a x b y c') = [digit_char (a div 10), digit_char (a mod 10), x,
      digit_char (b div 10), digit_char (b mod 10), y, digit_char (c' div 10), digit_char (c' mod 10), NUL]"
    by (simp add: lit_def clock_text_def tens_ones_def)
  have "strlen (lit (clock_text a x b y c')) = Inr 8"
    using NUL_notin_clock_text[OF assms] by (simp add: clock_text_def tens_ones_def)
  then show ?thesis unfolding bad_format_def l by simp
qed

section \<open>Properties\<close>

text \<open>What is written to the clock is read back, in BCD and in binary mode: after
  \<open>set_time\<close>, \<open>get_time\<close> returns the same time (fields below 100), the date registers are
  untouched and interrupts are enabled.\<close>

theorem set_time_get_time:
  assumes "second t < 100" and "minute t < 100" and "hour t < 100"
  shows "fst (get_time (set_time t m)) = t \<and> fst (get_date (set_time t m)) = fst (get_date m) \<and>
    interrupts_on (set_time t m)"
  using assms by (simp add: get_time_eq get_date_eq set_time_eq clock_time_def clock_date_def
      bcd_clock_def mode.dec_enc)

text \<open>The same for the date.\<close>

theorem set_date_get_date:
  assumes "day d < 100" and "month d < 100" and "year d < 100"
  shows "fst (get_date (set_date d m)) = d \<and> fst (get_time (set_date d m)) = fst (get_time m) \<and>
    interrupts_on (set_date d m)"
  using assms by (simp add: get_time_eq get_date_eq set_date_eq clock_time_def clock_date_def
      bcd_clock_def mode.dec_enc)

text \<open>What is written to the clock is read back, in BCD and in binary mode: after
  \<open>set_time\<close>, \<open>get_time\<close> returns the same time, and after \<open>set_date\<close>, \<open>get_date\<close> the same
  date (fields below 100). Each leaves the other registers alone and enables interrupts.\<close>

theorem clock_roundtrip:
  assumes "second t < 100" and "minute t < 100" and "hour t < 100"
    and "day d < 100" and "month d < 100" and "year d < 100"
  shows "fst (get_time (set_time t m)) = t \<and> fst (get_date (set_time t m)) = fst (get_date m) \<and>
    interrupts_on (set_time t m) \<and>
    fst (get_date (set_date d m)) = d \<and> fst (get_time (set_date d m)) = fst (get_time m) \<and>
    interrupts_on (set_date d m)"
  using set_time_get_time[OF assms(1-3)] set_date_get_date[OF assms(4-6)] by blast

text \<open>Property C26. \<open>tz_correction\<close> sets the clock back by exactly four hours: for a valid date
  and time later than the first four hours of the century, the date it leaves in the clock is
  valid and date and time together are four hours less, across the ends of days, months
  (with leap years) and years; minutes and seconds stay.\<close>

theorem tz_correction_four_hours:
  assumes "valid_date (clock_date m)" and "unat (hour (clock_time m)) < 24"
    and "minute (clock_time m) < 100" and "second (clock_time m) < 100"
    and "\<not> (clock_date m = \<lparr>day = 1, month = 1, year = 0\<rparr> \<and> unat (hour (clock_time m)) < 4)"
  shows "valid_date (clock_date (tz_correction m)) \<and> unat (hour (clock_time (tz_correction m))) < 24 \<and>
    hours_of (clock_time (tz_correction m)) (clock_date (tz_correction m)) =
      hours_of (clock_time m) (clock_date m) - 4 \<and>
    minute (clock_time (tz_correction m)) = minute (clock_time m) \<and>
    second (clock_time (tz_correction m)) = second (clock_time m)"
proof -
  let ?t = "fst (tz_shift (clock_time m) (clock_date m))" and ?d = "snd (tz_shift (clock_time m) (clock_date m))"
  have later: "\<not> (unat (year (clock_date m)) = 0 \<and> unat (month (clock_date m)) = 1 \<and> unat (day (clock_date m)) = 1)"
    if "unat (hour (clock_time m)) < 4"
    using assms(5) that byte_one by (metis rtc_date.surjective rtc_date.select_convs unat_eq_zero old.unit.exhaust)
  note shift = tz_shift_calendar[OF assms(1,2) later]
  have lt: "year ?d < 100" "month ?d < 100" "day ?d < 100" "hour ?t < 100"
    using shift(1,2) by (auto simp: valid_date_def word_less_nat_alt days_in_month_def split: if_splits)
  have tz: "tz_correction m = set_date ?d (set_time ?t (m\<lparr>cmos_index := 9\<rparr>))"
    by (simp add: tz_correction_def get_time_eq get_date_eq clock_time_def clock_date_def bcd_clock_def split_beta)
  have "clock_time (tz_correction m) = ?t" "clock_date (tz_correction m) = ?d"
    using lt shift(4,5) assms(3,4)
    by (simp_all add: tz set_time_eq set_date_eq clock_time_def clock_date_def bcd_clock_def mode.dec_enc)
  then show ?thesis using shift by simp
qed

text \<open>In the first four hours of the year 00 the year byte wraps: the corrected
  date is December 31 of year 255, which a clock in BCD mode stores, and reads back, as 95.\<close>

theorem tz_correction_century:
  assumes "clock_date m = \<lparr>day = 1, month = 1, year = 0\<rparr>" and "unat (hour (clock_time m)) < 4" and "bcd_clock m"
  shows "clock_date (tz_correction m) = \<lparr>day = 31, month = 12, year = 95\<rparr>"
proof -
  let ?t = "clock_time m"
  have "tz_shift ?t (clock_date m) = (?t\<lparr>hour := hour ?t + 20\<rparr>, \<lparr>day = 31, month = 12, year = 255\<rparr>)"
    using tz_shift_back[OF assms(2), of "clock_date m"] by (simp add: assms(1))
  then have tz: "tz_correction m = set_date \<lparr>day = 31, month = 12, year = 255\<rparr>
      (set_time (?t\<lparr>hour := hour ?t + 20\<rparr>) (m\<lparr>cmos_index := 9\<rparr>))"
    by (simp add: tz_correction_def get_time_eq get_date_eq clock_time_def clock_date_def bcd_clock_def)
  have "bcd_to_bin (bin_to_bcd 31) = 31" "bcd_to_bin (bin_to_bcd 12) = 12" "bcd_to_bin (bin_to_bcd 255) = 95"
    by code_simp+
  then show ?thesis using assms(3)
    by (simp add: tz set_date_eq set_time_eq clock_date_def bcd_clock_def encode_def decode_def)
qed

text \<open>\<open>print_time\<close> and \<open>print_date\<close> send the header and the three numbers, with
  a leading 0 below 10, and no buffer overflows, whatever the uninitialised arrays hold.\<close>

theorem print_time_and_date:
  assumes "online COM1 s"
  shows "print_time junk t s = Inr (set_line COM1 (sent COM1 s @ [CR, LF] @ ''Time: '' @
      two (hour t) @ '':'' @ two (minute t) @ '':'' @ two (second t) @ [CR, LF, LF]) (pending COM1 s) s) \<and>
    print_date junk d s = Inr (set_line COM1 (sent COM1 s @ [CR, LF] @ ''Date: '' @
      two (month d) @ ''/'' @ two (day d) @ ''/'' @ two (year d) @ [CR, LF, LF]) (pending COM1 s) s)"
  using print_time_text[OF assms] print_date_text[OF assms] by blast

text \<open>\<open>clock set time HH:MM:SS\<close> with two-digit numbers sets the clock to this
  time if they are in range, and otherwise prints the error and the help and leaves the clock
  alone.\<close>

theorem clock_set_time_command:
  assumes "online COM1 s" and "h < 100" and "mi < 100" and "sec < 100"
  shows "clock_command junk (Some (lit (''set time '' @ clock_text h (CHR '':'') mi (CHR '':'') sec))) s =
    (if h \<le> 23 \<and> mi \<le> 59 \<and> sec \<le> 59
     then Inr (s\<lparr>devices := set_time \<lparr>second = of_nat sec, minute = of_nat mi, hour = of_nat h\<rparr> (devices s)\<rparr>)
     else Inr (set_line COM1 (sent COM1 s @ ESC # ''[31mInvalid time values.'' @ ESC # ''[0m'' @ [CR, LF] @
       clock_help_text) (pending COM1 s) s))"
proof -
  let ?a = "lit (clock_text h (CHR '':'') mi (CHR '':'') sec)"
  have "clock_command junk (Some (lit (''set time '' @ clock_text h (CHR '':'') mi (CHR '':'') sec))) s =
      set_time_command ?a s"
    by (simp add: clock_command_def lit_def peek_def)
  also have "\<dots> = (if h \<le> 23 \<and> mi \<le> 59 \<and> sec \<le> 59
     then Inr (s\<lparr>devices := set_time \<lparr>second = of_nat sec, minute = of_nat mi, hour = of_nat h\<rparr> (devices s)\<rparr>)
     else bindE (print_str (lit (ESC # ''[31mInvalid time values.'' @ ESC # ''[0m'' @ [CR, LF])) s) clock_help)"
    using bad_format_clock_text[OF assms(2-4), of "CHR '':''" "CHR '':''" "CHR '':''"]
    by (auto simp: set_time_command_def two_digits_clock_text[OF assms(2-4)])
  also have "bindE (print_str (lit (ESC # ''[31mInvalid time values.'' @ ESC # ''[0m'' @ [CR, LF])) s) clock_help =
      Inr (set_line COM1 (sent COM1 s @ ESC # ''[31mInvalid time values.'' @ ESC # ''[0m'' @ [CR, LF] @
       clock_help_text) (pending COM1 s) s)"
  proof -
    have "NUL \<notin> set clock_help_text" by (simp add: clock_help_text_def)
    then show ?thesis using assms(1) by (simp add: print_str_text clock_help_def)
  qed
  finally show ?thesis .
qed

end
