(* ===== verification/Shell.thy ===== *)
theory Shell
  imports ShowPcb Clock
begin

text \<open>
  The commands that only print, and \<open>exit\<close>: \<^verbatim>\<open>user/help.c\<close>, \<^verbatim>\<open>user/version.c\<close>,
  \<^verbatim>\<open>user/yield.c\<close>, \<^verbatim>\<open>user/exit.c\<close>, and the banner of \<^verbatim>\<open>kernel/comhand.c\<close>.

  The macros \<open>GIT_DATE\<close>, \<open>GIT_HASH\<close> and \<open>GIT_DIRTY\<close> are set by the build: they are the
  argument \<open>git\<close>. The trap of \<open>sys_req(IDLE)\<close> is the argument \<open>idle\<close> where a function
  makes it. The confirmation loop of \<open>exit\<close> reads until it gets an answer.
\<close>

definition on_io :: "(io \<Rightarrow> io c) \<Rightarrow> kernel \<Rightarrow> kernel c" where
  "on_io f k = bindE (f (kio k)) (\<lambda>s. Inr (k\<lparr>kio := s\<rparr>))"

section \<open>user/version.c\<close>

record git_info =
  GIT_DATE :: string
  GIT_HASH :: string
  GIT_DIRTY :: string

definition version_help_text :: string where
  "version_help_text =
     CR # LF # ESC # ''[33mversion'' @ ESC # ''[0m ['' @ ESC # ''[36mall'' @ ESC # ''[0m|'' @
     ESC # ''[36mhelp'' @ ESC # ''[0m]'' @ CR # LF # ''  '' @ ESC # ''[33mversion'' @ ESC #
     ''[0m         prints information about the current version as: R<x> <date> <hash> (<status>)'' @
     CR # LF # ''  '' @ ESC # ''[33mversion'' @ ESC # ''[0m '' @ ESC # ''[36mall'' @ ESC #
     ''[0m     prints information about all version history as: R<x> <date> <hash>'' @ CR #
     LF # ''  '' @ ESC # ''[33mversion'' @ ESC # ''[0m '' @ ESC # ''[36mhelp'' @ ESC #
     ''[0m    prints this message'' @ CR # LF # CR # [LF]"

definition version_help :: "kernel \<Rightarrow> kernel c" where
  "version_help = say (lit version_help_text)"

text \<open>\<open>*write_ptr++ = ch\<close> for each character.\<close>

definition put_chars :: "string \<Rightarrow> cbuf \<times> nat \<Rightarrow> (cbuf \<times> nat) c" where
  "put_chars = foldE (\<lambda>ch (buffer, n). bindE (put buffer n ch) (\<lambda>buffer. Inr (buffer, n + 1)))"

definition version_latest :: "(nat \<Rightarrow> char) \<Rightarrow> git_info \<Rightarrow> kernel \<Rightarrow> kernel c" where
  "version_latest junk git k =
     bindE (put_chars ''R4 '' (local_array junk 128, 0)) (\<lambda>w.
     bindE (put_chars (GIT_DATE git) w) (\<lambda>w.
     bindE (put_chars '' '' w) (\<lambda>w.
     bindE (put_chars (GIT_HASH git) w) (\<lambda>w.
     bindE (put_chars '' '' w) (\<lambda>w.
     bindE (put_chars ''('' w) (\<lambda>w.
     bindE (put_chars (GIT_DIRTY git) w) (\<lambda>w.
     bindE (put_chars ('')'' @ CR # [LF]) w) (\<lambda>(buffer, n).
     bindE (put buffer n NUL) (\<lambda>buffer.
     kwrite buffer n k)))))))))"

definition version_history_text :: string where
  "version_history_text =
     ''R3 2025-10-20 9b0243f'' @ CR # LF # ''R2 2025-10-03 15c9229'' @ CR # LF #
     ''R1 2025-09-12 956ee13'' @ CR # LF # ''R0 2025-08-24 6738747'' @ CR # [LF]"

definition version_history :: "kernel \<Rightarrow> kernel c" where
  "version_history = say (lit version_history_text)"

definition version_command :: "(nat \<Rightarrow> char) \<Rightarrow> git_info \<Rightarrow> cptr \<Rightarrow> kernel \<Rightarrow> kernel c" where
  "version_command junk git args k =
     bindE (no_args args) (\<lambda>none. if none then version_latest junk git k else
     bindE (args_are args ''all'') (\<lambda>b.
       if b then bindE (version_latest junk git k) version_history else
     bindE (args_are args ''help'') (\<lambda>b. if b then version_help k else
     bindE (say (lit (ESC # ''[31mInvalid argument. Please try again.'' @ ESC # ''[0m'' @ CR #
                      [LF])) k) version_help)))"

section \<open>user/yield.c\<close>

definition yield_help_text :: string where
  "yield_help_text =
     CR # LF # ESC # ''[33myield'' @ ESC # ''[0m ['' @ ESC # ''[36mhelp'' @ ESC # ''[0m]'' @
     CR # LF # ''  '' @ ESC # ''[33myield'' @ ESC #
     ''[0m         yields the currently running process'' @ CR # LF # ''  '' @ ESC #
     ''[33myield '' @ ESC # ''[36mhelp    '' @ ESC # ''[0mprints this message'' @ CR # [LF]"

definition yield_help :: "kernel \<Rightarrow> kernel c" where
  "yield_help = say (lit yield_help_text)"

definition yield_command :: "(kernel \<Rightarrow> kernel c) \<Rightarrow> cptr \<Rightarrow> kernel \<Rightarrow> kernel c" where
  "yield_command idle args k =
     bindE (no_args args) (\<lambda>none. if none then idle k else
     bindE (args_are args ''help'') (\<lambda>b. if b then yield_help k else Inr k))"

section \<open>user/exit.c\<close>

definition exit_help_text :: string where
  "exit_help_text =
     CR # LF # ESC # ''[33mexit'' @ ESC # ''[0m ['' @ ESC # ''[36mhelp'' @ ESC # ''[0m|'' @
     ESC # ''[36mforce'' @ ESC # ''[0m]'' @ CR # LF # ''  '' @ ESC # ''[33mexit'' @ ESC #
     ''[0m          prompts for confirmation before shutting down'' @ CR # LF # ''  '' @ ESC #
     ''[33mexit'' @ ESC # ''[0m '' @ ESC # ''[36mhelp'' @ ESC #
     ''[0m     displays this message'' @ CR # LF # ''  '' @ ESC # ''[33mexit'' @ ESC #
     ''[0m '' @ ESC # ''[36mforce'' @ ESC # ''[0m    shuts down without confirmation'' @ CR #
     LF # CR # [LF]"

definition exit_help :: "kernel \<Rightarrow> kernel c" where
  "exit_help = say (lit exit_help_text)"

text \<open>One turn of the confirmation: \<open>Some r\<close> is the return with result \<open>r\<close>.\<close>

definition exit_turn :: "kernel \<Rightarrow> (int option \<times> kernel) c" where
  "exit_turn k =
     bindE (sys_req_READ COM1 [NUL, NUL] 2 (kio k)) (\<lambda>(nreadExit, confirmation, s).
     let k = k\<lparr>kio := s\<rparr>
     in bindE (put_at confirmation nreadExit NUL) (\<lambda>confirmation.
        bindE (peek confirmation 0) (\<lambda>ch.
        if ch = CHR ''y'' \<or> ch = CHR ''Y''
        then bindE (say (lit (CR # LF # ''Exiting...'' @ CR # [LF])) k) (\<lambda>k. Inr (Some 1, k))
        else if ch = CHR ''n'' \<or> ch = CHR ''N''
        then bindE (say (lit (CR # LF # ''Returning...'' @ CR # [LF])) k) (\<lambda>k. Inr (Some 0, k))
        else bindE (say (lit (CR # LF # ''Invalid input. Please type 'Y' or 'n'.'' @ CR # [LF])) k) (\<lambda>k. Inr (None, k)))))"

partial_function (option) exit_loop :: "kernel \<Rightarrow> (int \<times> kernel) c option" where
  "exit_loop k =
     (case exit_turn k of
        Inl e \<Rightarrow> Some (Inl e)
      | Inr s \<Rightarrow> (case fst s of Some r \<Rightarrow> Some (Inr (r, snd s)) | None \<Rightarrow> exit_loop (snd s)))"

definition exit_command :: "cptr \<Rightarrow> kernel \<Rightarrow> (int \<times> kernel) c" where
  "exit_command args k =
     bindE (no_args args) (\<lambda>none.
     if none then bindE (say (lit (CR # LF # ''Exit? (Y/n): '' @ CR # [LF])) k) (\<lambda>k. loop_result (exit_loop k))
     else bindE (args_are args ''help'') (\<lambda>b.
     if b then bindE (exit_help k) (\<lambda>k. Inr (0, k))
     else bindE (args_are args ''force'') (\<lambda>b. if b then Inr (1, k)
     else bindE (args_are args ''f'') (\<lambda>b. if b then Inr (1, k)
     else bindE (say (lit (ESC # ''[31mInvalid argument. Please try again.'' @ ESC # ''[0m'' @
                           CR # [LF])) k) (\<lambda>k.
          bindE (exit_help k) (\<lambda>k. Inr (0, k)))))))"

section \<open>user/help.c\<close>

definition help_message_text :: string where
  "help_message_text =
     ''List of Commands [arguments]:'' @ CR # LF # CR # LF # ESC # ''[33mhelp'' @ ESC #
     ''[0m             ['' @ ESC # ''[36mverbose'' @ ESC # ''[0m]'' @ CR # LF # ESC #
     ''[33mversion'' @ ESC # ''[0m          ['' @ ESC # ''[36mall'' @ ESC # ''[0m|'' @ ESC #
     ''[36mhelp'' @ ESC # ''[0m]'' @ CR # LF # ESC # ''[33mexit'' @ ESC #
     ''[0m             ['' @ ESC # ''[36mhelp'' @ ESC # ''[0m|'' @ ESC # ''[36mforce'' @ ESC #
     ''[0m]'' @ CR # LF # ESC # ''[33mclock'' @ ESC # ''[0m            ['' @ ESC #
     ''[36mget'' @ ESC # ''[0m|'' @ ESC # ''[36mset'' @ ESC # ''[0m|'' @ ESC # ''[36mhelp'' @
     ESC # ''[0m]  [<'' @ ESC # ''[36mdate'' @ ESC # ''[0m>|<'' @ ESC # ''[36mtime'' @ ESC #
     ''[0m>]'' @ CR # LF # ESC # ''[33mcreate'' @ ESC # ''[0m           [<'' @ ESC #
     ''[36mname'' @ ESC # ''[0m>|'' @ ESC # ''[36mhelp'' @ ESC # ''[0m] [<'' @ ESC #
     ''[36mclass'' @ ESC # ''[0m>] [<'' @ ESC # ''[36mpriority'' @ ESC # ''[0m>]'' @ CR # LF #
     ESC # ''[33mdelete'' @ ESC # ''[0m           [<'' @ ESC # ''[36mname'' @ ESC # ''[0m>|'' @
     ESC # ''[36mhelp'' @ ESC # ''[0m]'' @ CR # LF # ESC # ''[33mshow'' @ ESC #
     ''[0m             [<'' @ ESC # ''[36mname'' @ ESC # ''[0m>|'' @ ESC # ''[36mready'' @
     ESC # ''[0m|'' @ ESC # ''[36mblocked'' @ ESC # ''[0m|'' @ ESC # ''[36mall'' @ ESC #
     ''[0m|'' @ ESC # ''[36mhelp'' @ ESC # ''[0m]'' @ CR # LF # ESC # ''[33mpriority set'' @
     ESC # ''[0m     [<'' @ ESC # ''[36mname'' @ ESC # ''[0m>|'' @ ESC # ''[36mhelp'' @ ESC #
     ''[0m] [<'' @ ESC # ''[36mpriority'' @ ESC # ''[0m>]'' @ CR # LF # ESC # ''[33msuspend'' @
     ESC # ''[0m          [<'' @ ESC # ''[36mname'' @ ESC # ''[0m>|'' @ ESC # ''[36mhelp'' @
     ESC # ''[0m]'' @ CR # LF # ESC # ''[33mresume'' @ ESC # ''[0m           [<'' @ ESC #
     ''[36mname'' @ ESC # ''[0m>|'' @ ESC # ''[36mhelp'' @ ESC # ''[0m]'' @ CR # LF # ESC #
     ''[33mblock'' @ ESC # ''[0m            [<'' @ ESC # ''[36mname'' @ ESC # ''[0m>|'' @ ESC #
     ''[36mhelp'' @ ESC # ''[0m]'' @ CR # LF # ESC # ''[33munblock'' @ ESC #
     ''[0m          [<'' @ ESC # ''[36mname'' @ ESC # ''[0m>|'' @ ESC # ''[36mhelp'' @ ESC #
     ''[0m]'' @ CR # LF # ESC # ''[33myield'' @ ESC # ''[0m            ['' @ ESC #
     ''[36mhelp'' @ ESC # ''[0m]'' @ CR # LF # ESC # ''[33mload'' @ ESC #
     ''[0m             [<'' @ ESC # ''[36mname'' @ ESC # ''[0m>|'' @ ESC # ''[36mhelp'' @ ESC #
     ''[0m|'' @ ESC # ''[36msuspended'' @ ESC # ''[0m]'' @ CR # LF # ESC # ''[33mclear'' @
     ESC # ''[0m'' @ CR # LF # CR # LF # ''For more help, run '' @ CHR 0x27 # ESC #
     ''[33mhelp'' @ ESC # ''[0m '' @ ESC # ''[36mverbose'' @ ESC #
     ''[0m' or see the user guide at https://github.com/WVU-CS450/MacaroniPenguins.'' @ CR #
     [LF]"

definition help_message :: "kernel \<Rightarrow> kernel c" where
  "help_message = say (lit help_message_text)"

definition help_help_text :: string where
  "help_help_text =
     ''List of Commands [arguments]:'' @ CR # LF # CR # LF # ESC # ''[33mhelp'' @ ESC #
     ''[0m ['' @ ESC # ''[36mverbose'' @ ESC # ''[0m]'' @ CR # LF # ''  '' @ ESC #
     ''[33mhelp'' @ ESC # ''[0m            prints a basic help message'' @ CR # LF # ''  '' @
     ESC # ''[33mhelp'' @ ESC # ''[0m '' @ ESC # ''[36mverbose'' @ ESC #
     ''[0m    prints this message.'' @ CR # LF # CR # [LF]"

definition help_help :: "kernel \<Rightarrow> kernel c" where
  "help_help = say (lit help_help_text)"

definition help_verbose :: "kernel \<Rightarrow> kernel c" where
  "help_verbose k =
     foldE (\<lambda>f. f)
       [help_help, exit_help, version_help, on_io clock_help, create_help, delete_help,
        show_pcb_help, set_priority_help, suspend_help, resume_help, block_help, unblock_help,
        yield_help, load_help, say (lit (CR # [LF])),
        say (lit (ESC # ''[33mclear'' @ ESC # ''[0m clears the terminal'' @ CR # [LF]))] k"

definition help_command :: "cptr \<Rightarrow> kernel \<Rightarrow> kernel c" where
  "help_command args k =
     bindE (no_args args) (\<lambda>none. if none then help_message k else
     bindE (args_are args ''help'') (\<lambda>b. if b then help_message k else
     bindE (args_are args ''verbose'') (\<lambda>b. if b then help_verbose k else
     bindE (args_are args ''v'') (\<lambda>b. if b then help_verbose k else
     bindE (say (lit (ESC # ''[31mInvalid argument. Please try again.'' @ ESC # ''[0m'' @ CR #
                      LF # CR # [LF])) k) help_help))))"

section \<open>The banner of kernel/comhand.c\<close>

definition rule_text :: string where
  "rule_text =
     CR # LF #
     ''---------------------------------------------------------------------------'' @ CR # [LF]"

definition banner1_text :: string where
  "banner1_text =
     ''      '' @ ESC # ''[33m'' @ CHR 0x5C # ''|/'' @ ESC # ''[0m         Welcome to '' @
     ESC # ''[33mMacaroniOS'' @ ESC # ''[0m!'' @ CR # LF # ''   -=(o ).        Version '' @
     ESC # ''[36m''"

definition banner2_text :: string where
  "banner2_text =
     ESC # ''[0m      '.-.'' @ CHR 0x5C # CR # LF # ''      /|  '' @ CHR 0x5C # CHR 0x5C #
     ''      CS450: Operating Systems Structure'' @ CR # LF # ''     ' |  ||'' @ CR # LF #
     ''       _'' @ CHR 0x5C # ''_):,_    Type '' @ CHR 0x27 # ESC # ''[33mhelp'' @ ESC #
     ''[0m' for a list of commands or '' @ CHR 0x27 # ESC # ''[31mexit'' @ ESC #
     ''[0m' to shutdown.'' @ CR # LF # CR # [LF]"

definition com_startup :: "(nat \<Rightarrow> char) \<Rightarrow> git_info \<Rightarrow> kernel \<Rightarrow> kernel c" where
  "com_startup junk git k =
     bindE (kwrite (lit rule_text) 80 k) (\<lambda>k.
     bindE (kwrite (lit (CR # [LF])) 3 k) (\<lambda>k.
     bindE (say (lit banner1_text) k) (\<lambda>k.
     bindE (version_latest junk git k) (\<lambda>k.
     say (lit banner2_text) k))))"

section \<open>The confirmation of exit\<close>

text \<open>
  The answer is read into two bytes. Then \<open>serial_poll\<close> returns 0 for an empty line and -1
  as soon as one key is accepted, and \<open>exit_command\<close> uses the result as an index.
\<close>

lemma receive_locals:
  "line (snd (receive dev p)) = line p \<and> index (snd (receive dev p)) = index p \<and>
   endOfLine (snd (receive dev p)) = endOfLine p"
  by (simp add: receive_def split: prod.split)

lemma wait_key_locals:
  assumes "wait_key dev p = Some r"
  shows "line (snd r) = line p \<and> index (snd r) = index p \<and> endOfLine (snd r) = endOfLine p"
proof (rule wait_key.raw_induct[OF _ assms])
  fix wait_key dev p r
  assume IH: "\<And>p b y. wait_key p b = Some y \<Longrightarrow> line (snd y) = line b \<and> index (snd y) = index b \<and> endOfLine (snd y) = endOfLine b"
    and r: "(case receive dev p of (specialKey, p) \<Rightarrow>
          if specialKey \<in> {CHR ''A'', CHR ''B'', CHR ''C'', CHR ''D'', CHR ''3''}
          then Some (specialKey, p) else wait_key dev p) = Some r"
  obtain ch p1 where p1: "receive dev p = (ch, p1)" by fastforce
  then have l: "line p1 = line p \<and> index p1 = index p \<and> endOfLine p1 = endOfLine p"
    using receive_locals[of dev p] by simp
  have "r = (ch, p1) \<or> wait_key dev p1 = Some r"
    using r unfolding p1 prod.case by (metis option.inject)
  then show "line (snd r) = line p \<and> index (snd r) = index p \<and> endOfLine (snd r) = endOfLine p"
    using IH l by fastforce
qed

lemma wait_tilde_locals:
  assumes "wait_tilde dev ch p = Some p'"
  shows "line p' = line p \<and> index p' = index p \<and> endOfLine p' = endOfLine p"
proof (rule wait_tilde.raw_induct[OF _ assms])
  fix wait_tilde dev ch p p'
  assume IH: "\<And>dev ch b y. wait_tilde dev ch b = Some y \<Longrightarrow> line y = line b \<and> index y = index b \<and> endOfLine y = endOfLine b"
    and r: "(if ch \<noteq> CHR ''~'' then case receive dev p of (ch, p) \<Rightarrow> wait_tilde dev ch p else Some p) = Some p'"
  obtain ch1 p1 where p1: "receive dev p = (ch1, p1)" by fastforce
  with r IH[of dev ch1 p1 p'] receive_locals[of dev p]
  show "line p' = line p \<and> index p' = index p \<and> endOfLine p' = endOfLine p"
    by (simp split: if_splits)
qed

lemma write_lit_locals:
  "write_lit str n p = Inr p' \<Longrightarrow>
    line p' = line p \<and> index p' = index p \<and> endOfLine p' = endOfLine p"
  by (auto simp: write_lit_def bindE_eq_Inr)

text \<open>At the start of an empty line the escape sequences do nothing but move right.\<close>

lemma poll_escape_empty:
  assumes "poll_escape dev p = Inr p'" and "index p = 0" "endOfLine p = 0"
  shows "(index p' = 0 \<and> endOfLine p' = 0) \<or> index p' = 1"
  using assms receive_locals[of dev p]
  by (auto simp: poll_escape_def poll_delete_def bindE_eq_Inr Let_def
      dest!: wait_key_locals wait_tilde_locals write_lit_locals
      split: prod.splits option.splits if_splits)

lemma poll_turn_empty:
  assumes "poll_turn dev p = Inr (r, p')" and "index p = 0" "endOfLine p = 0"
  shows "(r = None \<and> (index p' = 0 \<and> endOfLine p' = 0 \<or> index p' = 1)) \<or>
    (r = Some 0 \<and> (\<exists>buf. line p' = buf[0 := NUL] \<and> 0 < length buf))"
  using assms receive_locals[of dev p]
  by (auto simp: poll_turn_def Let_def bindE_eq_Inr poll_type_def store_def put_at_def put_def
      send_def i32_def dest!: poll_escape_empty split: prod.splits if_splits)

lemma poll_loop_two:
  assumes "poll_loop dev 2 p = Some (Inr (r, p'))"
    and "(index p = 0 \<and> endOfLine p = 0) \<or> index p = 1"
  shows "r = -1 \<or> (r = 0 \<and> (\<exists>buf. line p' = buf[0 := NUL] \<and> 0 < length buf))"
proof -
  let ?Q = "\<lambda>len p y. len = 2 \<longrightarrow> (index p = 0 \<and> endOfLine p = 0) \<or> index p = 1 \<longrightarrow>
    (\<forall>r p'. y = Inr (r, p') \<longrightarrow> r = -1 \<or> (r = 0 \<and> (\<exists>buf. line p' = buf[0 := NUL] \<and> 0 < length buf)))"
  have "?Q len0 p0 y0" if a: "poll_loop dev0 len0 p0 = Some y0" for dev0 len0 p0 and y0 :: "(int \<times> poll) c"
  proof (rule poll_loop.raw_induct[OF _ a])
    fix poll_loop dev len p and y :: "(int \<times> poll) c"
    assume IH: "\<And>dev len p y. poll_loop dev len p = Some y \<Longrightarrow> ?Q len p y"
      and y: "(if index p < int len - 1
        then case poll_turn dev p of Inl e \<Rightarrow> Some (Inl e)
             | Inr (None, p) \<Rightarrow> poll_loop dev len p
             | Inr (Some ra, p) \<Rightarrow> Some (Inr (ra, p))
        else Some (bindE (store (index p) NUL p) (\<lambda>p. Inr (- 1, p)))) = Some y"
    show "?Q len p y"
    proof (intro impI allI)
      fix r p' assume len: "len = 2" and i: "(index p = 0 \<and> endOfLine p = 0) \<or> index p = 1" and yr: "y = Inr (r, p')"
      show "r = -1 \<or> (r = 0 \<and> (\<exists>buf. line p' = buf[0 := NUL] \<and> 0 < length buf))"
      proof (cases "index p = 1")
        case True
        then show ?thesis using y len yr by (auto simp: bindE_eq_Inr)
      next
        case False
        then have z: "index p = 0" "endOfLine p = 0" using i by auto
        show ?thesis
        proof (cases "poll_turn dev p")
          case (Inl e)
          then show ?thesis using y z len yr by simp
        next
          case (Inr t)
          obtain r1 p1 where t: "t = (r1, p1)" by fastforce
          note turn = poll_turn_empty[OF Inr[unfolded t] z]
          show ?thesis
          proof (cases r1)
            case None
            then have "poll_loop dev len p1 = Some y" using y z len Inr t by simp
            then show ?thesis using IH[of dev len p1 y] turn None len yr by auto
          next
            case (Some x)
            then show ?thesis using y z len Inr t turn yr by auto
          qed
        qed
      qed
    qed
  qed
  from this[OF assms(1)] show ?thesis using assms(2) by simp
qed

lemma serial_poll_two:
  assumes "serial_poll dev buffer 2 s = Inr (r, b, s')"
  shows "r = -1 \<or> (r = 0 \<and> (\<exists>buf. b = buf[0 := NUL] \<and> 0 < length buf))"
proof -
  obtain p p' where p: "write_lit ''( ')> '' 6 \<lparr>line = buffer, index = 0, endOfLine = 0, pio = s\<rparr> = Inr p"
    "loop_result (poll_loop dev 2 p) = Inr (r, p')" "b = line p'"
    using assms by (auto simp: serial_poll_def bindE_eq_Inr)
  have "poll_loop dev 2 p = Some (Inr (r, p'))"
    using p(2) by (simp add: loop_result_def split: option.splits)
  then show ?thesis using poll_loop_two[of dev p r p'] write_lit_locals[OF p(1)] p(3) by simp
qed

lemma exit_turn_None: "exit_turn k = Inr (r, k') \<Longrightarrow> r = None"
  by (auto simp: exit_turn_def sys_req_READ_def bindE_eq_Inr Let_def put_at_def put_def peek_def
      dest!: serial_poll_two split: if_splits)

lemma exit_loop_never:
  assumes "exit_loop k = Some y"
  shows "\<forall>x. y \<noteq> Inr x"
proof (rule exit_loop.raw_induct[OF _ assms])
  fix exit_loop k and y :: "(int \<times> kernel) c"
  assume IH: "\<And>k y. exit_loop k = Some y \<Longrightarrow> \<forall>x. y \<noteq> Inr x"
    and y: "(case exit_turn k of Inl e \<Rightarrow> Some (Inl e)
      | Inr s \<Rightarrow> (case fst s of Some r \<Rightarrow> Some (Inr (r, snd s)) | None \<Rightarrow> exit_loop (snd s))) = Some y"
  show "\<forall>x. y \<noteq> Inr x"
  proof (cases "exit_turn k")
    case (Inl e)
    then show ?thesis using y by auto
  next
    case (Inr t)
    then have "fst t = None" using exit_turn_None[of k "fst t" "snd t"] by simp
    then show ?thesis using y Inr IH by simp
  qed
qed

lemma exit_turn_answer:
  assumes "online COM1 (kio k)" and "pending COM1 (kio k) = ch ## r" and "printable ch"
  shows "exit_turn k = Inl OutOfBounds"
proof -
  let ?s = "set_line COM1 (sent COM1 (kio k) @ prompt) (ch ## r) (kio k)"
  have o: "ordinary ch" using assms(3) printable_not by (auto simp: ordinary_def)
  have e: "edit [] ch = [ch]" using assms(3) by (simp add: edit_def)
  obtain b' s' where "poll_loop COM1 2 (polling [NUL, NUL] 0 ?s) = Some (Inr (-1, polling b' 1 s'))"
    using poll_loop_full[of COM1 ?s "[]" ch r 2 "[]" "[NUL, NUL]"] assms(1) o e by auto
  then show ?thesis
    using assms(1,2) by (simp add: exit_turn_def sys_req_READ_def serial_poll_prompt put_at_def)
qed

lemma exit_turn_empty:
  assumes "online COM1 (kio k)" and "pending COM1 (kio k) = CR ## r"
  obtains k' where "exit_turn k = Inr (None, k')" "online COM1 (kio k')" "pending COM1 (kio k') = r"
proof -
  let ?s = "set_line COM1 (sent COM1 (kio k) @ prompt) (CR ## r) (kio k)"
  obtain b' where b': "poll_loop COM1 2 (polling [NUL, NUL] 0 ?s) =
      Some (Inr (0, polling b' 0 (set_line COM1 (sent COM1 ?s @ [CR]) r ?s)))" "length b' = 2"
    using poll_loop_line[of COM1 ?s "[]" CR r 2 "[]" "[NUL, NUL]"] assms(1) by auto
  let ?k = "k\<lparr>kio := set_line COM1 (sent COM1 ?s @ [CR]) r ?s\<rparr>"
  have "exit_turn k = Inr (None, emit (CR # LF # ''Invalid input. Please type 'Y' or 'n'.'' @ CR # [LF]) ?k)"
    using assms b' by (simp add: exit_turn_def sys_req_READ_def serial_poll_prompt put_at_def polling_def say_lit)
  then show ?thesis by (rule that) (use assms(1) in simp_all)
qed

lemma exit_loop_answer:
  assumes "online COM1 (kio k)" and "pending COM1 (kio k) = replicate n CR @- ch ## r" and "printable ch"
  shows "exit_loop k = Some (Inl OutOfBounds)"
  using assms
proof (induction n arbitrary: k)
  case 0
  then show ?case using exit_turn_answer by (subst exit_loop.simps) simp
next
  case (Suc n)
  then obtain k' where "exit_turn k = Inr (None, k')" "online COM1 (kio k')" "pending COM1 (kio k') = replicate n CR @- ch ## r"
    using exit_turn_empty[of k "replicate n CR @- ch ## r"] by auto
  then show ?case using Suc by (subst exit_loop.simps) simp
qed

text \<open>\<open>exit\<close> without an argument: a null pointer, or what the command handler passes, a
  pointer to the end of the line.\<close>

lemma exit_command_bare:
  assumes "online COM1 (kio k)" and "args = None \<or> (\<exists>b. args = Some (NUL # b))"
  shows "exit_command args k = loop_result (exit_loop (emit (CR # LF # ''Exit? (Y/n): '' @ CR # [LF]) k))"
proof -
  have "say (lit (CR # LF # ''Exit? (Y/n): '' @ CR # [LF])) k =
      Inr (emit (CR # LF # ''Exit? (Y/n): '' @ CR # [LF]) k)"
    using assms(1) by (intro say_lit) simp_all
  then show ?thesis using assms(2) by (auto simp: exit_command_def no_args_def peek_def)
qed

text \<open>Property C40. \<open>exit\<close> without an argument (the null pointer, or the empty rest of the line
  that the command handler passes) never gives an answer, whatever is typed: no run of it
  returns 0 or 1. An empty line asks again, for ever if only empty lines come; the first
  accepted key makes \<open>serial_poll\<close> return -1, and the run stops at the access to
  \<open>confirmation[-1]\<close>, outside the two bytes of the answer. \<open>exit force\<close> returns 1 at once.\<close>

theorem exit_never_confirms:
  assumes "online COM1 (kio k)"
  shows "(\<forall>args. args = None \<or> (\<exists>b. args = Some (NUL # b)) \<longrightarrow>
      (\<forall>x. exit_command args k \<noteq> Inr x) \<and>
      (pending COM1 (kio k) = replicate n CR @- ch ## r \<and> printable ch \<longrightarrow>
        exit_command args k = Inl OutOfBounds)) \<and>
    exit_command (Some (lit ''force'')) k = Inr (1, k)"
proof (intro conjI allI impI)
  fix args :: cptr
  assume a: "args = None \<or> (\<exists>b. args = Some (NUL # b))"
  note bare = exit_command_bare[OF assms a]
  show "exit_command args k \<noteq> Inr x" for x
    unfolding bare loop_result_def by (auto split: option.splits dest: exit_loop_never)
  show "exit_command args k = Inl OutOfBounds"
    if "pending COM1 (kio k) = replicate n CR @- ch ## r \<and> printable ch"
    using that assms exit_loop_answer by (simp add: bare)
next
  have "strcmp (lit ''force'') (lit ''help'') \<noteq> Inr 0" "strcmp (lit ''force'') (lit ''force'') = Inr 0"
    by code_simp+
  then show "exit_command (Some (lit ''force'')) k = Inr (1, k)"
    by (cases "strcmp (lit ''force'') (lit ''help'')") 
       (auto simp: exit_command_def no_args_def args_are_def deref_def lit_def)
qed

end
