(* ===== verification/Load.thy ===== *)
theory Load
  imports PcbCommands
begin

text \<open>
  Loading and deleting processes (\<^verbatim>\<open>user/loadR3.c\<close>, \<^verbatim>\<open>user/pcb/init.c\<close>): what \<open>loadR3\<close> does for
  every state of the queues and of the heap, and how many processes the heap can hold.
\<close>

section \<open>One process\<close>

lemma same_pcbs_name: "same_pcbs s t \<Longrightarrow> name_of t = name_of s"
proof
  fix a assume "same_pcbs s t"
  then have "map_option pname (pcbs t a) = map_option pname (pcbs s a)" by (rule same_pcbs_field) simp
  then show "name_of t a = name_of s a" by (cases "pcbs s a"; cases "pcbs t a") (auto simp: name_of_def)
qed

lemma insert_added:
  fixes cls :: process_class and f d :: addr
  assumes wf: "wf k A" and room: "room 1076 (kvm k)"
    and nm: "NUL \<notin> set str" "length str < 16" and pr: "0 \<le> pr" "pr \<le> 9"
  defines "a \<equiv> heap_addr (kvm k)" and "k1 \<equiv> add_process str cls pr f k"
  obtains s where "modify_pcb a (\<lambda>p. p\<lparr>pargs := d\<rparr>) k1 =
      Inr (k1\<lparr>pcbq := (pcbq k1)\<lparr>pcbs := (pcbs (pcbq k1))(a \<mapsto> (setup_pcb str cls pr a)\<lparr>pargs := d\<rparr>)\<rparr>\<rparr>)"
    and "k_insert a (k1\<lparr>pcbq := (pcbq k1)\<lparr>pcbs := (pcbs (pcbq k1))(a \<mapsto> (setup_pcb str cls pr a)\<lparr>pargs := d\<rparr>)\<rparr>\<rparr>) =
      Inr (k1\<lparr>pcbq := s\<rparr>)"
    and "same_pcbs ((pcbq k)\<lparr>pcbs := (pcbs (pcbq k))(a \<mapsto> (setup_pcb str cls pr a)\<lparr>pargs := d\<rparr>)\<rparr>) s"
    and "wf (k1\<lparr>pcbq := s\<rparr>) (A(ReadyQ := ins_ready (prio_of s) a (A ReadyQ)))"
proof -
  let ?p = "setup_pcb str cls pr a"
  let ?p' = "?p\<lparr>pargs := d\<rparr>"
  let ?t = "(pcbq k1)\<lparr>pcbs := (pcbs (pcbq k1))(a \<mapsto> ?p')\<rparr>"
  have wf1: "wf k1 A" unfolding k1_def by (rule wf_add_process[OF wf room nm pr])
  have p: "pcbs (pcbq k1) a = Some ?p" by (simp add: k1_def add_process_def a_def Let_def)
  have nq: "\<not> queued A a" unfolding a_def by (rule heap_addr_fresh[OF wf])
  have wp: "wf_pcb k1 a ?p'" using wf_pcbD[OF wf1 p] by (simp add: wf_pcb_def)
  note m = modify_detached[OF wf1 nq p, of "\<lambda>p. p\<lparr>pargs := d\<rparr>", OF wp]
  have fr: "live k1 (contextPtr ?p)"
  proof -
    have "unat (a + 1016) = unat a + 1016"
      unfolding a_def using heap_offset[OF wfD(2)[OF wf] room, of 1016] by simp
    then have "frame_of a \<noteq> NULL" by (auto simp: frame_of_def)
    then show ?thesis by (simp add: live_def k1_def add_process_def a_def Let_def setup_pcb_def fresh_pcb_def)
  qed
  have home: "home_of ?t a = Some ReadyQ"
    by (simp add: home_of_def select_queue_def setup_pcb_def fresh_pcb_def zero_pcb_def)
  have lv: "live (k1\<lparr>pcbq := ?t\<rparr>) (contextPtr q)" if "pcbs (pcbq (k1\<lparr>pcbq := ?t\<rparr>)) a = Some q" for q
    using that fr by (auto simp: live_def)
  have wf2: "wf (k1\<lparr>pcbq := ?t\<rparr>) A" using m(2) by simp
  have home': "home_of (pcbq (k1\<lparr>pcbq := ?t\<rparr>)) a = Some ReadyQ" using home by simp
  obtain s where s: "k_insert a (k1\<lparr>pcbq := ?t\<rparr>) = Inr (k1\<lparr>pcbq := ?t, pcbq := s\<rparr>)"
    "same_pcbs (pcbq (k1\<lparr>pcbq := ?t\<rparr>)) s"
    "wf (k1\<lparr>pcbq := ?t, pcbq := s\<rparr>) (A(ReadyQ := place (pcbq (k1\<lparr>pcbq := ?t\<rparr>)) a ReadyQ (A ReadyQ)))"
    by (rule k_insert_detached[OF wf2 nq home' lv])
  have same: "same_pcbs ?t s" using s(2) by simp
  have "prio_of s = prio_of ?t" using same_pcbs_prio_of[OF same] .
  then have "wf (k1\<lparr>pcbq := s\<rparr>) (A(ReadyQ := ins_ready (prio_of s) a (A ReadyQ)))"
    using s(3) by (simp add: place_def)
  moreover have "same_pcbs ((pcbq k)\<lparr>pcbs := (pcbs (pcbq k))(a \<mapsto> ?p')\<rparr>) s"
    using same by (auto simp: same_pcbs_def k1_def add_process_def a_def Let_def)
  ultimately show ?thesis using that[of s] m(1) s(1) by simp
qed

text \<open>A queued process has this name.\<close>

definition taken :: "kernel \<Rightarrow> (qid \<Rightarrow> addr list) \<Rightarrow> string \<Rightarrow> bool" where
  "taken k A nm \<longleftrightarrow> (\<exists>a. queued A a \<and> name_of (pcbq k) a = nm)"

lemma taken_emit [simp]: "taken (emit str k) A nm = taken k A nm"
  by (simp add: taken_def)

text \<open>The addresses of \<open>n\<close> processes that are allocated one after the other from \<open>a\<close> on.\<close>

fun slots :: "addr \<Rightarrow> nat \<Rightarrow> addr list" where
  "slots a 0 = []"
| "slots a (Suc n) = a # slots (a + 1076) n"

text \<open>A user process of priority 1 with the name \<open>nm\<close> at \<open>a\<close>, ready to start with \<open>f\<close>.\<close>

definition starts_at :: "kernel \<Rightarrow> addr \<Rightarrow> string \<Rightarrow> addr \<Rightarrow> bool" where
  "starts_at k a nm f \<longleftrightarrow>
     (\<exists>r. pcbs (pcbq k) a = Some r \<and> text_of (pname r) = nm \<and> process_class r = CLASS_USER \<and> priority r = 1 \<and>
        execution_state r = STATE_READY \<and> dispatch_state r = DISPATCH_ACTIVE \<and> contextPtr r = frame_of a \<and>
        contexts k (frame_of a) = Some (initial_frame f (frame_of a) zero_context))"

text \<open>The queues after new processes \<open>xs\<close> of priority 1: all of them behind the last ready process
  of a priority of at most 1.\<close>

definition with_ready :: "kernel \<Rightarrow> (qid \<Rightarrow> addr list) \<Rightarrow> addr list \<Rightarrow> qid \<Rightarrow> addr list" where
  "with_ready k A xs = A(ReadyQ := takeWhile (\<lambda>b. prio_of (pcbq k) b \<le> 1) (A ReadyQ) @ xs @
     dropWhile (\<lambda>b. prio_of (pcbq k) b \<le> 1) (A ReadyQ))"

text \<open>\<open>loaded k A ps k'\<close>: the processes \<open>ps\<close> (names and functions) have been added to \<open>k\<close>, and
  nothing else has changed but what is on the console.\<close>

definition loaded :: "kernel \<Rightarrow> (qid \<Rightarrow> addr list) \<Rightarrow> (string \<times> addr) list \<Rightarrow> kernel \<Rightarrow> bool" where
  "loaded k A ps k' \<longleftrightarrow>
     (let xs = slots (heap_addr (kvm k)) (length ps) in
        wf k' (with_ready k A xs) \<and>
        list_all2 (\<lambda>a (nm, f). starts_at k' a nm f) xs ps \<and>
        (\<forall>b. b \<notin> set xs \<longrightarrow> map_option unlinked (pcbs (pcbq k') b) = map_option unlinked (pcbs (pcbq k) b)) \<and>
        (\<forall>c. c \<notin> frame_of ` set xs \<longrightarrow> contexts k' c = contexts k c) \<and>
        curProc k' = curProc k \<and> sysStackPtr k' = sysStackPtr k \<and>
        kvm k' = (kvm k)\<lparr>heap_addr := heap_addr (kvm k) + of_nat (1076 * length ps)\<rparr>)"

lemma loaded_emit [simp]:
  "loaded (emit str k) A ps k' = loaded k A ps k'"
  by (simp add: loaded_def with_ready_def)

lemma load_new:
  assumes wf: "wf k A" and room: "room 1076 (kvm k)" and nm: "NUL \<notin> set nm" "length nm < 16"
    and new: "\<not> taken k A nm"
  obtains k' where "load_proc entry nm i k = Inr k'" "loaded k A [(nm, entry i)] k'" "console k' = console k"
proof -
  let ?a = "heap_addr (kvm k)" and ?p = "setup_pcb nm CLASS_USER 1 (heap_addr (kvm k))"
  let ?k1 = "add_process nm CLASS_USER 1 (entry i) k"
  have p: "?p\<lparr>pargs := NULL\<rparr> = ?p" by (simp add: setup_pcb_def fresh_pcb_def zero_pcb_def)
  have k1: "pcbs (pcbq ?k1) = (pcbs (pcbq k))(?a \<mapsto> ?p)" by (simp add: add_process_def Let_def)
  have "(pcbs (pcbq ?k1))(?a \<mapsto> ?p) = pcbs (pcbq ?k1)" by (simp add: k1)
  then have id: "?k1\<lparr>pcbq := (pcbq ?k1)\<lparr>pcbs := (pcbs (pcbq ?k1))(?a \<mapsto> ?p)\<rparr>\<rparr> = ?k1"
    by (simp only:) simp
  then obtain s where s: "k_insert ?a ?k1 = Inr (?k1\<lparr>pcbq := s\<rparr>)"
    "same_pcbs ((pcbq k)\<lparr>pcbs := (pcbs (pcbq k))(?a \<mapsto> ?p)\<rparr>) s"
    "wf (?k1\<lparr>pcbq := s\<rparr>) (A(ReadyQ := ins_ready (prio_of s) ?a (A ReadyQ)))"
    using insert_added[OF wf room nm, where pr = 1 and cls = CLASS_USER and f = "entry i" and d = NULL] unfolding p id by auto
  have "pcb_setup (Some (lit nm)) CLASS_USER 1 (entry i) k = Inr (?a, ?k1)"
    using pcb_setup_ok[OF wf room, of "lit nm" 1 CLASS_USER "entry i"] nm new by (simp add: taken_def)
  then have run: "load_proc entry nm i k = Inr (?k1\<lparr>pcbq := s\<rparr>)" by (simp add: load_proc_def s(1))
  obtain r where r: "pcbs s ?a = Some r" "unlinked r = unlinked ?p" using same_pcbs_Some[OF s(2), of ?a ?p] by auto
  note u = unlinked_fields[OF r(2)]
  have "16 - length nm = Suc (15 - length nm)" using nm(2) by simp
  then have "text_of (pname r) = nm" using u(1) nm by (simp add: setup_pcb_def text_of_append_NUL)
  moreover have "process_class r = CLASS_USER \<and> priority r = 1 \<and> execution_state r = STATE_READY \<and>
      dispatch_state r = DISPATCH_ACTIVE \<and> contextPtr r = frame_of ?a"
    using u by (simp add: setup_pcb_def fresh_pcb_def zero_pcb_def)
  moreover have "contexts (?k1\<lparr>pcbq := s\<rparr>) (frame_of ?a) = Some (initial_frame (entry i) (frame_of ?a) zero_context)"
    by (simp add: add_process_def Let_def)
  ultimately have st: "starts_at (?k1\<lparr>pcbq := s\<rparr>) ?a nm (entry i)" unfolding starts_at_def using r(1) by simp
  have pr: "prio_of s = (prio_of (pcbq k))(?a := 1)"
    using same_pcbs_prio[OF s(2)] by (simp add: fun_eq_iff prio_of_def setup_pcb_def)
  have "?a \<notin> set (A ReadyQ)" using heap_addr_fresh(2)[OF wf] by (simp add: queued_def)
  then have "takeWhile (\<lambda>b. prio_of s b \<le> 1) (A ReadyQ) = takeWhile (\<lambda>b. prio_of (pcbq k) b \<le> 1) (A ReadyQ)"
    "dropWhile (\<lambda>b. prio_of s b \<le> 1) (A ReadyQ) = dropWhile (\<lambda>b. prio_of (pcbq k) b \<le> 1) (A ReadyQ)"
    by (auto simp: pr intro: takeWhile_cong dropWhile_cong)
  then have "A(ReadyQ := ins_ready (prio_of s) ?a (A ReadyQ)) = with_ready k A [?a]"
    by (simp add: with_ready_def ins_ready_def pr)
  then have "loaded k A [(nm, entry i)] (?k1\<lparr>pcbq := s\<rparr>)"
    unfolding loaded_def using s(2,3) st
    by (auto simp: same_pcbs_def add_process_def with_pcb_def Let_def)
  then show ?thesis by (rule that[OF run]) (simp add: console_def add_process_def with_pcb_def Let_def)
qed

section \<open>Several processes\<close>

lemma slots_bounds:
  "unat a + 1076 * n \<le> 0xD010000 \<Longrightarrow> b \<in> set (slots a n) \<Longrightarrow> unat a \<le> unat b \<and> unat b + 1076 \<le> unat a + 1076 * n"
proof (induction n arbitrary: a)
  case (Suc n)
  have u: "unat (a + 1076) = unat a + 1076" using Suc.prems(1) unat_add_lem[of a 1076] by simp
  show ?case using Suc.IH[of "a + 1076"] Suc.prems u by auto
qed simp

lemma length_slots [simp]: "length (slots a n) = n"
  by (induction n arbitrary: a) simp_all

lemma distinct_slots: "unat a + 1076 * n \<le> 0xD010000 \<Longrightarrow> distinct (slots a n)"
proof (induction n arbitrary: a)
  case (Suc n)
  have u: "unat (a + 1076) = unat a + 1076" using Suc.prems unat_add_lem[of a 1076] by simp
  then show ?case using Suc slots_bounds[of "a + 1076" n a] by auto
qed simp

lemma unlinked_prio: "map_option unlinked (pcbs s' b) = map_option unlinked (pcbs s b) \<Longrightarrow> prio_of s' b = prio_of s b"
  by (cases "pcbs s b"; cases "pcbs s' b") (auto simp: prio_of_def dest: unlinked_fields)

lemma unlinked_name: "map_option unlinked (pcbs s' b) = map_option unlinked (pcbs s b) \<Longrightarrow> name_of s' b = name_of s b"
  by (cases "pcbs s b"; cases "pcbs s' b") (auto simp: name_of_def dest: unlinked_fields)

lemma with_ready_twice:
  assumes "\<And>b. b \<in> set (A ReadyQ) \<Longrightarrow> prio_of (pcbq k1) b = prio_of (pcbq k) b" and "prio_of (pcbq k1) a \<le> 1"
  shows "with_ready k1 (with_ready k A [a]) xs = with_ready k A (a # xs)"
proof -
  let ?P = "\<lambda>b. prio_of (pcbq k) b \<le> 1" and ?Q = "\<lambda>b. prio_of (pcbq k1) b \<le> 1"
  let ?T = "takeWhile ?P (A ReadyQ)" and ?D = "dropWhile ?P (A ReadyQ)"
  have T: "\<forall>b \<in> set (?T @ [a]). ?Q b"
    using assms by (auto dest!: set_takeWhileD)
  have "takeWhile ?Q ?D = [] \<and> dropWhile ?Q ?D = ?D"
  proof (cases ?D)
    case (Cons d ds)
    then have "\<not> ?P d" "d \<in> set (A ReadyQ)" by (metis dropWhile_eq_Cons_conv, metis list.set_intros(1) set_dropWhileD)
    then have "\<not> ?Q d" using assms(1) by simp
    then show ?thesis unfolding Cons by simp
  next
    case Nil
    show ?thesis unfolding Nil by simp
  qed
  then have "takeWhile ?Q ((?T @ [a]) @ ?D) = ?T @ [a]" "dropWhile ?Q ((?T @ [a]) @ ?D) = ?D"
    using T takeWhile_append2[of "?T @ [a]" ?Q ?D] dropWhile_append2[of "?T @ [a]" ?Q ?D] by (simp_all only: append_Nil2)
  then show ?thesis by (simp add: with_ready_def)
qed

lemma loaded_Nil: "wf k A \<Longrightarrow> loaded k A [] k"
  by (simp add: loaded_def with_ready_def)

lemma loaded_Cons:
  assumes wf: "wf k A" and room: "room (1076 * Suc (length ps)) (kvm k)"
    and one: "loaded k A [p] k1" and rest: "loaded k1 (with_ready k A [heap_addr (kvm k)]) ps k'"
  shows "loaded k A (p # ps) k'"
proof -
  let ?a = "heap_addr (kvm k)"
  let ?xs = "slots (?a + 1076) (length ps)"
  have u: "unat (?a + 1076) = unat ?a + 1076" using room unat_add_lem[of ?a 1076] by (simp add: room_def)
  then have fresh: "?a \<notin> set ?xs" using slots_bounds[of "?a + 1076" "length ps" ?a] room by (auto simp: room_def)
  obtain nm f where p: "p = (nm, f)" by fastforce
  have h: "kvm k1 = (kvm k)\<lparr>heap_addr := ?a + 1076\<rparr>" and st: "starts_at k1 ?a nm f"
    and keep: "\<And>b. b \<noteq> ?a \<Longrightarrow> map_option unlinked (pcbs (pcbq k1) b) = map_option unlinked (pcbs (pcbq k) b)"
    and c1: "\<And>c. c \<noteq> frame_of ?a \<Longrightarrow> contexts k1 c = contexts k c"
    and m1: "curProc k1 = curProc k" "sysStackPtr k1 = sysStackPtr k"
    using one by (auto simp: loaded_def p)
  have nq: "?a \<notin> set (A ReadyQ)" using heap_addr_fresh(2)[OF wf] by (simp add: queued_def)
  have "prio_of (pcbq k1) ?a = 1" using st by (auto simp: starts_at_def prio_of_def)
  moreover have "prio_of (pcbq k1) b = prio_of (pcbq k) b" if "b \<in> set (A ReadyQ)" for b
  proof (rule unlinked_prio, rule keep)
    show "b \<noteq> ?a" using that nq by auto
  qed
  ultimately have q: "with_ready k1 (with_ready k A [?a]) ?xs = with_ready k A (?a # ?xs)"
    by (intro with_ready_twice) simp_all
  have "heap_addr (kvm k1) = ?a + 1076" by (simp add: h)
  note r = rest[unfolded loaded_def this Let_def q]
  have fi: "frame_of ?a \<notin> frame_of ` set ?xs" using fresh by (auto simp: frame_of_def)
  have "map_option unlinked (pcbs (pcbq k') ?a) = map_option unlinked (pcbs (pcbq k1) ?a)"
    "contexts k' (frame_of ?a) = contexts k1 (frame_of ?a)"
    using r fresh fi by simp_all
  then have "starts_at k' ?a nm f" using st
    by (auto simp: starts_at_def map_option_case split: option.splits dest: unlinked_fields)
  then show ?thesis using r keep c1 m1 h
    by (simp add: loaded_def p Let_def algebra_simps)
qed

text \<open>The names in use after one process is loaded.\<close>

lemma taken_loaded:
  assumes wf: "wf k A" and one: "loaded k A [(nm, f)] k1"
  shows "taken k1 (with_ready k A [heap_addr (kvm k)]) n \<longleftrightarrow> taken k A n \<or> n = nm"
proof -
  let ?a = "heap_addr (kvm k)"
  have "name_of (pcbq k1) b = name_of (pcbq k) b" if "b \<noteq> ?a" for b
    using one that by (intro unlinked_name) (simp add: loaded_def)
  moreover have "name_of (pcbq k1) ?a = nm" using one by (auto simp: loaded_def starts_at_def name_of_def)
  ultimately have "name_of (pcbq k1) = (name_of (pcbq k))(?a := nm)" by (simp add: fun_eq_iff)
  moreover have "queued (with_ready k A [?a]) b \<longleftrightarrow> queued A b \<or> b = ?a" for b
  proof -
    have "set (takeWhile P xs) \<union> set (dropWhile P xs) = set xs" for P and xs :: "addr list"
      by (metis set_append takeWhile_dropWhile_id)
    then have W: "b \<in> set (with_ready k A [?a] q) \<longleftrightarrow> b \<in> set (A q) \<or> q = ReadyQ \<and> b = ?a" for q
      by (auto simp: with_ready_def)
    show ?thesis unfolding queued_def W by blast
  qed
  moreover have "\<not> queued A ?a" by (rule heap_addr_fresh(2)[OF wf])
  ultimately show ?thesis unfolding taken_def by (metis fun_upd_apply)
qed

text \<open>Loading a list of processes, given by name and number: those whose names are in use are only
  reported; for the others the heap has to have room, or the kernel panics.\<close>

definition unused :: "kernel \<Rightarrow> (qid \<Rightarrow> addr list) \<Rightarrow> (string \<times> nat) list \<Rightarrow> (string \<times> nat) list" where
  "unused k A ps = filter (\<lambda>(nm, i). \<not> taken k A nm) ps"

definition load_errors :: "kernel \<Rightarrow> (qid \<Rightarrow> addr list) \<Rightarrow> (string \<times> nat) list \<Rightarrow> string" where
  "load_errors k A ps = concat (map (\<lambda>(nm, i). duplicate_error nm) (filter (\<lambda>(nm, i). taken k A nm) ps))"

abbreviation load_all :: "(nat \<Rightarrow> addr) \<Rightarrow> (string \<times> nat) list \<Rightarrow> kernel \<Rightarrow> kernel c" where
  "load_all entry \<equiv> foldE (\<lambda>(nm, i). load_proc entry nm i)"

lemma load_proc_taken:
  assumes "wf k A" and "NUL \<notin> set nm" "length nm < 16" and "taken k A nm"
  shows "load_proc entry nm i k = Inr (emit (duplicate_error nm) k)"
  using pcb_setup_duplicate[OF assms(1), of "lit nm" 1] assms
  by (auto simp: load_proc_def taken_def k_insert_def on_pcbs_def pcb_insert_def)

lemma load_proc_full:
  assumes "wf k A" and "NUL \<notin> set nm" "length nm < 16" and "\<not> taken k A nm" and "\<not> room 1076 (kvm k)"
  shows "load_proc entry nm i k = Inl (Panic ''Heap is full!'')"
  using pcb_setup_full[OF assms(1,5), of "lit nm" 1] assms by (simp add: load_proc_def taken_def)

text \<open>The first of a list: which of the others are in use, and what room they have.\<close>

lemma load_first:
  assumes wf: "wf k A" and nm: "NUL \<notin> set nm" "length nm < 16" and new: "\<not> taken k A nm"
    and room: "room 1076 (kvm k)" and d: "nm \<notin> fst ` set ps"
  defines "B \<equiv> with_ready k A [heap_addr (kvm k)]"
  obtains k1 where "load_proc entry nm i k = Inr k1" "loaded k A [(nm, entry i)] k1" "console k1 = console k" "wf k1 B"
    "unused k1 B ps = unused k A ps" "load_errors k1 B ps = load_errors k A ps"
    "\<And>m. room m (kvm k1) \<longleftrightarrow> room (1076 + m) (kvm k)"
proof -
  obtain k1 where k1: "load_proc entry nm i k = Inr k1" "loaded k A [(nm, entry i)] k1" "console k1 = console k"
    by (rule load_new[OF wf room nm new])
  have wf1: "wf k1 B" and h: "kvm k1 = (kvm k)\<lparr>heap_addr := heap_addr (kvm k) + 1076\<rparr>"
    using k1(2) by (simp_all add: loaded_def B_def)
  have "\<forall>(n, j) \<in> set ps. taken k1 B n = taken k A n"
    unfolding B_def using taken_loaded[OF wf k1(2)] d by (force simp: image_iff)
  then have "unused k1 B ps = unused k A ps" "load_errors k1 B ps = load_errors k A ps"
    by (auto simp: unused_def load_errors_def intro!: filter_cong arg_cong[of _ _ concat] map_cong)
  moreover have "room m (kvm k1) \<longleftrightarrow> room (1076 + m) (kvm k)" for m
    using heap_offset[OF wfD(2)[OF wf] room, of 1076] by (simp add: h room_def)
  ultimately show ?thesis using that k1 wf1 by blast
qed

lemma load_all_ok:
  assumes "wf k A" and "distinct (map fst ps)" and "\<forall>(nm, i) \<in> set ps. NUL \<notin> set nm \<and> length nm < 16"
  shows "if room (1076 * length (unused k A ps)) (kvm k)
    then \<exists>k'. load_all entry ps k = Inr k' \<and> loaded k A (map (\<lambda>(nm, i). (nm, entry i)) (unused k A ps)) k' \<and>
      console k' = console k @ load_errors k A ps
    else load_all entry ps k = Inl (Panic ''Heap is full!'')"
  using assms
proof (induction ps arbitrary: k A)
  case Nil
  then show ?case using loaded_Nil[of k A] by (simp add: unused_def load_errors_def room_def wf_def heap_wf_def)
next
  case (Cons p ps)
  obtain nm i where p: "p = (nm, i)" by fastforce
  have nm: "NUL \<notin> set nm" "length nm < 16" and d: "nm \<notin> fst ` set ps" "distinct (map fst ps)"
    and ok: "\<forall>(nm, i) \<in> set ps. NUL \<notin> set nm \<and> length nm < 16"
    using Cons.prems by (auto simp: p)
  show ?case
  proof (cases "taken k A nm")
    case True
    have wf': "wf (emit (duplicate_error nm) k) A" using Cons.prems(1) by simp
    note IH = Cons.IH[OF wf' d(2) ok, unfolded loaded_emit emit_simps append_assoc]
    have "unused k A (p # ps) = unused (emit (duplicate_error nm) k) A ps"
      "load_errors k A (p # ps) = duplicate_error nm @ load_errors (emit (duplicate_error nm) k) A ps"
      using True by (simp_all add: unused_def load_errors_def p)
    then show ?thesis using IH load_proc_taken[OF Cons.prems(1) nm True] by (simp add: p)
  next
    case new: False
    have u: "unused k A ((nm, i) # ps) = (nm, i) # unused k A ps" "load_errors k A ((nm, i) # ps) = load_errors k A ps"
      using new by (simp_all add: unused_def load_errors_def)
    show ?thesis
    proof (cases "room 1076 (kvm k)")
      case False
      then have "\<not> room (1076 * length (unused k A (p # ps))) (kvm k)" by (simp add: p u room_def)
      then show ?thesis using load_proc_full[OF Cons.prems(1) nm new False] by (simp add: p)
    next
      case True
      let ?B = "with_ready k A [heap_addr (kvm k)]"
      obtain k1 where k1: "load_proc entry nm i k = Inr k1" "loaded k A [(nm, entry i)] k1" "console k1 = console k"
        and wf1: "wf k1 ?B" and same: "unused k1 ?B ps = unused k A ps" "load_errors k1 ?B ps = load_errors k A ps"
        and r: "\<And>m. room m (kvm k1) \<longleftrightarrow> room (1076 + m) (kvm k)"
        by (rule load_first[OF Cons.prems(1) nm new True d(1), of entry i]) blast
      note IH = Cons.IH[OF wf1 d(2) ok, unfolded same r]
      show ?thesis
      proof (cases "room (1076 + 1076 * length (unused k A ps)) (kvm k)")
        case False
        then show ?thesis using IH k1(1) by (simp add: u p)
      next
        case room: True
        then obtain k' where k': "load_all entry ps k1 = Inr k'"
          "loaded k1 ?B (map (\<lambda>(nm, i). (nm, entry i)) (unused k A ps)) k'" "console k' = console k @ load_errors k A ps"
          using IH k1(3) by auto
        have "loaded k A ((nm, entry i) # map (\<lambda>(nm, i). (nm, entry i)) (unused k A ps)) k'"
          by (rule loaded_Cons[OF Cons.prems(1) _ k1(2) k'(2)]) (use room in simp)
        then show ?thesis using room k' k1(1) by (simp add: u p)
      qed
    qed
  qed
qed

section \<open>The five processes\<close>

definition r3_procs :: "(string \<times> nat) list" where
  "r3_procs = [(''proc1'', 1), (''proc2'', 2), (''proc3'', 3), (''proc4'', 4), (''proc5'', 5)]"

lemma foldE_fun: "foldE f [] = Inr" "foldE f (x # xs) = (\<lambda>s. bindE (f x s) (foldE f xs))"
  by (simp_all add: fun_eq_iff)

lemma loadR3_all: "loadR3 entry k = load_all entry r3_procs k"
  by (simp add: loadR3_def r3_procs_def foldE_fun)

lemma r3_procs_names:
  "distinct (map fst r3_procs)" "\<forall>(nm, i) \<in> set r3_procs. NUL \<notin> set nm \<and> length nm < 16"
  "\<forall>nm \<in> set (map fst r3_procs). nm \<noteq> [] \<and> NUL \<notin> set nm \<and> nm \<noteq> ''help''" "length r3_procs = 5"
  by (simp_all add: r3_procs_def)

section \<open>Deleting them\<close>

abbreviation delete_all :: "string list \<Rightarrow> kernel \<Rightarrow> kernel c" where
  "delete_all \<equiv> foldE (\<lambda>nm. delete_pcb_command (Some (lit nm)))"

lemma delete_command_deletes:
  assumes "process_named k A (lit nm) q a r" and "process_class r = CLASS_USER" and "NUL \<notin> set nm" "nm \<noteq> ''help''"
  obtains s where "delete_pcb_command (Some (lit nm)) k = Inr (emit (deleted_text @ [NUL]) (k\<lparr>pcbq := s\<rparr>))"
    "wf (k\<lparr>pcbq := s\<rparr>) (A(q := remove1 a (A q)))" "same_pcbs (pcbq k) s"
proof -
  have "nm \<noteq> []" using assms(1,3) by (simp add: process_named_def)
  then have "delete_pcb_command (Some (lit nm)) k = delete_pcb (lit nm) k"
    using assms(3,4) by (simp add: delete_pcb_command_def args_text deref_def)
  then show ?thesis using delete_pcb_cases(2)[OF assms(1,2)] that by auto
qed

definition named_user :: "kernel \<Rightarrow> addr \<Rightarrow> string \<Rightarrow> bool" where
  "named_user k a nm \<longleftrightarrow> (\<exists>r. pcbs (pcbq k) a = Some r \<and> text_of (pname r) = nm \<and> process_class r = CLASS_USER)"

lemma named_user_same: "same_pcbs (pcbq k) (pcbq k') \<Longrightarrow> named_user k a nm \<Longrightarrow> named_user k' a nm"
  unfolding named_user_def by (metis same_pcbs_Some unlinked_fields(1,2))

lemma delete_all_ok:
  assumes "wf k (A(ReadyQ := T @ xs @ D))" and "list_all2 (named_user k) xs nms" and "distinct nms"
    and "\<forall>b. queued (A(ReadyQ := T @ D)) b \<longrightarrow> name_of (pcbq k) b \<notin> set nms"
    and "\<forall>nm \<in> set nms. nm \<noteq> [] \<and> NUL \<notin> set nm \<and> nm \<noteq> ''help''"
  shows "\<exists>s k'. delete_all nms k = Inr k' \<and>
    k' = emit (concat (replicate (length nms) (deleted_text @ [NUL]))) (k\<lparr>pcbq := s\<rparr>) \<and>
    wf k' (A(ReadyQ := T @ D)) \<and> same_pcbs (pcbq k) s"
  using assms
proof (induction nms arbitrary: xs k)
  case Nil
  then have "xs = []" by simp
  then show ?case using Nil.prems(1) by (intro exI[of _ "pcbq k"] exI[of _ k]) (simp only: append_Nil, simp)
next
  case (Cons nm nms)
  obtain a ys where xs: "xs = a # ys" and a: "named_user k a nm" and ys: "list_all2 (named_user k) ys nms"
    using Cons.prems(2) by (auto simp: list_all2_Cons2)
  obtain r where r: "pcbs (pcbq k) a = Some r" "text_of (pname r) = nm" "process_class r = CLASS_USER"
    using a by (auto simp: named_user_def)
  let ?A = "A(ReadyQ := T @ (a # ys) @ D)"
  have nm: "nm \<noteq> []" "NUL \<notin> set nm" "nm \<noteq> ''help''" "nm \<notin> set nms" using Cons.prems(3,5) by auto
  have wf: "wf k ?A" by (rule Cons.prems(1)[unfolded xs])
  have "name_of (pcbq k) b \<noteq> nm" if b: "b \<in> set ys" for b
  proof -
    obtain j where "j < length ys" "b = ys ! j" using b by (auto simp: in_set_conv_nth)
    then have "nms ! j \<in> set nms" "named_user k b (nms ! j)" using ys by (auto simp: list_all2_conv_all_nth)
    then show ?thesis using nm(4) by (auto simp: named_user_def name_of_def)
  qed
  moreover have "name_of (pcbq k) b \<noteq> nm" if "queued (A(ReadyQ := T @ D)) b" for b
    using Cons.prems(4) that by (metis list.set_intros(1))
  moreover have "queued ?A b \<longleftrightarrow> queued (A(ReadyQ := T @ D)) b \<or> b = a \<or> b \<in> set ys" for b
    by (auto simp only: queued_upd set_append list.set)
  ultimately have "\<forall>b. queued ?A b \<longrightarrow> name_of (pcbq k) b = nm \<longrightarrow> b = a" by blast
  then have n: "process_named k ?A (lit nm) ReadyQ a r"
    using wf r nm by (simp add: process_named_def)
  obtain s where s: "delete_pcb_command (Some (lit nm)) k = Inr (emit (deleted_text @ [NUL]) (k\<lparr>pcbq := s\<rparr>))"
    "wf (k\<lparr>pcbq := s\<rparr>) (?A(ReadyQ := remove1 a (?A ReadyQ)))" "same_pcbs (pcbq k) s"
    by (rule delete_command_deletes[OF n r(3) nm(2,3)])
  let ?k = "emit (deleted_text @ [NUL]) (k\<lparr>pcbq := s\<rparr>)"
  have "distinct (T @ (a # ys) @ D)" using repD(4)[OF wfD(1)[OF wf], of ReadyQ] by simp
  then have w1: "wf ?k (A(ReadyQ := T @ ys @ D))" using s(2) by (simp add: remove1_append)
  have nk: "pcbq ?k = s" by simp
  have l: "list_all2 (named_user ?k) ys nms"
    by (rule list_all2_mono[OF ys]) (rule named_user_same[of k], simp_all add: s(3))
  have oth: "\<forall>b. queued (A(ReadyQ := T @ D)) b \<longrightarrow> name_of (pcbq ?k) b \<notin> set nms"
    unfolding nk same_pcbs_name[OF s(3)]
    using Cons.prems(4) by (metis list.set_intros(2))
  have "distinct nms" "\<forall>nm \<in> set nms. nm \<noteq> [] \<and> NUL \<notin> set nm \<and> nm \<noteq> ''help''" using Cons.prems(3,5) by auto
  then obtain t k' where t: "delete_all nms ?k = Inr k'"
    "k' = emit (concat (replicate (length nms) (deleted_text @ [NUL]))) (?k\<lparr>pcbq := t\<rparr>)"
    "wf k' (A(ReadyQ := T @ D))" "same_pcbs (pcbq ?k) t"
    using Cons.IH[OF w1 l _ oth] by blast
  show ?case
  proof (intro exI conjI)
    show "delete_all (nm # nms) k = Inr k'" using s(1) t(1) by simp
    have "?k\<lparr>pcbq := t\<rparr> = emit (deleted_text @ [NUL]) (k\<lparr>pcbq := t\<rparr>)" by (simp add: emit_def)
    then show "k' = emit (concat (replicate (length (nm # nms)) (deleted_text @ [NUL]))) (k\<lparr>pcbq := t\<rparr>)"
      using t(2) by simp
    show "same_pcbs (pcbq k) t" using same_pcbs_trans[OF s(3), of t] t(4) by simp
  qed (rule t(3))
qed

section \<open>Loading and deleting in turn\<close>

text \<open>The commands \<open>load\<close>, \<open>delete proc1\<close>, ..., \<open>delete proc5\<close>, and \<open>n\<close> rounds of them.\<close>

definition load_round :: "(nat \<Rightarrow> addr) \<Rightarrow> kernel \<Rightarrow> kernel c" where
  "load_round entry k = bindE (load_command entry None k) (delete_all (map fst r3_procs))"

fun load_rounds :: "(nat \<Rightarrow> addr) \<Rightarrow> nat \<Rightarrow> kernel \<Rightarrow> kernel c" where
  "load_rounds entry 0 k = Inr k"
| "load_rounds entry (Suc n) k = bindE (load_round entry k) (load_rounds entry n)"

text \<open>\<open>worn k A n k'\<close>: the queues and the processes in them are those of \<open>k\<close>, but \<open>n\<close> rounds of
  processes have used up their part of the heap.\<close>

definition worn :: "kernel \<Rightarrow> (qid \<Rightarrow> addr list) \<Rightarrow> nat \<Rightarrow> kernel \<Rightarrow> bool" where
  "worn k A n k' \<longleftrightarrow> wf k' A \<and>
     (\<forall>b. queued A b \<longrightarrow> map_option unlinked (pcbs (pcbq k') b) = map_option unlinked (pcbs (pcbq k) b)) \<and>
     curProc k' = curProc k \<and> unat (heap_addr (kvm k')) = unat (heap_addr (kvm k)) + 5380 * n \<and>
     console k' = console k @ concat (replicate (5 * n) (deleted_text @ [NUL]))"

lemma load_command_all: "no_args args = Inr True \<Longrightarrow> load_command entry args k = load_all entry r3_procs k"
  by (simp add: load_command_def loadR3_all)

lemma load_command_one:
  "p \<in> set r3_procs \<Longrightarrow> load_command entry (Some (lit (fst p))) k = load_all entry [p] k"
  by (auto simp: r3_procs_def load_command_def loadProcess_def args_text foldE_fun)

lemma unused_none_taken:
  assumes "\<forall>nm \<in> set (map fst ps). \<not> taken k A nm"
  shows "unused k A ps = ps" "load_errors k A ps = []"
  using assms by (auto simp: unused_def load_errors_def filter_id_conv filter_empty_conv)

lemma starts_named:
  "list_all2 (\<lambda>a (nm, f). starts_at k a nm f) xs ps \<Longrightarrow> list_all2 (named_user k) xs (map fst ps)"
  unfolding list_all2_map2 by (erule list_all2_mono) (auto simp: starts_at_def named_user_def)

text \<open>What is queued lies below everything that is allocated later.\<close>

lemma queued_not_slot:
  assumes wf: "wf k A" and "room (1076 * n) (kvm k)" and b: "queued A b"
  shows "b \<notin> set (slots (heap_addr (kvm k)) n)"
proof
  assume "b \<in> set (slots (heap_addr (kvm k)) n)"
  then have "unat (heap_addr (kvm k)) \<le> unat b" using slots_bounds assms(2) by (simp add: room_def)
  moreover obtain p where "pcbs (pcbq k) b = Some p" using b rep_home[OF wfD(1)[OF wf]] by (auto simp: queued_def)
  then have "b < heap_addr (kvm k)" using wf_pcbD[OF wf] by (simp add: wf_pcb_def)
  ultimately show False by (simp add: word_less_nat_alt)
qed

lemma load_round_ok:
  assumes wf: "wf k A" and new: "\<forall>nm \<in> set (map fst r3_procs). \<not> taken k A nm"
  shows "room 5380 (kvm k) \<Longrightarrow> \<exists>k'. load_round entry k = Inr k' \<and> worn k A 1 k'"
    and "\<not> room 5380 (kvm k) \<Longrightarrow> load_round entry k = Inl (Panic ''Heap is full!'')"
proof -
  let ?fs = "map (\<lambda>(nm, i). (nm, entry i)) r3_procs" and ?xs = "slots (heap_addr (kvm k)) 5"
  have cmd: "load_command entry None k = load_all entry r3_procs k"
    by (rule load_command_all) (simp add: no_args_def)
  note all = load_all_ok[OF wf r3_procs_names(1,2), of entry, unfolded unused_none_taken[OF new] r3_procs_names(4)]
  show "load_round entry k = Inl (Panic ''Heap is full!'')" if "\<not> room 5380 (kvm k)"
    using all that by (simp add: load_round_def cmd)
  assume room: "room 5380 (kvm k)"
  then obtain k1 where k1: "load_all entry r3_procs k = Inr k1" "loaded k A ?fs k1" "console k1 = console k"
    using all by auto
  have len: "length ?fs = 5" by (simp add: r3_procs_names)
  note l = k1(2)[unfolded loaded_def Let_def len]
  have st: "list_all2 (\<lambda>a (nm, f). starts_at k1 a nm f) ?xs ?fs" using l by blast
  have "list_all2 (named_user k1) ?xs (map fst ?fs)" by (rule starts_named[OF st])
  moreover have "map fst ?fs = map fst r3_procs" by (simp add: r3_procs_def)
  ultimately have names: "list_all2 (named_user k1) ?xs (map fst r3_procs)" by (simp only:)
  have fresh: "b \<notin> set ?xs" if "queued A b" for b
    using queued_not_slot[OF wf _ that, of 5] room by simp
  have keep: "map_option unlinked (pcbs (pcbq k1) b) = map_option unlinked (pcbs (pcbq k) b)" if "queued A b" for b
    using l fresh[OF that] by blast
  let ?T = "takeWhile (\<lambda>b. prio_of (pcbq k) b \<le> 1) (A ReadyQ)" and ?D = "dropWhile (\<lambda>b. prio_of (pcbq k) b \<le> 1) (A ReadyQ)"
  have same: "A(ReadyQ := ?T @ ?D) = A" by simp
  have "\<forall>b. queued A b \<longrightarrow> name_of (pcbq k1) b \<notin> set (map fst r3_procs)"
    using new unlinked_name[OF keep] unfolding taken_def by metis
  then obtain s k' where k': "delete_all (map fst r3_procs) k1 = Inr k'" 
    "k' = emit (concat (replicate 5 (deleted_text @ [NUL]))) (k1\<lparr>pcbq := s\<rparr>)" "wf k' A" "same_pcbs (pcbq k1) s"
    using delete_all_ok[OF _ names r3_procs_names(1) _ r3_procs_names(3), of A ?T ?D] l
    unfolding same with_ready_def length_map r3_procs_names(4) by blast
  have "unat (heap_addr (kvm k) + 5380) = unat (heap_addr (kvm k)) + 5380"
    using heap_offset[OF wfD(2)[OF wf] room, of 5380] by simp
  moreover have "console (k1\<lparr>pcbq := s\<rparr>) = console k" using k1(3) by (simp add: console_def)
  ultimately have "worn k A 1 k'" unfolding worn_def
    using k' keep l by (auto simp: same_pcbs_def)
  then show "\<exists>k'. load_round entry k = Inr k' \<and> worn k A 1 k'"
    using k1(1) k'(1) by (simp add: load_round_def cmd)
qed

lemma worn_0: "wf k A \<Longrightarrow> worn k A 0 k"
  by (simp add: worn_def)

lemma worn_add: "worn k A m k1 \<Longrightarrow> worn k1 A n k' \<Longrightarrow> worn k A (m + n) k'"
  by (simp add: worn_def replicate_add distrib_left)

lemma worn_taken: "worn k A n k' \<Longrightarrow> taken k' A nm \<longleftrightarrow> taken k A nm"
  unfolding worn_def taken_def using unlinked_name by metis

lemma load_rounds_ok:
  assumes "wf k A" and "\<forall>nm \<in> set (map fst r3_procs). \<not> taken k A nm"
  shows "if room (5380 * n) (kvm k) then \<exists>k'. load_rounds entry n k = Inr k' \<and> worn k A n k'
    else load_rounds entry n k = Inl (Panic ''Heap is full!'')"
  using assms
proof (induction n arbitrary: k)
  case 0
  then show ?case using worn_0[of k A] wfD(2)[of k A] by (simp add: room_def heap_wf_def)
next
  case (Suc n)
  show ?case
  proof (cases "room 5380 (kvm k)")
    case False
    then have "\<not> room (5380 * Suc n) (kvm k)" by (simp add: room_def)
    then show ?thesis using load_round_ok(2)[OF Suc.prems False] by simp
  next
    case True
    obtain k1 where k1: "load_round entry k = Inr k1" "worn k A 1 k1"
      using load_round_ok(1)[OF Suc.prems True] by blast
    have r: "room (5380 * n) (kvm k1) \<longleftrightarrow> room (5380 * Suc n) (kvm k)"
      using k1(2) by (simp add: worn_def room_def add.assoc)
    have "wf k1 A" "\<forall>nm \<in> set (map fst r3_procs). \<not> taken k1 A nm"
      using k1(2) Suc.prems(2) worn_taken[OF k1(2)] by (auto simp: worn_def)
    note IH = Suc.IH[OF this, unfolded r]
    show ?thesis using IH worn_add[OF k1(2), of n] k1(1) by (auto split: if_splits)
  qed
qed

section \<open>Properties\<close>

text \<open>Property C32. The command \<open>load\<close> of all five processes, or of one by its name, for every state
  of the queues and of the heap: the processes whose names no queued process has are allocated
  one after the other, start with their functions, and stand in the ready queue in this order,
  behind the last ready process of a priority of at most 1; for each of the others the error is
  printed and nothing else happens. If the heap has no room for all that are new, the kernel
  panics.\<close>

theorem load_command_loads:
  assumes "wf k A"
    and "no_args args = Inr True \<and> ps = r3_procs \<or> (\<exists>p \<in> set r3_procs. args = Some (lit (fst p)) \<and> ps = [p])"
  shows "let new = unused k A ps
    in if room (1076 * length new) (kvm k)
       then \<exists>k'. load_command entry args k = Inr k' \<and> loaded k A (map (\<lambda>(nm, i). (nm, entry i)) new) k' \<and>
         console k' = console k @ load_errors k A ps
       else load_command entry args k = Inl (Panic ''Heap is full!'')"
proof -
  have "load_command entry args k = load_all entry ps k"
    using assms(2) load_command_all load_command_one by auto
  moreover have "distinct (map fst ps)" "\<forall>(nm, i) \<in> set ps. NUL \<notin> set nm \<and> length nm < 16"
    using assms(2) r3_procs_names(1,2) by auto
  ultimately show ?thesis using load_all_ok[OF assms(1), of ps entry] unfolding Let_def by simp
qed

text \<open>Property C22. Loading the five processes and deleting them again, \<open>n\<close> times: while the heap
  has room, the queues, the processes in them and the running process are in the end as they
  were, but every round has used up 5380 bytes, as the memory of a deleted process is never used
  again; then the kernel panics.\<close>

theorem load_delete_wears:
  assumes "wf k A" and "\<forall>nm \<in> set (map fst r3_procs). \<not> taken k A nm"
  shows "if room (5380 * n) (kvm k) then \<exists>k'. load_rounds entry n k = Inr k' \<and> worn k A n k'
    else load_rounds entry n k = Inl (Panic ''Heap is full!'')"
  by (rule load_rounds_ok[OF assms])

end
