(* ===== verification/Alarm.thy ===== *)
theory Alarm
  imports Shell Load
begin

text \<open>
  Alarms, \<^verbatim>\<open>user/alarm.c\<close>: the command makes a process that polls the clock until its time
  has come, prints its message and exits.

  \<open>system\<close> adds to the kernel state the \<open>AlarmData\<close> objects on the heap, by their address,
  and the static counter of the names. The process is the function \<open>alarm\<close>, which here is
  \<open>alarm_turn\<close>, one round of its loop: its result is the request the round ends with. The
  address of \<open>alarm\<close> is the argument \<open>entry\<close>, what local memory holds before it is written is
  \<open>junk\<close>.
\<close>

record alarm_data =
  alarm_hour :: int
  alarm_minute :: int
  alarm_second :: int
  alarm_message :: cbuf

record system =
  kern :: kernel
  alarms :: "addr \<Rightarrow> alarm_data option"
  alarm_counter :: int

abbreviation (input) sizeof_AlarmData :: u32 where "sizeof_AlarmData \<equiv> 112"

definition on_kern :: "(kernel \<Rightarrow> kernel c) \<Rightarrow> system \<Rightarrow> system c" where
  "on_kern f s = bindE (f (kern s)) (\<lambda>k. Inr (s\<lparr>kern := k\<rparr>))"

definition load_alarm :: "addr \<Rightarrow> system \<Rightarrow> alarm_data c" where
  "load_alarm a s =
     (if a = NULL then Inl NullDeref
      else case alarms s a of None \<Rightarrow> Inl BadPointer | Some d \<Rightarrow> Inr d)"

section \<open>The process\<close>

definition alarm_due :: "alarm_data \<Rightarrow> rtc_time \<Rightarrow> bool" where
  "alarm_due d t \<longleftrightarrow>
     uint (hour t) > alarm_hour d \<or>
     uint (hour t) = alarm_hour d \<and> uint (minute t) > alarm_minute d \<or>
     uint (hour t) = alarm_hour d \<and> uint (minute t) = alarm_minute d \<and> uint (second t) \<ge> alarm_second d"

text \<open>\<open>self\<close> and \<open>data\<close> are the local variables the loop uses.\<close>

definition alarm_turn :: "addr \<Rightarrow> addr \<Rightarrow> system \<Rightarrow> (u32 \<times> system) c" where
  "alarm_turn self data s =
     (let (t, m) = get_time (devices (kio (kern s)));
          s = s\<lparr>kern := (kern s)\<lparr>kio := (kio (kern s))\<lparr>devices := m\<rparr>\<rparr>\<rparr>
      in bindE (load_alarm data s) (\<lambda>d.
         if alarm_due d t
         then bindE (on_kern (say (alarm_message d)) s) (\<lambda>s.
              bindE (on_kern (kwrite (lit (CR # [LF])) 2) s) (\<lambda>s.
              bindE (on_kern (k_free data) s) (\<lambda>s.
              bindE (on_kern (modify_pcb self (\<lambda>p. p\<lparr>pargs := NULL\<rparr>)) s) (\<lambda>s.
              Inr (EXIT, s)))))
         else Inr (IDLE, s)))"

text \<open>What the function does before the loop: \<open>None\<close> is the immediate \<open>sys_req(EXIT)\<close>.\<close>

definition alarm_start :: "system \<Rightarrow> (addr \<times> addr) option c" where
  "alarm_start s =
     (let self = sys_get_current_process (kern s)
      in if self = NULL then Inr None
         else bindE (load self (pcbq (kern s))) (\<lambda>p. Inr (Some (self, pargs p))))"

section \<open>The command\<close>

definition alarm_help_text :: string where
  "alarm_help_text =
     CR # LF # ESC # ''[33malarm'' @ ESC # ''[0m <'' @ ESC # ''[36mhelp|time'' @ ESC #
     ''[0m> <'' @ ESC # ''[36mmessage'' @ ESC #
     ''[0m>   set alarm at given time to display desired message.   '' @ CR # LF # ''  '' @
     ESC # ''[33mtime'' @ ESC # ''[0m                        desired time in form HH:MM:SS'' @
     CR # LF # ''  '' @ ESC # ''[33m---'' @ ESC #
     ''[0m                        Hours must be 0-23'' @ CR # LF # ''  '' @ ESC # ''[33m---'' @
     ESC # ''[0m                        Minutes must be 0-59'' @ CR # LF # ''  '' @ ESC #
     ''[33m---'' @ ESC # ''[0m                        Seconds must be 0-59'' @ CR # LF #
     ''  '' @ ESC # ''[33mmessage'' @ ESC #
     ''[0m                         desired message (must be under 100 chars).'' @ CR # LF #
     ''  '' @ ESC # ''[33mhelp'' @ ESC # ''[0m                         prints this message.'' @
     CR # LF # CR # [LF]"

definition alarm_help :: "system \<Rightarrow> system c" where
  "alarm_help = on_kern (say (lit alarm_help_text))"

definition alarm_set_text :: string where
  "alarm_set_text = ESC # ''[32mAlarm set successfully.'' @ ESC # ''[0m'' @ CR # [LF]"

text \<open>\<open>strncpy(to, src, 99); to[99] = 0\<close> on the message of an object just allocated.\<close>

definition copy_message :: "(nat \<Rightarrow> char) \<Rightarrow> cbuf \<Rightarrow> cbuf c" where
  "copy_message junk src =
     bindE (strncpy (local_array junk 100) src 99) (\<lambda>m. put m 99 NUL)"

definition alarm_create :: "(nat \<Rightarrow> char) \<Rightarrow> addr \<Rightarrow> addr \<Rightarrow> system \<Rightarrow> system c" where
  "alarm_create junk entry data s =
     bindE (k_alloc sizeof_AlarmData (kern s)) (\<lambda>(newData, k).
     let s = s\<lparr>kern := k\<rparr>
     in if newData = NULL
        then on_kern (kwrite (lit (ESC # ''[31mError: Memory allocation failed.'' @ ESC #
                                   ''[0m'' @ CR # [LF])) 53) s
        else bindE (load_alarm data s) (\<lambda>d.
             bindE (copy_message junk (alarm_message d)) (\<lambda>msg.
             let s = s\<lparr>alarms := (alarms s)(newData \<mapsto> \<lparr>alarm_hour = alarm_hour d,
                       alarm_minute = alarm_minute d, alarm_second = alarm_second d, alarm_message = msg\<rparr>)\<rparr>
             in bindE (my_strcpy (local_array junk 16) (lit ''alarm'')) (\<lambda>name.
                bindE (i32 (alarm_counter s + 1)) (\<lambda>n.
                bindE (itoa (alarm_counter s) (local_array junk 8)) (\<lambda>numbuf.
                let s = s\<lparr>alarm_counter := n\<rparr>
                in bindE (my_strcat name numbuf) (\<lambda>name.
                   bindE (pcb_setup (Some name) CLASS_USER 1 entry (kern s)) (\<lambda>(newProc, k).
                   let s = s\<lparr>kern := k\<rparr>
                   in if newProc = NULL
                      then bindE (on_kern (k_free data) s) (\<lambda>s.
                           on_kern (say (lit (ESC #
                                              ''[31mError: Failed to setup alarm process.'' @
                                              ESC # ''[0m'' @ CR # [LF]))) s)
                      else bindE (on_kern (modify_pcb newProc (\<lambda>p. p\<lparr>pargs := newData\<rparr>)) s) (\<lambda>s.
                           bindE (on_kern (k_insert newProc) s) (\<lambda>s.
                           on_kern (say (lit alarm_set_text)) s))))))))))"

definition alarm_error :: "string \<Rightarrow> system \<Rightarrow> system c" where
  "alarm_error err s = bindE (on_kern (say (lit err)) s) alarm_help"

definition alarm_command :: "(nat \<Rightarrow> char) \<Rightarrow> addr \<Rightarrow> cptr \<Rightarrow> system \<Rightarrow> system c" where
  "alarm_command junk entry args s =
     bindE (no_args args) (\<lambda>none.
     if none
     then bindE (on_kern (kwrite (lit (ESC #
                                       ''[31mError: Please ensure a name, class, and priority are given'' @
                                       ESC # ''[0m'' @ [LF])) 69) s) alarm_help
     else bindE (args_are args ''help'') (\<lambda>b. if b then alarm_help s
     else bindE (deref args) (\<lambda>a.
          bindE (strncpy (local_array junk 9) a 8) (\<lambda>time_str.
          let message = drop 9 a
          in bindE (strlen message) (\<lambda>n.
             bindE (if n > 100 then Inr True else bindE (peek message 0) (\<lambda>ch. Inr (ch = NUL))) (\<lambda>bad.
             if bad
             then alarm_error (ESC # ''[31mMust include valid message'' @ ESC # ''[0m'' @ CR #
                               [LF]) s
             else bindE (bad_format time_str (CHR '':'')) (\<lambda>bad.
             if bad
             then alarm_error (ESC # ''[31mInvalid format. Use set time <HH:MM:SS>'' @ ESC #
                               ''[0m'' @ CR # [LF]) s
             else
               bindE (two_digits time_str 0) (\<lambda>h.
               bindE (two_digits time_str 3) (\<lambda>mi.
               bindE (two_digits time_str 6) (\<lambda>sec.
               if h < 0 \<or> h > 23 \<or> mi < 0 \<or> mi > 59 \<or> sec < 0 \<or> sec > 59
               then alarm_error (ESC # ''[31mInvalid time values.'' @ ESC # ''[0m'' @ CR # [LF]) s
               else bindE (k_alloc sizeof_AlarmData (kern s)) (\<lambda>(data, k).
                    if data = NULL then Inl NullDeref
                    else bindE (copy_message junk message) (\<lambda>msg.
                         alarm_create junk entry data
                           (s\<lparr>kern := k, alarms := (alarms s)(data \<mapsto> \<lparr>alarm_hour = h,
                              alarm_minute = mi, alarm_second = sec, alarm_message = msg\<rparr>)\<rparr>)))))))))))))"

section \<open>When an alarm fires\<close>

definition day_seconds :: "rtc_time \<Rightarrow> int" where
  "day_seconds t = uint (hour t) * 3600 + uint (minute t) * 60 + uint (second t)"

definition alarm_seconds :: "alarm_data \<Rightarrow> int" where
  "alarm_seconds d = alarm_hour d * 3600 + alarm_minute d * 60 + alarm_second d"

definition on_the_clock :: "alarm_data \<Rightarrow> bool" where
  "on_the_clock d \<longleftrightarrow> alarm_hour d \<in> {0..23} \<and> alarm_minute d \<in> {0..59} \<and> alarm_second d \<in> {0..59}"

lemma lex_time:
  fixes h m s H M S :: int
  assumes "0 \<le> m" "m < 60" "0 \<le> s" "s < 60" "0 \<le> M" "M < 60" "0 \<le> S" "S < 60"
  shows "h < H \<or> H = h \<and> m < M \<or> H = h \<and> M = m \<and> s \<le> S \<longleftrightarrow>
    h * 3600 + m * 60 + s \<le> H * 3600 + M * 60 + S"
proof -
  consider "H < h" | "H = h" "M < m" | "H = h" "M = m" | "H = h" "m < M" | "h < H" by linarith
  then show ?thesis
  proof cases
    case 1
    then have "\<not> h * 3600 + m * 60 + s \<le> H * 3600 + M * 60 + S" using assms by linarith
    then show ?thesis using 1 by simp
  next
    case 5
    then have "h * 3600 + m * 60 + s \<le> H * 3600 + M * 60 + S" using assms by linarith
    then show ?thesis using 5 by simp
  qed (use assms in auto)
qed

lemma alarm_due_iff:
  assumes "on_the_clock d" and "minute t < 60" "second t < 60"
  shows "alarm_due d t \<longleftrightarrow> alarm_seconds d \<le> day_seconds t"
proof -
  have "uint (minute t) < 60" "uint (second t) < 60" using assms(2,3) by (auto simp: word_less_def)
  moreover have "0 \<le> uint (minute t)" "0 \<le> uint (second t)" by simp_all
  moreover have "0 \<le> alarm_minute d" "alarm_minute d < 60" "0 \<le> alarm_second d" "alarm_second d < 60"
    using assms(1) by (auto simp: on_the_clock_def)
  ultimately show ?thesis
    unfolding alarm_due_def day_seconds_def alarm_seconds_def using lex_time by simp
qed

section \<open>Setting an alarm\<close>

lemma k_alloc_wf:
  assumes wf: "wf k A" and room: "room (unat sz) (kvm k)"
  defines "k' \<equiv> k\<lparr>kvm := (kvm k)\<lparr>heap_addr := heap_addr (kvm k) + sz\<rparr>\<rparr>"
  shows "k_alloc sz k = Inr (heap_addr (kvm k), k')" "wf k' A"
    "room n (kvm k') \<longleftrightarrow> room (unat sz + n) (kvm k)"
proof -
  note al = k_alloc_room[OF wfD(2)[OF wf] room]
  show "k_alloc sz k = Inr (heap_addr (kvm k), k')" unfolding k'_def by (rule al(1))
  show "room n (kvm k') \<longleftrightarrow> room (unat sz + n) (kvm k)" by (simp add: k'_def room_def al(2) add.assoc)
  have "heap_addr (kvm k) \<le> heap_addr (kvm k) + sz" using al(2) by (simp add: word_le_nat_alt)
  then have "wf_pcb k' a p" if "wf_pcb k a p" for a p
    using that by (auto simp: wf_pcb_def k'_def)
  moreover have "heap_wf (kvm k')"
    using wfD(2)[OF wf] room al(2) by (simp add: heap_wf_def room_def k'_def)
  ultimately show "wf k' A" using wf by (auto simp: wf_def frames_ok_def live_def k'_def)
qed

lemma copy_message_lit:
  "NUL \<notin> set msg \<Longrightarrow> length msg \<le> 99 \<Longrightarrow>
    copy_message junk (lit msg) = Inr (msg @ replicate (100 - length msg) NUL)"
proof -
  assume m: "NUL \<notin> set msg" "length msg \<le> 99"
  have "take 99 (msg @ replicate 99 NUL) = msg @ replicate (99 - length msg) NUL" using m(2) by simp
  moreover have "(msg @ replicate (99 - length msg) NUL @ [junk 99])[99 := NUL] = msg @ replicate (99 - length msg) NUL @ [NUL]"
    using m(2) by (simp add: list_update_append)
  moreover have "n = Suc i \<Longrightarrow> drop i (local_array junk n) = [junk i]" for n i
    by (simp add: local_array_def)
  then have "drop 99 (local_array junk 100) = [junk 99]" by this simp
  moreover have "replicate (99 - length msg) NUL @ [NUL] = replicate (100 - length msg) NUL"
  proof -
    have "100 - length msg = Suc (99 - length msg)" using m(2) by simp
    then show ?thesis by (simp add: replicate_append_same)
  qed
  ultimately show ?thesis using m
    by (simp add: copy_message_def strncpy_spec text_of_lit)
qed

text \<open>
  \<open>alarm_process k A n d f\<close>: the process of alarm number \<open>n\<close> has been added to the kernel
  state \<open>k\<close> with queues \<open>A\<close>: in \<open>k'\<close> it is at \<open>a\<close> and in the ready queue by its priority 1,
  \<open>d\<close> is its argument and \<open>f\<close> the function it starts with.
\<close>

definition alarm_name :: "int \<Rightarrow> string" where
  "alarm_name n = ''alarm'' @ show_int n"

definition alarm_process ::
    "kernel \<Rightarrow> (qid \<Rightarrow> addr list) \<Rightarrow> int \<Rightarrow> addr \<Rightarrow> addr \<Rightarrow> addr \<Rightarrow> kernel \<Rightarrow> bool" where
  "alarm_process k A n d f a k' \<longleftrightarrow>
     wf k' (A(ReadyQ := ins_ready (prio k') a (A ReadyQ))) \<and> \<not> queued A a \<and>
     (\<exists>r x. pcbs (pcbq k') a = Some r \<and> text_of (pname r) = alarm_name n \<and> process_class r = CLASS_USER \<and>
        priority r = 1 \<and> pargs r = d \<and> contexts k' (contextPtr r) = Some x \<and> reg_eip x = f) \<and>
     (\<forall>b. b \<noteq> a \<longrightarrow> map_option unlinked (pcbs (pcbq k') b) = map_option unlinked (pcbs (pcbq k) b)) \<and>
     curProc k' = curProc k \<and> console k' = console k @ alarm_set_text"

lemma NUL_notin_alarm_set: "NUL \<notin> set alarm_set_text"
  by (simp add: alarm_set_text_def)

lemma alarm_name_built:
  assumes "0 \<le> n" "n \<le> 2147483646" and "length (show_int n) < 8"
  obtains b0 b1 nm where "my_strcpy (local_array junk 16) (lit ''alarm'') = Inr b0"
    and "itoa n (local_array junk 8) = Inr b1" and "my_strcat b0 b1 = Inr nm"
    and "terminated nm" "text_of nm = alarm_name n"
proof -
  define b0 where "b0 = ''alarm'' @ NUL # drop 6 (local_array junk 16)"
  define b1 where "b1 = show_int n @ NUL # drop (length (show_int n) + 1) (local_array junk 8)"
  have "text_of (lit ''alarm'') = ''alarm''" "length ''alarm'' + 1 = 6"
    "length ''alarm'' < length (local_array junk 16)" "terminated (lit ''alarm'')"
    by (simp_all add: text_of_lit)
  from my_strcpy_spec[of "lit ''alarm''" "local_array junk 16", unfolded this(1,2), OF this(4,3)]
  have m0: "my_strcpy (local_array junk 16) (lit ''alarm'') = Inr b0" by (simp add: b0_def)
  have m1: "itoa n (local_array junk 8) = Inr b1"
    unfolding b1_def using assms by (intro itoa_spec) simp_all
  have t: "text_of b0 = ''alarm''" "text_of b1 = show_int n" "terminated b0" "terminated b1" "length b0 = 16"
    using text_of_append_NUL[of "''alarm''"] text_of_append_NUL[OF NUL_notin_show_int]
    by (simp_all add: b0_def b1_def)
  have "length (text_of b0) + length (text_of b1) < length b0" unfolding t using assms(3) by simp
  from my_strcat_spec[OF t(3,4) this]
  obtain xs where xs: "my_strcat b0 b1 = Inr (alarm_name n @ NUL # xs)"
    unfolding t(1,2) alarm_name_def append_assoc by blast
  have "terminated (alarm_name n @ NUL # xs)" "text_of (alarm_name n @ NUL # xs) = alarm_name n"
    using NUL_notin_show_int by (simp_all add: alarm_name_def text_of_append_NUL)
  then show ?thesis by (rule that[OF m0 m1 xs])
qed

text \<open>What the insertion of the process leaves is an \<open>alarm_process\<close> once the message is printed.\<close>

lemma alarm_process_made:
  fixes k :: kernel and entry d :: addr
  assumes wf: "wf k A" and n: "length (show_int n) < 8"
  defines "a \<equiv> heap_addr (kvm k)" and "k2 \<equiv> add_process (alarm_name n) CLASS_USER 1 entry k"
  defines "r0 \<equiv> (setup_pcb (alarm_name n) CLASS_USER 1 a)\<lparr>pargs := d\<rparr>"
  assumes q: "same_pcbs ((pcbq k)\<lparr>pcbs := (pcbs (pcbq k))(a \<mapsto> r0)\<rparr>) q"
    and wf2: "wf (k2\<lparr>pcbq := q\<rparr>) (A(ReadyQ := ins_ready (prio_of q) a (A ReadyQ)))"
  shows "alarm_process k A n d entry a (emit alarm_set_text (k2\<lparr>pcbq := q\<rparr>))"
proof -
  let ?k3 = "emit alarm_set_text (k2\<lparr>pcbq := q\<rparr>)"
  obtain r where r: "pcbs q a = Some r" "unlinked r = unlinked r0" using same_pcbs_Some[OF q, of a r0] by auto
  note u = unlinked_fields[OF r(2)]
  have len: "length (alarm_name n) < 16" "NUL \<notin> set (alarm_name n)"
    using n NUL_notin_show_int by (simp_all add: alarm_name_def)
  show ?thesis
    unfolding alarm_process_def
  proof (intro conjI exI allI impI)
    show "wf ?k3 (A(ReadyQ := ins_ready (prio ?k3) a (A ReadyQ)))" using wf2 by (simp add: prio_eq)
    show "\<not> queued A a" using heap_addr_fresh(2)[OF wf] by (simp add: a_def)
    show "pcbs (pcbq ?k3) a = Some r" using r(1) by simp
    have "16 - length (alarm_name n) = Suc (15 - length (alarm_name n))" using len(1) by simp
    then show "text_of (pname r) = alarm_name n"
      using u(1) len(2) by (simp add: r0_def setup_pcb_def text_of_append_NUL)
    show "process_class r = CLASS_USER" "priority r = 1" "pargs r = d"
      using u(2,3,6) by (simp_all add: r0_def setup_pcb_def)
    show "contexts ?k3 (contextPtr r) = Some (initial_frame entry (frame_of a) zero_context)"
      using u(8) by (simp add: r0_def k2_def a_def setup_pcb_def fresh_pcb_def add_process_def Let_def)
    show "reg_eip (initial_frame entry (frame_of a) zero_context) = entry" by (simp add: initial_frame_def)
    show "map_option unlinked (pcbs (pcbq ?k3) b) = map_option unlinked (pcbs (pcbq k) b)" if "b \<noteq> a" for b
      using q that by (simp add: same_pcbs_def)
    show "curProc ?k3 = curProc k" by (simp add: k2_def add_process_def Let_def)
    have "console (k2\<lparr>pcbq := q\<rparr>) = console k" by (simp add: k2_def console_def add_process_def Let_def)
    then show "console ?k3 = console k @ alarm_set_text" by simp
  qed
qed

lemma alarm_create_ok:
  assumes wf: "wf (kern s) A" and room: "room 1188 (kvm (kern s))"
    and d: "data \<noteq> NULL" "alarms s data = Some d" "alarm_message d = lit msg @ pad"
    and msg: "NUL \<notin> set msg" "length msg \<le> 99"
    and n: "0 \<le> alarm_counter s" "alarm_counter s \<le> 2147483646" "length (show_int (alarm_counter s)) < 8"
    and new: "\<forall>a. queued A a \<longrightarrow> name_of (pcbq (kern s)) a \<noteq> alarm_name (alarm_counter s)"
  defines "nd \<equiv> heap_addr (kvm (kern s))"
  shows "\<exists>k'. alarm_create junk entry data s =
      Inr (s\<lparr>alarms := (alarms s)(nd \<mapsto> d\<lparr>alarm_message := msg @ replicate (100 - length msg) NUL\<rparr>),
             alarm_counter := alarm_counter s + 1, kern := k'\<rparr>) \<and>
    alarm_process (kern s) A (alarm_counter s) nd entry (nd + 112) k'"
proof -
  let ?k = "kern s" and ?n = "alarm_counter s"
  define k1 where "k1 = ?k\<lparr>kvm := (kvm ?k)\<lparr>heap_addr := nd + 112\<rparr>\<rparr>"
  have r112: "room (unat (112::u32)) (kvm ?k)" using room by (simp add: room_def)
  note al = k_alloc_wf[OF wf r112, folded nd_def, folded k1_def]
  have room1: "room 1076 (kvm k1)" using al(3)[of 1076] room by simp
  have k1: "pcbq k1 = pcbq ?k" "heap_addr (kvm k1) = nd + 112" "kio k1 = kio ?k" "curProc k1 = curProc ?k"
    by (simp_all add: k1_def)
  have nd: "nd \<noteq> NULL" unfolding nd_def by (rule heap_addr_nonzero[OF wfD(2)[OF wf]])
  have cm: "copy_message junk (alarm_message d) = Inr (msg @ replicate (100 - length msg) NUL)"
    using copy_message_lit[OF msg, of junk] msg unfolding d(3)
    by (simp add: copy_message_def strncpy_spec text_of_append_NUL lit_def)
  obtain b0 b1 nm where nb: "my_strcpy (local_array junk 16) (lit ''alarm'') = Inr b0"
      "itoa ?n (local_array junk 8) = Inr b1" "my_strcat b0 b1 = Inr nm"
    and nm: "terminated nm" "text_of nm = alarm_name ?n"
    by (rule alarm_name_built[OF n])
  have len: "length (alarm_name ?n) < 16" "NUL \<notin> set (alarm_name ?n)"
    using n(3) NUL_notin_show_int by (simp_all add: alarm_name_def)
  have len': "length (text_of nm) < 16" using len nm(2) by simp
  have new1: "\<forall>a. queued A a \<longrightarrow> name_of (pcbq k1) a \<noteq> text_of nm" using new k1(1) nm(2) by simp
  let ?a = "nd + 112"
  let ?k2 = "add_process (alarm_name ?n) CLASS_USER 1 entry k1"
  have st: "pcb_setup (Some nm) CLASS_USER 1 entry k1 = Inr (?a, ?k2)"
    using pcb_setup_ok[OF al(2) room1 nm(1) len' _ _ new1, of 1 CLASS_USER entry] nm(2) k1(2) by simp
  have a: "?a \<noteq> NULL" using heap_addr_nonzero[OF wfD(2)[OF al(2)]] k1(2) by simp
  let ?r = "(setup_pcb (alarm_name ?n) CLASS_USER 1 ?a)\<lparr>pargs := nd\<rparr>"
  let ?t = "(pcbq ?k2)\<lparr>pcbs := (pcbs (pcbq ?k2))(?a \<mapsto> ?r)\<rparr>"
  obtain q where q: "modify_pcb ?a (\<lambda>p. p\<lparr>pargs := nd\<rparr>) ?k2 = Inr (?k2\<lparr>pcbq := ?t\<rparr>)"
    "k_insert ?a (?k2\<lparr>pcbq := ?t\<rparr>) = Inr (?k2\<lparr>pcbq := q\<rparr>)"
    "same_pcbs ((pcbq k1)\<lparr>pcbs := (pcbs (pcbq k1))(?a \<mapsto> ?r)\<rparr>) q"
    "wf (?k2\<lparr>pcbq := q\<rparr>) (A(ReadyQ := ins_ready (prio_of q) ?a (A ReadyQ)))"
    using insert_added[OF al(2) room1 len(2,1), where pr = 1 and cls = CLASS_USER and f = entry and d = nd] unfolding k1(2) by force
  let ?k3 = "emit alarm_set_text (?k2\<lparr>pcbq := q\<rparr>)"
  have "online COM1 (kio (?k2\<lparr>pcbq := q\<rparr>))" using wfD(3)[OF q(4)] .
  then have run: "alarm_create junk entry data s =
      Inr (s\<lparr>alarms := (alarms s)(nd \<mapsto> d\<lparr>alarm_message := msg @ replicate (100 - length msg) NUL\<rparr>),
             alarm_counter := ?n + 1, kern := ?k3\<rparr>)"
    using d(1,2) nd n(1,2) a
    by (simp add: alarm_create_def al(1) cm nb st q(1,2) load_alarm_def on_kern_def say_lit
        NUL_notin_alarm_set Let_def)
       (cases d, simp)
  have "alarm_process k1 A ?n nd entry ?a ?k3"
    using alarm_process_made[OF al(2) n(3), unfolded k1(2), OF q(3,4)] .
  then have "alarm_process ?k A ?n nd entry ?a ?k3"
    using k1 by (simp add: alarm_process_def console_def)
  with run show ?thesis by blast
qed

text \<open>The arguments of the command as it reads them.\<close>

lemma alarm_arguments:
  assumes "h < 24" "mi < 60" "sec < 60" and "NUL \<notin> set msg"
  defines "t \<equiv> clock_text h CHR '':'' mi CHR '':'' sec"
  defines "a \<equiv> lit (t @ '' '' @ msg)"
  shows "no_args (Some a) = Inr False" "args_are (Some a) ''help'' = Inr False"
    "strncpy (local_array junk 9) a 8 = Inr (t @ [junk 8])" "drop 9 a = lit msg"
    "bad_format (t @ [junk 8]) CHR '':'' = (if junk 8 = NUL then Inr False else Inl OutOfBounds)"
proof -
  have lt: "length t = 8" by (simp add: t_def clock_text_def tens_ones_def)
  have nul: "NUL \<notin> set t" unfolding t_def using assms(1-3) by (intro NUL_notin_clock_text) simp_all
  then have na: "NUL \<notin> set (t @ '' '' @ msg)" using assms(4) by simp
  then have ta: "terminated a" "text_of a = t @ '' '' @ msg" by (simp_all add: a_def)
  have "9 \<le> length (text_of a)" using lt ta(2) by simp
  then have "text_of a \<noteq> x" if "length x < 9" for x using that by (metis not_le)
  from this[of "[]"] this[of "''help''"] show "no_args (Some a) = Inr False" "args_are (Some a) ''help'' = Inr False"
    using ta(1) by (simp_all add: args_text)
  have "n = Suc i \<Longrightarrow> drop i (local_array junk n) = [junk i]" for n i by (simp add: local_array_def)
  then have "drop 8 (local_array junk 9) = [junk 8]" by this simp
  then show "strncpy (local_array junk 9) a 8 = Inr (t @ [junk 8])"
    using ta lt by (simp add: strncpy_spec)
  show "drop 9 a = lit msg" using lt by (simp add: a_def lit_def)
  show "bad_format (t @ [junk 8]) CHR '':'' = (if junk 8 = NUL then Inr False else Inl OutOfBounds)"
  proof (cases "junk 8 = NUL")
    case True
    then have "bad_format (t @ [junk 8]) CHR '':'' = bad_format (lit t) CHR '':''" by (simp add: lit_def)
    then show ?thesis
      using True bad_format_clock_text[of h mi sec "CHR '':''" "CHR '':''" "CHR '':''"] assms(1-3) by (simp add: t_def)
  next
    case False
    then have "\<not> terminated (t @ [junk 8])" using nul by (simp add: terminated_def)
    then show ?thesis using False by (simp add: bad_format_def strlen_def strlen_loop_unterminated)
  qed
qed

lemma alarm_command_parts:
  assumes "no_args (Some a) = Inr False" "args_are (Some a) ''help'' = Inr False"
    and "strncpy (local_array junk 9) a 8 = Inr ts" "drop 9 a = lit msg"
    and "NUL \<notin> set msg" "msg \<noteq> []" "length msg \<le> 100"
  shows "alarm_command junk entry (Some a) s =
      bindE (bad_format (ts) CHR '':'') (\<lambda>bad. if bad then alarm_error
        (ESC # ''[31mInvalid format. Use set time <HH:MM:SS>'' @ ESC # ''[0m'' @ CR # [LF]) s else
        bindE (two_digits (ts) 0) (\<lambda>h. bindE (two_digits (ts) 3) (\<lambda>mi.
        bindE (two_digits (ts) 6) (\<lambda>sec.
        if h < 0 \<or> h > 23 \<or> mi < 0 \<or> mi > 59 \<or> sec < 0 \<or> sec > 59
        then alarm_error (ESC # ''[31mInvalid time values.'' @ ESC # ''[0m'' @ CR # [LF]) s
        else bindE (k_alloc 112 (kern s)) (\<lambda>(data, k). if data = NULL then Inl NullDeref
          else bindE (copy_message junk (lit msg)) (\<lambda>msg. alarm_create junk entry data
            (s\<lparr>kern := k, alarms := (alarms s)(data \<mapsto> \<lparr>alarm_hour = h, alarm_minute = mi,
               alarm_second = sec, alarm_message = msg\<rparr>)\<rparr>)))))))"
proof -
  obtain c1 cs where c1: "msg = c1 # cs" using assms(6) by (cases msg) auto
  have m: "strlen (lit msg) = Inr (length msg)" "peek (lit msg) 0 = Inr c1" "c1 \<noteq> NUL"
    using assms(5) by (simp, simp add: c1 lit_def, auto simp: c1)
  show ?thesis using assms(7) m by (simp add: alarm_command_def deref_def assms(1-4) Let_def cong: if_cong)
qed

section \<open>Properties\<close>

text \<open>The object of an alarm for \<open>h:mi:sec\<close> with the message \<open>msg\<close>.\<close>

definition alarm_object :: "nat \<Rightarrow> nat \<Rightarrow> nat \<Rightarrow> string \<Rightarrow> alarm_data" where
  "alarm_object h mi sec msg = \<lparr>alarm_hour = int h, alarm_minute = int mi, alarm_second = int sec,
     alarm_message = msg @ replicate (100 - length msg) NUL\<rparr>"

text \<open>With a NUL behind the time, the command allocates an object, fills it and creates its process.\<close>

lemma alarm_command_fills:
  assumes "wf (kern s) A" and "room 1300 (kvm (kern s))"
    and hms: "h < 24" "mi < 60" "sec < 60" and msg: "NUL \<notin> set msg" "msg \<noteq> []" "length msg \<le> 99"
    and "junk 8 = NUL"
  defines "data \<equiv> heap_addr (kvm (kern s))"
  shows "alarm_command junk entry (Some (lit (clock_text h CHR '':'' mi CHR '':'' sec @ '' '' @ msg))) s =
    alarm_create junk entry data (s\<lparr>kern := (kern s)\<lparr>kvm := (kvm (kern s))\<lparr>heap_addr := data + 112\<rparr>\<rparr>,
      alarms := (alarms s)(data \<mapsto> alarm_object h mi sec msg)\<rparr>)"
proof -
  let ?t = "clock_text h CHR '':'' mi CHR '':'' sec" and ?k = "kern s"
  note ar = alarm_arguments[OF hms msg(1)]
  have "length msg \<le> 100" using msg by simp
  note run = alarm_command_parts[OF ar(1-4) msg(1,2) this]
  have l: "?t @ [junk 8] = lit ?t" using assms(9) by (simp add: lit_def)
  have r112: "room (unat (112::u32)) (kvm ?k)" using assms(2) by (simp add: room_def)
  note al = k_alloc_wf[OF assms(1) r112, folded data_def]
  have nz: "data \<noteq> NULL" unfolding data_def by (rule heap_addr_nonzero[OF wfD(2)[OF assms(1)]])
  have two: "two_digits (lit ?t) 0 = Inr (int h)" "two_digits (lit ?t) 3 = Inr (int mi)" "two_digits (lit ?t) 6 = Inr (int sec)"
    using hms by (simp_all add: two_digits_clock_text)
  have bf: "bad_format (lit ?t) CHR '':'' = Inr False" using ar(5)[of junk] assms(9) l by simp
  show ?thesis
    unfolding run l bf two al(1) copy_message_lit[OF msg(1,3)]
    using assms(9) hms nz by (simp add: alarm_object_def)
qed

text \<open>The message of an object is the text of the argument, ended inside its 100 bytes; copying it again changes nothing.\<close>

lemma alarm_object_message:
  assumes "length msg \<le> 99"
  shows "alarm_message (alarm_object h mi sec msg) = lit msg @ replicate (99 - length msg) NUL"
    and "(alarm_object h mi sec msg)\<lparr>alarm_message := msg @ replicate (100 - length msg) NUL\<rparr> = alarm_object h mi sec msg"
proof -
  have "100 - length msg = Suc (99 - length msg)" using assms by simp
  then show "alarm_message (alarm_object h mi sec msg) = lit msg @ replicate (99 - length msg) NUL"
    by (simp add: alarm_object_def lit_def)
qed (simp add: alarm_object_def)

text \<open>Property C38. The command \<open>alarm HH:MM:SS message\<close> with a valid time adds a user process
  of priority 1 whose argument is a new object with this time and message, puts it into the
  ready queue, counts the name up and says so (two objects are allocated, the first stays
  behind). The byte behind the eight characters of the time has to be NUL by chance: the
  code does not write it, and with another value it reads on behind the array.\<close>

theorem alarm_command_sets:
  assumes "wf (kern s) A" and "room 1300 (kvm (kern s))"
    and "h < 24" "mi < 60" "sec < 60" and "NUL \<notin> set msg" "msg \<noteq> []" "length msg \<le> 99"
    and "0 \<le> alarm_counter s" "alarm_counter s \<le> 2147483646" "length (show_int (alarm_counter s)) < 8"
    and "\<forall>a. queued A a \<longrightarrow> name_of (pcbq (kern s)) a \<noteq> alarm_name (alarm_counter s)"
  shows "let cmd = Some (lit (clock_text h CHR '':'' mi CHR '':'' sec @ '' '' @ msg));
      data = heap_addr (kvm (kern s)); d = alarm_object h mi sec msg
    in if junk 8 = NUL
       then \<exists>k'. alarm_command junk entry cmd s =
           Inr (s\<lparr>alarms := (alarms s)(data \<mapsto> d, data + 112 \<mapsto> d), alarm_counter := alarm_counter s + 1, kern := k'\<rparr>) \<and>
         alarm_process (kern s) A (alarm_counter s) (data + 112) entry (data + 224) k'
       else alarm_command junk entry cmd s = Inl OutOfBounds"
proof (cases "junk 8 = NUL")
  case False
  note ar = alarm_arguments[OF assms(3-6)]
  have "length msg \<le> 100" using assms(8) by simp
  note run = alarm_command_parts[OF ar(1-4) assms(6,7) this]
  show ?thesis using False unfolding Let_def run ar(5) by simp
next
  case True
  let ?k = "kern s" and ?data = "heap_addr (kvm (kern s))" and ?d = "alarm_object h mi sec msg"
  define k1 where "k1 = ?k\<lparr>kvm := (kvm ?k)\<lparr>heap_addr := ?data + 112\<rparr>\<rparr>"
  define s1 where "s1 = s\<lparr>kern := k1, alarms := (alarms s)(?data \<mapsto> ?d)\<rparr>"
  have "room (unat (112::u32)) (kvm ?k)" using assms(2) by (simp add: room_def)
  note al = k_alloc_wf[OF assms(1) this, folded k1_def]
  have nz: "?data \<noteq> NULL" by (rule heap_addr_nonzero[OF wfD(2)[OF assms(1)]])
  have "room 1188 (kvm k1)" using al(3)[of 1188] assms(2) by simp
  moreover have "s1\<lparr>kern := k1\<rparr> = s1" "kern s1 = k1" "alarms s1 ?data = Some ?d" "alarm_counter s1 = alarm_counter s"
    "pcbq k1 = pcbq ?k" "heap_addr (kvm k1) = ?data + 112"
    by (simp_all add: s1_def k1_def)
  ultimately obtain k' where k': "alarm_create junk entry ?data s1 =
      Inr (s1\<lparr>alarms := (alarms s1)(?data + 112 \<mapsto> ?d), alarm_counter := alarm_counter s + 1, kern := k'\<rparr>)"
    "alarm_process k1 A (alarm_counter s) (?data + 112) entry (?data + 112 + 112) k'"
    using alarm_create_ok[of s1 A ?data ?d msg _ junk entry] alarm_object_message[OF assms(8)] al(2) nz assms(6,8-12)
    by auto
  moreover have "alarm_process k1 = alarm_process ?k"
    by (simp add: fun_eq_iff alarm_process_def k1_def console_def)
  moreover have "?data + 112 + 112 = ?data + 224" by simp
  ultimately show ?thesis
    using alarm_command_fills[where junk = junk and entry = entry, OF assms(1-8) True] True by (auto simp: s1_def k1_def Let_def)
qed

text \<open>Property C39. One round of the process \<open>alarm\<close> compares the clock with its time as seconds
  of the day: once the clock has reached it, the round prints the message and a line end,
  drops the argument and asks for \<open>EXIT\<close>; before, it changes nothing and asks for \<open>IDLE\<close>.\<close>

theorem alarm_fires:
  assumes "online COM1 (kio (kern s))" and "load_alarm data s = Inr d" and "terminated (alarm_message d)"
    and "on_the_clock d" and "load self (pcbq (kern s)) = Inr p"
    and "minute (clock_time (devices (kio (kern s)))) < 60" "second (clock_time (devices (kio (kern s)))) < 60"
  defines "due \<equiv> alarm_seconds d \<le> day_seconds (clock_time (devices (kio (kern s))))"
  shows "\<exists>k'. alarm_turn self data s = Inr (if due then EXIT else IDLE, s\<lparr>kern := k'\<rparr>) \<and>
    console k' = console (kern s) @ (if due then text_of (alarm_message d) @ [CR, LF] else []) \<and>
    pcbq k' = (if due then (pcbq (kern s))\<lparr>pcbs := (pcbs (pcbq (kern s)))(self \<mapsto> p\<lparr>pargs := NULL\<rparr>)\<rparr>
               else pcbq (kern s))"
proof -
  let ?io = "kio (kern s)"
  let ?k0 = "(kern s)\<lparr>kio := ?io\<lparr>devices := (devices ?io)\<lparr>cmos_index := 4\<rparr>\<rparr>\<rparr>"
  have on: "online COM1 (kio ?k0)" using assms(1) by (simp add: online_def)
  have c: "console ?k0 = console (kern s)" by (simp add: console_def sent_def)
  have d: "load_alarm data (s\<lparr>kern := ?k0\<rparr>) = Inr d" using assms(2) by (simp add: load_alarm_def split: if_splits)
  have due: "alarm_due d (clock_time (devices ?io)) \<longleftrightarrow> due"
    unfolding due_def by (rule alarm_due_iff) (use assms in auto)
  show ?thesis
  proof (cases due)
    case False
    then have "alarm_turn self data s = Inr (IDLE, s\<lparr>kern := ?k0\<rparr>)"
      using d by (simp add: alarm_turn_def get_time_eq due)
    then show ?thesis using False c by (intro exI[of _ ?k0]) simp
  next
    case True
    let ?k1 = "emit (text_of (alarm_message d) @ [CR, LF]) ?k0"
    have "modify_pcb self (\<lambda>p. p\<lparr>pargs := NULL\<rparr>) ?k1 =
        Inr (?k1\<lparr>pcbq := (pcbq ?k1)\<lparr>pcbs := (pcbs (pcbq ?k1))(self \<mapsto> p\<lparr>pargs := NULL\<rparr>)\<rparr>\<rparr>)"
      using assms(5) by (simp add: modify_pcb_def on_pcbs_def modify_live)
    then have "alarm_turn self data s = Inr (EXIT,
        s\<lparr>kern := ?k1\<lparr>pcbq := (pcbq ?k1)\<lparr>pcbs := (pcbs (pcbq ?k1))(self \<mapsto> p\<lparr>pargs := NULL\<rparr>)\<rparr>\<rparr>\<rparr>)"
      using d on assms(3) True
      by (simp add: alarm_turn_def get_time_eq due on_kern_def say_online kwrite_online lit_def k_free_nop)
    moreover have "console (?k1\<lparr>pcbq := q\<rparr>) = console (kern s) @ text_of (alarm_message d) @ [CR, LF]" for q
      using emit_simps(9)[of "text_of (alarm_message d) @ [CR, LF]" ?k0] c by (simp add: console_def)
    ultimately show ?thesis using True
      by (intro exI[of _ "?k1\<lparr>pcbq := (pcbq ?k1)\<lparr>pcbs := (pcbs (pcbq ?k1))(self \<mapsto> p\<lparr>pargs := NULL\<rparr>)\<rparr>\<rparr>"]) simp
  qed
qed

end
