(* ===== verification/Comhand.thy ===== *)
theory Comhand
  imports Alarm
begin

text \<open>
  The command handler, \<open>comhand\<close> of \<^verbatim>\<open>kernel/comhand.c\<close>: it reads a line, yields, and gives
  the rest of the line to the command the line starts with.

  The yield in every turn hands the processor to the other processes until the handler is
  dispatched again: it is the argument \<open>idle\<close>, a function on the state of the system. The
  handler ends by the request \<open>EXIT\<close> or, for \<open>shutdown\<close>, by returning. \<open>env\<close> holds what the
  build and the linker choose and what local memory holds before it is written.
\<close>

record env =
  junk :: "nat \<Rightarrow> char"
  git :: git_info
  proc_entry :: "nat \<Rightarrow> addr"
  alarm_entry :: addr

section \<open>Reading a line\<close>

definition read_command :: "system \<Rightarrow> (cbuf \<times> system) c" where
  "read_command s =
     bindE (sys_req_READ COM1 (replicate 100 NUL) 100 (kio (kern s))) (\<lambda>(nread, buf, io).
     let s = s\<lparr>kern := (kern s)\<lparr>kio := io\<rparr>\<rparr>
     in bindE (put_at buf nread NUL) (\<lambda>buf.
        bindE (trim_Input buf) (\<lambda>buf.
        bindE (on_kern (kwrite (lit (CR # [LF])) 2) s) (\<lambda>s.
        Inr (buf, s)))))"

section \<open>Command dispatch\<close>

text \<open>\<open>while (*args == ' ') args++\<close>\<close>

fun skip_blanks :: "cbuf \<Rightarrow> cbuf c" where
  "skip_blanks [] = Inl OutOfBounds"
| "skip_blanks (ch # s) = (if ch = CHR '' '' then skip_blanks s else Inr (ch # s))"

definition with_args :: "cbuf \<Rightarrow> nat \<Rightarrow> (cptr \<Rightarrow> 'a c) \<Rightarrow> 'a c" where
  "with_args buf n f = bindE (skip_blanks (drop n buf)) (\<lambda>args. f (Some args))"

datatype 'a after = Go_On 'a | Exit_Request 'a | Return 'a

definition go_on :: "system c \<Rightarrow> system after c" where
  "go_on m = bindE m (\<lambda>s. Inr (Go_On s))"

definition leave_if :: "(system \<Rightarrow> system after) \<Rightarrow> cptr \<Rightarrow> system \<Rightarrow> system after c" where
  "leave_if how args s =
     bindE (exit_command args (kern s)) (\<lambda>(r, k).
     let s = s\<lparr>kern := k\<rparr> in Inr (if r \<noteq> 0 then how s else Go_On s))"

definition no_longer_usable_text :: string where
  "no_longer_usable_text =
     ESC # ''[31mError: This function is depreciated and no longer usable'' @ ESC # ''[0m'' @
     CR # [LF]"

definition invalid_command_text :: string where
  "invalid_command_text =
     ESC # ''[31mInvalid command. Please try again.'' @ ESC # ''[0m'' @ CR # LF # CR # [LF]"

definition run_command :: "env \<Rightarrow> cbuf \<Rightarrow> system \<Rightarrow> system after c" where
  "run_command env buf s =
     (let starts = args_start (Some buf); args = with_args buf; kernel = (\<lambda>f. go_on (on_kern f s))
      in
      bindE (starts ''exit'' 4) (\<lambda>b. if b then args 4 (\<lambda>a. leave_if Exit_Request a s) else
      bindE (starts ''shutdown'' 8) (\<lambda>b. if b then args 8 (\<lambda>a. leave_if Return a s) else
      bindE (starts ''version'' 7) (\<lambda>b.
        if b then args 7 (\<lambda>a. kernel (version_command (junk env) (git env) a)) else
      bindE (starts ''help'' 4) (\<lambda>b. if b then args 4 (\<lambda>a. kernel (help_command a)) else
      bindE (starts ''clock'' 5) (\<lambda>b.
        if b then args 5 (\<lambda>a. kernel (on_io (clock_command (junk env) a))) else
      bindE (starts ''show'' 4) (\<lambda>b. if b then args 4 (\<lambda>a. kernel (show_command (junk env) a)) else
      bindE (starts ''priority set'' 12) (\<lambda>b. if b then args 12 (\<lambda>a. kernel (set_priority_command a)) else
      bindE (starts ''suspend'' 7) (\<lambda>b. if b then args 7 (\<lambda>a. kernel (suspend_command a)) else
      bindE (starts ''resume'' 6) (\<lambda>b. if b then args 6 (\<lambda>a. kernel (resume_command a)) else
      bindE (starts ''create'' 6) (\<lambda>b. if b then kernel (say (lit no_longer_usable_text)) else
      bindE (starts ''delete'' 6) (\<lambda>b. if b then args 6 (\<lambda>a. kernel (delete_pcb_command a)) else
      bindE (starts ''block'' 5) (\<lambda>b. if b then args 5 (\<lambda>a. kernel (block_pcb_command a)) else
      bindE (starts ''unblock'' 7) (\<lambda>b. if b then args 7 (\<lambda>a. kernel (unblock_pcb_command a)) else
      bindE (peek buf 0) (\<lambda>ch. if ch = NUL then kernel (kwrite (lit [CR]) 2) else
      bindE (starts ''clear'' 5) (\<lambda>b.
        if b then kernel (\<lambda>k. bindE (kwrite (lit (ESC # ''[2J'' @ ESC # ''[H'')) 7 k)
                                  (com_startup (junk env) (git env))) else
      bindE (starts ''yield'' 5) (\<lambda>b. if b then kernel (say (lit no_longer_usable_text)) else
      bindE (starts ''load'' 4) (\<lambda>b. if b then args 4 (\<lambda>a. kernel (load_command (proc_entry env) a)) else
      bindE (starts ''alarm'' 5) (\<lambda>b.
        if b then args 5 (\<lambda>a. go_on (alarm_command (junk env) (alarm_entry env) a s)) else
      kernel (\<lambda>k. bindE (say (lit invalid_command_text) k) help_message))))))))))))))))))))"

section \<open>The handler\<close>

definition comhand_turn :: "env \<Rightarrow> (system \<Rightarrow> system c) \<Rightarrow> system \<Rightarrow> system after c" where
  "comhand_turn env idle s =
     bindE (read_command s) (\<lambda>(buf, s). bindE (idle s) (run_command env buf))"

partial_function (option) comhand_loop ::
    "env \<Rightarrow> (system \<Rightarrow> system c) \<Rightarrow> system \<Rightarrow> system after c option" where
  "comhand_loop env idle s =
     (case comhand_turn env idle s of
        Inl e \<Rightarrow> Some (Inl e)
      | Inr r \<Rightarrow> (case r of Go_On s \<Rightarrow> comhand_loop env idle s | _ \<Rightarrow> Some (Inr r)))"

definition correct_clock :: "kernel \<Rightarrow> kernel" where
  "correct_clock k = k\<lparr>kio := (kio k)\<lparr>devices := tz_correction (devices (kio k))\<rparr>\<rparr>"

definition comhand :: "env \<Rightarrow> (system \<Rightarrow> system c) \<Rightarrow> system \<Rightarrow> system after c" where
  "comhand env idle s =
     bindE (on_kern (com_startup (junk env) (git env)) s) (\<lambda>s.
     loop_result (comhand_loop env idle (s\<lparr>kern := correct_clock (kern s)\<rparr>)))"

section \<open>The table of the commands\<close>

text \<open>
  The same dispatch as a table: the words in the order in which the code compares them, and
  the command of each. The first word the line starts with is taken.
\<close>

definition words :: "string list" where
  "words = [''exit'', ''shutdown'', ''version'', ''help'', ''clock'', ''show'', ''priority set'',
     ''suspend'', ''resume'', ''create'', ''delete'', ''block'', ''unblock'', ''clear'', ''yield'',
     ''load'', ''alarm'']"

definition command_word :: "string \<Rightarrow> string option" where
  "command_word str = find (\<lambda>w. take (length w) str = w) words"

definition handler :: "env \<Rightarrow> string \<Rightarrow> cptr \<Rightarrow> system \<Rightarrow> system after c" where
  "handler env w a s =
     (if w = ''exit'' then leave_if Exit_Request a s
      else if w = ''shutdown'' then leave_if Return a s
      else if w = ''alarm'' then go_on (alarm_command (junk env) (alarm_entry env) a s)
      else go_on (on_kern (
        if w = ''version'' then version_command (junk env) (git env) a
        else if w = ''help'' then help_command a
        else if w = ''clock'' then on_io (clock_command (junk env) a)
        else if w = ''show'' then show_command (junk env) a
        else if w = ''priority set'' then set_priority_command a
        else if w = ''suspend'' then suspend_command a
        else if w = ''resume'' then resume_command a
        else if w = ''delete'' then delete_pcb_command a
        else if w = ''block'' then block_pcb_command a
        else if w = ''unblock'' then unblock_pcb_command a
        else if w = ''clear'' then (\<lambda>k. bindE (kwrite (lit (ESC # ''[2J'' @ ESC # ''[H'')) 7 k)
          (com_startup (junk env) (git env)))
        else if w = ''load'' then load_command (proc_entry env) a
        else say (lit no_longer_usable_text)) s))"

definition arguments :: "nat \<Rightarrow> cbuf \<Rightarrow> cbuf" where
  "arguments n buf = dropWhile (\<lambda>ch. ch = CHR '' '') (drop n buf)"

lemma skip_blanks_spec:
  "terminated b \<Longrightarrow> skip_blanks b = Inr (dropWhile (\<lambda>ch. ch = CHR '' '') b) \<and>
    terminated (dropWhile (\<lambda>ch. ch = CHR '' '') b)"
  by (induction b) auto

lemma terminated_drop: "terminated b \<Longrightarrow> n \<le> length (text_of b) \<Longrightarrow> terminated (drop n b)"
proof (induction b arbitrary: n)
  case (Cons ch b)
  then show ?case by (cases n) (auto split: if_splits)
qed simp

lemma with_args_spec:
  assumes "terminated buf" and "take (length w) (text_of buf) = w"
  shows "with_args buf (length w) f = f (Some (arguments (length w) buf))"
    and "terminated (arguments (length w) buf)"
proof -
  have "length w \<le> length (text_of buf)" using assms(2) by (metis length_take min.cobounded1)
  then show "with_args buf (length w) f = f (Some (arguments (length w) buf))" "terminated (arguments (length w) buf)"
    using skip_blanks_spec[OF terminated_drop[OF assms(1)]] by (simp_all add: with_args_def arguments_def)
qed

lemma text_of_arguments:
  assumes "terminated buf" and "take (length w) (text_of buf) = w"
  shows "text_of (arguments (length w) buf) =
    dropWhile (\<lambda>ch. ch = CHR '' '') (drop (length w) (text_of buf))"
proof -
  obtain r where r: "buf = text_of buf @ NUL # r" using terminated_split[OF assms(1)] by blast
  have n: "length w \<le> length (text_of buf)" using assms(2) by (metis length_take min.cobounded1)
  let ?t = "drop (length w) (text_of buf)"
  have "drop (length w) buf = ?t @ NUL # r" using r n by (metis drop_append diff_is_0_eq drop0)
  moreover have "dropWhile (\<lambda>ch. ch = CHR '' '') (t @ NUL # r) =
      dropWhile (\<lambda>ch. ch = CHR '' '') t @ NUL # r" for t
    by (induction t) auto
  moreover have "NUL \<notin> set (dropWhile (\<lambda>ch. ch = CHR '' '') ?t)"
    using NUL_notin_text_of[of buf] by (meson in_set_dropD set_dropWhileD)
  ultimately show ?thesis by (simp add: arguments_def text_of_append_NUL)
qed

lemma handler_simps:
  "handler env ''exit'' a s = leave_if Exit_Request a s"
  "handler env ''shutdown'' a s = leave_if Return a s"
  "handler env ''version'' a s = go_on (on_kern (version_command (junk env) (git env) a) s)"
  "handler env ''help'' a s = go_on (on_kern (help_command a) s)"
  "handler env ''clock'' a s = go_on (on_kern (on_io (clock_command (junk env) a)) s)"
  "handler env ''show'' a s = go_on (on_kern (show_command (junk env) a) s)"
  "handler env ''priority set'' a s = go_on (on_kern (set_priority_command a) s)"
  "handler env ''suspend'' a s = go_on (on_kern (suspend_command a) s)"
  "handler env ''resume'' a s = go_on (on_kern (resume_command a) s)"
  "handler env ''create'' a s = go_on (on_kern (say (lit no_longer_usable_text)) s)"
  "handler env ''delete'' a s = go_on (on_kern (delete_pcb_command a) s)"
  "handler env ''block'' a s = go_on (on_kern (block_pcb_command a) s)"
  "handler env ''unblock'' a s = go_on (on_kern (unblock_pcb_command a) s)"
  "handler env ''clear'' a s = go_on (on_kern (\<lambda>k. bindE (kwrite (lit (ESC # ''[2J'' @ ESC # ''[H'')) 7 k)
     (com_startup (junk env) (git env))) s)"
  "handler env ''yield'' a s = go_on (on_kern (say (lit no_longer_usable_text)) s)"
  "handler env ''load'' a s = go_on (on_kern (load_command (proc_entry env) a) s)"
  "handler env ''alarm'' a s = go_on (alarm_command (junk env) (alarm_entry env) a s)"
  by (simp_all add: handler_def)

text \<open>One comparison of the code, with what is left of the chain.\<close>

lemma compare_word:
  assumes "terminated buf" and "NUL \<notin> set w" and "length w = n"
    and "take n (text_of buf) = w \<Longrightarrow> m = handler env w (Some (arguments n buf)) s"
    and "take n (text_of buf) \<noteq> w \<Longrightarrow> m' = (case find (\<lambda>w. take (length w) (text_of buf) = w) ws of
      Some w \<Rightarrow> handler env w (Some (arguments (length w) buf)) s | None \<Rightarrow> d)"
  shows "bindE (args_start (Some buf) w n) (\<lambda>b. if b then m else m') =
    (case find (\<lambda>w. take (length w) (text_of buf) = w) (w # ws) of
      Some w \<Rightarrow> handler env w (Some (arguments (length w) buf)) s | None \<Rightarrow> d)"
  using assms args_start_text[OF assms(1,2), of n] by auto

definition run_table :: "env \<Rightarrow> cbuf \<Rightarrow> system \<Rightarrow> system after c" where
  "run_table env buf s =
    (case command_word (text_of buf) of
       Some w \<Rightarrow> handler env w (Some (arguments (length w) buf)) s
     | None \<Rightarrow> go_on (on_kern (if text_of buf = [] then kwrite (lit [CR]) 2
         else (\<lambda>k. bindE (say (lit invalid_command_text) k) help_message)) s))"

lemma run_command_is_table:
  assumes t: "terminated buf"
  shows "run_command env buf s = run_table env buf s"
proof -
  have wa: "with_args buf n f = f (Some (arguments n buf))" if "take n (text_of buf) = w" "length w = n" for w n f
    using with_args_spec(1)[OF t, of w] that by simp
  have pk: "peek buf 0 = Inr (hd buf)" "hd buf = NUL \<longleftrightarrow> text_of buf = []"
    using t by (cases buf; simp add: peek_def)+
  show ?thesis
  proof (cases "text_of buf = []")
    case True
    then have "args_start (Some buf) w n = Inr False" if "take n w \<noteq> []" "NUL \<notin> set w" for w n
      using args_start_text[OF t that(2), of n] that by simp
    then show ?thesis using True pk by (simp add: run_command_def run_table_def command_word_def words_def)
  next
    case False
    then have skip: "bindE (peek buf 0) (\<lambda>ch. if ch = NUL then A else B) = B" for A B :: "system after c"
      using pk by simp
    show ?thesis
      unfolding run_command_def run_table_def Let_def command_word_def words_def skip
      by (intro compare_word[OF t]) (simp_all add: wa handler_simps False)
  qed
qed

section \<open>A line that is read\<close>

lemma edited_no_line_end:
  "set l \<inter> {CR, LF} = {} \<Longrightarrow> \<forall>c\<in>set cs. ordinary c \<Longrightarrow> set (foldl edit l cs) \<inter> {CR, LF} = {}"
proof (induction cs arbitrary: l)
  case (Cons c cs)
  then have "set (edit l c) \<inter> {CR, LF} = {}"
    by (auto simp: edit_def ordinary_def dest: in_set_butlastD)
  then show ?case using Cons by simp
qed simp

lemma rstrip_no_line_end: "set l \<inter> {CR, LF} = {} \<Longrightarrow> rstrip l = l"
  by (cases l rule: rev_cases) (auto simp: rstrip_def line_end_def)

text \<open>The state after the line \<open>cs\<close>, ended by \<open>ch\<close>, is read and the cursor is on a new line.\<close>

definition line_read :: "string \<Rightarrow> char \<Rightarrow> char stream \<Rightarrow> system \<Rightarrow> system" where
  "line_read cs ch r s = s\<lparr>kern := (kern s)\<lparr>kio := set_line COM1
     (sent COM1 (kio (kern s)) @ prompt @ echoes [] cs @ [ch, CR, LF]) r (kio (kern s))\<rparr>\<rparr>"

lemma read_command_line:
  assumes "online COM1 (kio (kern s))" and "pending COM1 (kio (kern s)) = cs @- ch ## r"
    and "ch = CR \<or> ch = LF" and "\<forall>c\<in>set cs. ordinary c" and "fits 99 [] cs"
  shows "\<exists>buf. terminated buf \<and> length buf = 100 \<and> text_of buf = foldl edit [] cs \<and>
    read_command s = Inr (buf, line_read cs ch r s)"
proof -
  let ?l = "foldl edit [] cs"
  let ?io = "kio (kern s)"
  let ?io1 = "set_line COM1 (sent COM1 ?io @ prompt) (pending COM1 ?io) ?io"
  let ?io2 = "set_line COM1 (sent COM1 ?io @ prompt @ echoes [] cs @ [ch]) r ?io"
  obtain b where b: "poll_loop COM1 100 (polling (replicate 100 NUL) 0 ?io1) =
      Some (Inr (int (length ?l), polling b (length ?l) ?io2))"
    "length b = 100" "take (length ?l + 1) b = ?l @ [NUL]"
    using poll_loop_line[of COM1 ?io1 cs ch r 100 "[]" "replicate 100 NUL"] assms by auto
  have t: "terminated b" "text_of b = ?l"
    using text_of_take[OF b(3)] by (simp_all add: NUL_notin_edited)
  have at: "length ?l < length b" using length_text_of[OF t(1)] t(2) by simp
  have "b ! length ?l = NUL" using b(3) at by (metis nth_append_length nth_take less_add_one)
  then have keep: "b[length ?l := NUL] = b" by (metis list_update_id)
  have strip: "rstrip ?l = ?l" using edited_no_line_end[of "[]" cs] assms(4) by (intro rstrip_no_line_end) auto
  obtain b' where b': "trim_Input b = Inr b'" "length b' = 100" "terminated b'" "text_of b' = ?l"
    using trim_Input_spec[OF t(1)] b(2) t(2) strip by auto
  have "read_command s = Inr (b', line_read cs ch r s)"
    using assms(1) b(1) b'(1) at keep
    by (simp add: read_command_def sys_req_READ_def serial_poll_prompt polling_def put_at_def
        on_kern_def kwrite_def sys_req_WRITE_online lit_def line_read_def Let_def)
  then show ?thesis using b'(2-4) by blast
qed

lemma read_command_full:
  assumes "online COM1 (kio (kern s))" and "pending COM1 (kio (kern s)) = cs @- c ## r"
    and "\<forall>c'\<in>set (cs @ [c]). ordinary c'" and "fits 99 [] cs" and "length (foldl edit [] (cs @ [c])) = 99"
  shows "read_command s = Inl OutOfBounds"
proof -
  let ?io = "set_line COM1 (sent COM1 (kio (kern s)) @ prompt) (pending COM1 (kio (kern s))) (kio (kern s))"
  obtain p where "poll_loop COM1 100 (polling (replicate 100 NUL) 0 ?io) = Some (Inr (-1, p))"
    using poll_loop_full[of COM1 ?io cs c r 100 "[]" "replicate 100 NUL"] assms by auto
  then show ?thesis using assms(1)
    by (simp add: read_command_def sys_req_READ_def serial_poll_prompt put_at_def Let_def)
qed

section \<open>Properties\<close>

text \<open>Property C34. The chain of comparisons is a table: of the command words, in the order of
  the code, the first one the line starts with decides (so \<open>showready\<close> is \<open>show\<close>, and
  \<open>blocked\<close> is \<open>block\<close>), and its command gets the rest of the line without the blanks
  before it; an empty line sends a carriage return and every other line the message and the
  help.\<close>

theorem run_command_table:
  assumes "terminated buf"
  shows "run_command env buf s = run_table env buf s"
  by (rule run_command_is_table[OF assms])

text \<open>Property C35. One turn of the command handler for a line of less than 99 characters that
  the user edits and ends by CR or LF: the line is prompted for and echoed, the other
  processes run, and then the command of the edited line runs.\<close>

theorem comhand_turn_runs_line:
  assumes "online COM1 (kio (kern s))" and "pending COM1 (kio (kern s)) = cs @- ch ## r"
    and "ch = CR \<or> ch = LF" and "\<forall>c\<in>set cs. ordinary c" and "fits 99 [] cs"
  shows "\<exists>buf. terminated buf \<and> length buf = 100 \<and> text_of buf = foldl edit [] cs \<and>
    comhand_turn env idle s = bindE (idle (line_read cs ch r s)) (run_table env buf)"
proof -
  obtain buf where "terminated buf" "length buf = 100" "text_of buf = foldl edit [] cs"
    "read_command s = Inr (buf, line_read cs ch r s)"
    using read_command_line[OF assms] by blast
  moreover from this have "run_command env buf = run_table env buf"
    using run_command_is_table by blast
  ultimately show ?thesis by (auto simp: comhand_turn_def)
qed

text \<open>The 99th character of a line makes \<open>serial_poll\<close> give up with -1, which
  the command handler uses as an index: it writes in front of its buffer.\<close>

theorem comhand_long_line:
  assumes "online COM1 (kio (kern s))" and "pending COM1 (kio (kern s)) = cs @- c ## r"
    and "\<forall>c'\<in>set (cs @ [c]). ordinary c'" and "fits 99 [] cs" and "length (foldl edit [] (cs @ [c])) = 99"
  shows "comhand_loop env idle s = Some (Inl OutOfBounds)"
  using read_command_full[OF assms] by (subst comhand_loop.simps) (simp add: comhand_turn_def)

text \<open>Property C36. The ways out of the command handler: the line \<open>exit force\<close> ends it with the
  request EXIT, and \<open>shutdown force\<close> makes it return.\<close>

theorem comhand_leaves:
  assumes "online COM1 (kio (kern s))" and "pending COM1 (kio (kern s)) = cs @- ch ## r"
    and "ch = CR \<or> ch = LF" and "\<forall>c\<in>set cs. ordinary c" and "fits 99 [] cs"
    and "idle (line_read cs ch r s) = Inr s'"
    and "foldl edit [] cs = w @ replicate n (CHR '' '') @ ''force''" and "w \<in> {''exit'', ''shutdown''}"
  shows "comhand_loop env idle s =
    Some (Inr (if w = ''exit'' then Exit_Request s' else Return s'))"
proof -
  obtain buf where buf: "terminated buf" "text_of buf = foldl edit [] cs"
    "read_command s = Inr (buf, line_read cs ch r s)"
    using read_command_line[OF assms(1-5)] by blast
  obtain v where v: "text_of buf = w @ v" "v = replicate n (CHR '' '') @ ''force''" using assms(7) buf(2) by simp
  have "command_word (''exit'' @ v) = Some ''exit''" "command_word (''shutdown'' @ v) = Some ''shutdown''"
    by (simp_all add: command_word_def words_def)
  then have word: "command_word (text_of buf) = Some w" and pre: "take (length w) (text_of buf) = w"
    using assms(8) v(1) by auto
  have "text_of (arguments (length w) buf) = ''force''"
    unfolding text_of_arguments[OF buf(1) pre] v by (simp add: dropWhile_append3)
  then have "exit_command (Some (arguments (length w) buf)) k = Inr (1, k)" for k
    using with_args_spec(2)[OF buf(1) pre] by (simp add: exit_command_def args_text)
  then have "run_table env buf s' = Inr (if w = ''exit'' then Exit_Request s' else Return s')"
    using assms(8) word by (auto simp: run_table_def handler_simps leave_if_def)
  then show ?thesis using buf assms(6,8)
    by (subst comhand_loop.simps) (auto simp: comhand_turn_def run_command_is_table)
qed

end
