(* ===== verification/Example.thy ===== *)
theory Example
  imports Traps Comhand
begin

text \<open>
  A concrete kernel, for the instances of the properties: five processes allocated one
  behind the other from the start of the heap. The first runs, the second and third are
  ready, the fourth is blocked and the fifth suspended and ready; the priorities of the first
  three are arguments. \<open>demo_alone\<close> has the first process only.
\<close>

definition demo_uart :: uart where
  "demo_uart = \<lparr>dll = 12, dlm = 0, ier = 0, fcr = 0xC7, lcr = 3, mcr = 0x0B, tx = [], rx = sconst NUL\<rparr>"

definition demo_io :: io where
  "demo_io = \<lparr>initialized = (\<lambda>_. 1), devices = \<lparr>uarts = (\<lambda>_. demo_uart), cmos_index = 0,
     cmos = (\<lambda>_. 0), interrupts_on = True, port_log = []\<rparr>\<rparr>"

definition demo_vm :: "u32 \<Rightarrow> vm" where
  "demo_vm a = \<lparr>frames = [], kdir = 0, dir_tables = [], dir_tables_phys = [],
     page_tables = (\<lambda>_ _. zero_page), phys_alloc_addr = 0, heap_addr = a,
     heap_is_initialized = True, paging = True\<rparr>"

abbreviation (input) a1 :: addr where "a1 \<equiv> 0xD000000"
abbreviation (input) a2 :: addr where "a2 \<equiv> 0xD000434"
abbreviation (input) a3 :: addr where "a3 \<equiv> 0xD000868"
abbreviation (input) a4 :: addr where "a4 \<equiv> 0xD000C9C"
abbreviation (input) a5 :: addr where "a5 \<equiv> 0xD0010D0"
abbreviation (input) sys_frame :: addr where "sys_frame \<equiv> 0x200000"

definition demo_pcbs :: "int \<Rightarrow> int \<Rightarrow> int \<Rightarrow> addr \<Rightarrow> pcb option" where
  "demo_pcbs x y z = [
     a1 \<mapsto> setup_pcb ''run'' CLASS_USER x a1,
     a2 \<mapsto> (setup_pcb ''one'' CLASS_USER y a2)\<lparr>pnext := a3\<rparr>,
     a3 \<mapsto> (setup_pcb ''two'' CLASS_USER z a3)\<lparr>pprev := a2\<rparr>,
     a4 \<mapsto> (setup_pcb ''blk'' CLASS_USER 1 a4)\<lparr>execution_state := STATE_BLOCKED\<rparr>,
     a5 \<mapsto> (setup_pcb ''sus'' CLASS_USER 1 a5)\<lparr>dispatch_state := DISPATCH_SUSPENDED\<rparr>]"

definition demo_queues :: "qid \<Rightarrow> pcb_queue" where
  "demo_queues q = (case q of
     ReadyQ \<Rightarrow> \<lparr>head = a2, tail = a3\<rparr> | BlockedQ \<Rightarrow> \<lparr>head = a4, tail = a4\<rparr>
   | SuspReadyQ \<Rightarrow> \<lparr>head = a5, tail = a5\<rparr> | SuspBlockedQ \<Rightarrow> \<lparr>head = NULL, tail = NULL\<rparr>)"

definition demo_lists :: "qid \<Rightarrow> addr list" where
  "demo_lists q = (case q of
     ReadyQ \<Rightarrow> [a2, a3] | BlockedQ \<Rightarrow> [a4] | SuspReadyQ \<Rightarrow> [a5] | SuspBlockedQ \<Rightarrow> [])"

definition demo_frames :: "addr \<Rightarrow> cpu_context option" where
  "demo_frames b =
     (if b \<in> {frame_of a1, frame_of a2, frame_of a3, frame_of a4, frame_of a5, sys_frame}
      then Some zero_context else None)"

definition demo_pq :: "int \<Rightarrow> int \<Rightarrow> int \<Rightarrow> pcb_state" where
  "demo_pq x y z = \<lparr>pcbs = demo_pcbs x y z, queues = demo_queues\<rparr>"

definition demo :: "int \<Rightarrow> int \<Rightarrow> int \<Rightarrow> kernel" where
  "demo x y z = \<lparr>pcbq = demo_pq x y z, contexts = demo_frames, curProc = a1,
     sysStackPtr = sys_frame, kvm = demo_vm 0xD001504, kio = demo_io\<rparr>"

definition demo_alone :: kernel where
  "demo_alone = \<lparr>pcbq = \<lparr>pcbs = [a1 \<mapsto> setup_pcb ''run'' CLASS_USER 1 a1],
       queues = (\<lambda>_. \<lparr>head = NULL, tail = NULL\<rparr>)\<rparr>,
     contexts = demo_frames, curProc = a1, sysStackPtr = sys_frame, kvm = demo_vm 0xD000434, kio = demo_io\<rparr>"

section \<open>It satisfies the invariants\<close>

lemma setup_pcb_sel [simp]:
  "pname (setup_pcb s c q a) = s @ replicate (16 - length s) NUL" "process_class (setup_pcb s c q a) = c"
  "priority (setup_pcb s c q a) = q" "execution_state (setup_pcb s c q a) = STATE_READY"
  "dispatch_state (setup_pcb s c q a) = DISPATCH_ACTIVE" "contextPtr (setup_pcb s c q a) = frame_of a"
  by (simp_all add: setup_pcb_def fresh_pcb_def zero_pcb_def)

lemma demo_sel [simp]:
  "pcbq (demo x y z) = demo_pq x y z" "contexts (demo x y z) = demo_frames" "curProc (demo x y z) = a1"
  "sysStackPtr (demo x y z) = sys_frame" "kvm (demo x y z) = demo_vm 0xD001504" "kio (demo x y z) = demo_io"
  "pcbs (demo_pq x y z) = demo_pcbs x y z" "queues (demo_pq x y z) = demo_queues"
  by (simp_all add: demo_def demo_pq_def)

lemma online_demo [simp]: "online dev demo_io \<longleftrightarrow> serial_devno dev \<noteq> -1"
  by (simp add: online_def demo_io_def demo_uart_def dlab_def)

lemma queued_demo: "queued demo_lists b \<longleftrightarrow> b \<in> {a2, a3, a4, a5}"
proof -
  have "(\<exists>q. b \<in> set (demo_lists q)) \<longleftrightarrow>
      (\<exists>q\<in>{ReadyQ, BlockedQ, SuspReadyQ, SuspBlockedQ}. b \<in> set (demo_lists q))"
    by (metis insertCI qid.exhaust)
  then show ?thesis by (auto simp: queued_def demo_lists_def)
qed

lemma demo_pcbs_cases:
  "demo_pcbs x y z b = Some p \<Longrightarrow> b = a1 \<or> b = a2 \<or> b = a3 \<or> b = a4 \<or> b = a5"
  by (auto simp: demo_pcbs_def split: if_splits)

lemma rep_demo: "y \<le> z \<Longrightarrow> rep (demo_pq x y z) demo_lists"
proof -
  assume yz: "y \<le> z"
  have "queue_rep (demo_pcbs x y z) (demo_queues q) (demo_lists q)" for q
    by (cases q) (simp_all add: queue_rep_def demo_queues_def demo_lists_def demo_pcbs_def)
  moreover have "in_home_queue (demo_pq x y z) demo_lists"
    unfolding in_home_queue_def
  proof (intro allI ballI)
    fix q b assume "b \<in> set (demo_lists q)"
    then show "map_option select_queue (pcbs (demo_pq x y z) b) = Some q"
      by (cases q) (auto simp: demo_lists_def demo_pcbs_def select_queue_def)
  qed
  moreover have "sorted (map (prio_of (demo_pq x y z)) (demo_lists ReadyQ))"
    using yz by (simp add: demo_lists_def prio_of_def demo_pcbs_def)
  moreover have "detached_unlinked (demo_pq x y z) demo_lists"
    unfolding detached_unlinked_def queued_demo
    by (auto simp: demo_pcbs_def split: if_splits)
  ultimately show ?thesis by (simp add: rep_def demo_pcbs_def)
qed

lemma wf_run_demo:
  assumes "y \<le> z" and "{x, y, z} \<subseteq> {0..9}"
  shows "wf_run (demo x y z) demo_lists"
proof -
  have "wf_pcb (demo x y z) b p" if "demo_pcbs x y z b = Some p" for b p
    using demo_pcbs_cases[OF that] that assms(2)
    by (auto simp: wf_pcb_def demo_pcbs_def demo_vm_def)
  moreover have "frames_ok (demo x y z) demo_lists"
    unfolding frames_ok_def queued_demo
    by (auto simp: demo_pcbs_def live_def demo_frames_def frame_of_def)
  moreover have "heap_wf (demo_vm 0xD001504)" by (simp add: heap_wf_def demo_vm_def)
  ultimately have "wf (demo x y z) demo_lists"
    using rep_demo[OF assms(1)] by (simp add: wf_def serial_devno_def)
  moreover have "running_ok (demo x y z) demo_lists"
    unfolding running_ok_def queued_demo
    by (simp add: home_of_def demo_pcbs_def select_queue_def demo_frames_def)
  ultimately show ?thesis by (simp add: wf_run_def)
qed

lemma isolated_demo: "isolated (demo x y z)"
proof -
  have "0xD000000 \<le> unat b \<and> unat b + 1076 \<le> 0xD010000 \<and> frame_in b (contextPtr p)"
    if "demo_pcbs x y z b = Some p" for b p
    using demo_pcbs_cases[OF that] that by (auto simp: demo_pcbs_def frame_in_def frame_of_def)
  moreover have "unat b + 1076 \<le> unat b' \<or> unat b' + 1076 \<le> unat b"
    if "demo_pcbs x y z b \<noteq> None" "demo_pcbs x y z b' \<noteq> None" "b \<noteq> b'" for b b'
  proof -
    have "b \<in> {a1, a2, a3, a4, a5}" "b' \<in> {a1, a2, a3, a4, a5}"
      using that(1,2) demo_pcbs_cases[of x y z] by blast+
    then show ?thesis using that(3) by auto
  qed
  ultimately show ?thesis by (simp add: isolated_def system_frame_def)
qed

lemma wf_run_alone: "wf_run demo_alone (\<lambda>_. [])" and isolated_alone: "isolated demo_alone"
  by (auto simp: wf_run_def wf_def rep_def queue_rep_def in_home_queue_def detached_unlinked_def
      frames_ok_def queued_def demo_alone_def wf_pcb_def heap_wf_def demo_vm_def running_ok_def
      home_of_def select_queue_def demo_frames_def serial_devno_def
      isolated_def frame_in_def frame_of_def system_frame_def split: if_splits)

section \<open>Names, priorities and requests\<close>

definition demo_regs :: "u32 \<Rightarrow> cpu_context" where
  "demo_regs op = zero_context\<lparr>reg_esp := 0xD000434, reg_eax := op\<rparr>"

lemma demo_regs_sel [simp]: "reg_eax (demo_regs op) = op" "reg_esp (demo_regs op) = 0xD000434"
  by (simp_all add: demo_regs_def)

lemma own_stack_demo: "own_stack (demo x y z) (demo_regs op)" and own_stack_alone: "own_stack demo_alone (demo_regs op)"
  by (simp_all add: own_stack_def frame_in_def demo_alone_def)

lemma running_demo [simp]: "running (demo x y z) = Some a1"
  by (simp add: running_def)

lemma prio_demo [simp]:
  "prio (demo x y z) a1 = x" "prio (demo x y z) a2 = y" "prio (demo x y z) a3 = z"
  by (simp_all add: prio_def prio_of_def demo_pcbs_def)

lemma demo_lists_sel [simp]:
  "demo_lists ReadyQ = [a2, a3]" "demo_lists BlockedQ = [a4]" "demo_lists SuspReadyQ = [a5]"
  "demo_lists SuspBlockedQ = []"
  by (simp_all add: demo_lists_def)

lemma schedules_demo:
  "y \<le> z \<Longrightarrow> {x, y, z} \<subseteq> {0..9} \<Longrightarrow> schedules (demo x y z) (Some a1) [a2, a3] (prio (demo x y z))"
  using wf_run_demo isolated_demo unfolding schedules_def by fastforce

lemma text_of_replicate [simp]: "text_of (replicate n NUL) = []"
  by (cases n) simp_all

lemma name_of_demo:
  "name_of (demo_pq x y z) a2 = ''one''" "name_of (demo_pq x y z) a3 = ''two''"
  "name_of (demo_pq x y z) a4 = ''blk''" "name_of (demo_pq x y z) a5 = ''sus''"
  by (simp_all add: name_of_def demo_pcbs_def)

text \<open>The PCBs of the queued processes.\<close>

definition one :: pcb where "one = (setup_pcb ''one'' CLASS_USER 1 a2)\<lparr>pnext := a3\<rparr>"
definition blk :: pcb where
  "blk = (setup_pcb ''blk'' CLASS_USER 1 a4)\<lparr>execution_state := STATE_BLOCKED\<rparr>"
definition sus :: pcb where
  "sus = (setup_pcb ''sus'' CLASS_USER 1 a5)\<lparr>dispatch_state := DISPATCH_SUSPENDED\<rparr>"

lemma named_demo:
  "process_named (demo 1 1 1) demo_lists (lit ''one'') ReadyQ a2 one"
  "process_named (demo 1 1 1) demo_lists (lit ''blk'') BlockedQ a4 blk"
  "process_named (demo 1 1 1) demo_lists (lit ''sus'') SuspReadyQ a5 sus"
proof -
  have wf: "wf (demo 1 1 1) demo_lists" using wf_run_demo[of 1 1 1] by (simp add: wf_run_def)
  show "process_named (demo 1 1 1) demo_lists (lit ''one'') ReadyQ a2 one"
    "process_named (demo 1 1 1) demo_lists (lit ''blk'') BlockedQ a4 blk"
    "process_named (demo 1 1 1) demo_lists (lit ''sus'') SuspReadyQ a5 sus"
    using wf by (auto simp: process_named_def queued_demo name_of_demo demo_pcbs_def one_def blk_def sus_def)
qed

end
