(* ===== verification/ClockCommand.thy ===== *)
theory ClockCommand
  imports Clock
begin

text \<open>
  The command \<open>clock\<close> (\<^verbatim>\<open>user/clock.c\<close>) as the user sees it: what \<open>clock get\<close> prints after
  \<open>clock set\<close>.
\<close>

section \<open>Two digits\<close>

lemma digit_zero: "digit_char 0 = CHR ''0''"
  by code_simp

lemma two_of_nat:
  assumes "n < 100"
  shows "two (of_nat n) = tens_ones n"
proof -
  have u: "unat (of_nat n :: u8) = n" using assms by (simp add: unat_of_nat)
  then have i: "uint (of_nat n :: u8) = int n" by (metis uint_nat)
  show ?thesis
  proof (cases "n < 10")
    case True
    then have "(of_nat n :: u8) < 10" by (simp add: word_less_nat_alt u)
    then show ?thesis using show_int_small[of "int n"] True
      by (simp add: two_def i tens_ones_def digit_zero)
  next
    case False
    then have "\<not> (of_nat n :: u8) < 10" by (simp add: word_less_nat_alt u)
    moreover have "show_int (int n) = tens_ones n" using False assms
      by (simp add: show_int_def show_nat_def dec.simps tens_ones_def)
    ultimately show ?thesis by (simp add: two_def i)
  qed
qed

lemma clock_text_two:
  "a < 100 \<Longrightarrow> b < 100 \<Longrightarrow> c' < 100 \<Longrightarrow>
   clock_text a x b y c' = two (of_nat a) @ x # two (of_nat b) @ y # two (of_nat c')"
  by (simp add: clock_text_def two_of_nat)

section \<open>The commands\<close>

lemma clock_get_time_command:
  assumes "online COM1 s"
  shows "\<exists>s'. clock_command junk (Some (lit ''get time'')) s = Inr s' \<and> sent COM1 s' = sent COM1 s @ [CR, LF] @ ''Time: '' @
      two (hour (clock_time (devices s))) @ '':'' @ two (minute (clock_time (devices s))) @ '':'' @
      two (second (clock_time (devices s))) @ [CR, LF, LF] \<and>
    clock_time (devices s') = clock_time (devices s) \<and> clock_date (devices s') = clock_date (devices s)"
proof -
  let ?s = "s\<lparr>devices := (devices s)\<lparr>cmos_index := 4\<rparr>\<rparr>"
  have "online COM1 ?s" "sent COM1 ?s = sent COM1 s" using assms by (simp_all add: online_def sent_def)
  moreover have "clock_command junk (Some (lit ''get time'')) s = print_time junk (clock_time (devices s)) ?s"
    by (simp add: clock_command_def lit_def peek_def on_hw_def get_time_eq)
  ultimately show ?thesis
    by (simp add: print_time_text set_line_def clock_time_def clock_date_def bcd_clock_def sent_def)
qed

lemma clock_get_date_command:
  assumes "online COM1 s"
  shows "\<exists>s'. clock_command junk (Some (lit ''get date'')) s = Inr s' \<and> sent COM1 s' = sent COM1 s @ [CR, LF] @ ''Date: '' @
      two (month (clock_date (devices s))) @ ''/'' @ two (day (clock_date (devices s))) @ ''/'' @
      two (year (clock_date (devices s))) @ [CR, LF, LF] \<and>
    clock_time (devices s') = clock_time (devices s) \<and> clock_date (devices s') = clock_date (devices s)"
proof -
  let ?s = "s\<lparr>devices := (devices s)\<lparr>cmos_index := 9\<rparr>\<rparr>"
  have "online COM1 ?s" "sent COM1 ?s = sent COM1 s" using assms by (simp_all add: online_def sent_def)
  moreover have "clock_command junk (Some (lit ''get date'')) s = print_date junk (clock_date (devices s)) ?s"
    by (simp add: clock_command_def lit_def peek_def on_hw_def get_date_eq)
  ultimately show ?thesis
    by (simp add: print_date_text set_line_def clock_time_def clock_date_def bcd_clock_def sent_def)
qed

lemma clock_set_date_command:
  assumes "online COM1 s" and "mo < 100" and "d < 100" and "y < 100"
  shows "clock_command junk (Some (lit (''set date '' @ clock_text mo (CHR ''/'') d (CHR ''/'') y))) s =
    (if 1 \<le> d \<and> d \<le> 31 \<and> 1 \<le> mo \<and> mo \<le> 12
     then Inr (s\<lparr>devices := set_date \<lparr>day = of_nat d, month = of_nat mo, year = of_nat y\<rparr> (devices s)\<rparr>)
     else Inr (set_line COM1 (sent COM1 s @ ESC # ''[31mInvalid date values.'' @ ESC # ''[0m'' @ [CR, LF] @
       clock_help_text) (pending COM1 s) s))"
proof -
  let ?a = "lit (clock_text mo (CHR ''/'') d (CHR ''/'') y)"
  have "clock_command junk (Some (lit (''set date '' @ clock_text mo (CHR ''/'') d (CHR ''/'') y))) s =
      set_date_command ?a s"
    by (simp add: clock_command_def lit_def peek_def)
  also have "\<dots> = (if 1 \<le> d \<and> d \<le> 31 \<and> 1 \<le> mo \<and> mo \<le> 12
     then Inr (s\<lparr>devices := set_date \<lparr>day = of_nat d, month = of_nat mo, year = of_nat y\<rparr> (devices s)\<rparr>)
     else bindE (print_str (lit (ESC # ''[31mInvalid date values.'' @ ESC # ''[0m'' @ [CR, LF])) s) clock_help)"
    using bad_format_clock_text[OF assms(2-4), of "CHR ''/''" "CHR ''/''" "CHR ''/''"]
    by (auto simp: set_date_command_def two_digits_clock_text[OF assms(2-4)])
  also have "bindE (print_str (lit (ESC # ''[31mInvalid date values.'' @ ESC # ''[0m'' @ [CR, LF])) s) clock_help =
      Inr (set_line COM1 (sent COM1 s @ ESC # ''[31mInvalid date values.'' @ ESC # ''[0m'' @ [CR, LF] @
       clock_help_text) (pending COM1 s) s)"
  proof -
    have "NUL \<notin> set clock_help_text" by (simp add: clock_help_text_def)
    then show ?thesis using assms(1) by (simp add: print_str_text clock_help_def)
  qed
  finally show ?thesis .
qed

text \<open>A number below 100 keeps its value in a byte.\<close>

lemma byte_less_100: "n < 100 \<Longrightarrow> (of_nat n :: u8) < 100"
  by (simp add: word_less_nat_alt unat_of_nat)

lemma time_after_set:
  assumes "h < 100" "mi < 100" "sec < 100"
  defines "t \<equiv> \<lparr>second = of_nat sec, minute = of_nat mi, hour = of_nat h\<rparr>"
  shows "clock_time (set_time t m) = t" "clock_date (set_time t m) = clock_date m"
  using assms byte_less_100
  by (simp_all add: t_def set_time_eq clock_time_def clock_date_def bcd_clock_def mode.dec_enc)

lemma date_after_set:
  assumes "d < 100" "mo < 100" "y < 100"
  defines "x \<equiv> \<lparr>day = of_nat d, month = of_nat mo, year = of_nat y\<rparr>"
  shows "clock_date (set_date x m) = x" "clock_time (set_date x m) = clock_time m"
  using assms byte_less_100
  by (simp_all add: x_def set_date_eq clock_time_def clock_date_def bcd_clock_def mode.dec_enc)

text \<open>A set command that is accepted is followed by the get command on the new clock.\<close>

lemma online_set [simp]:
  "online COM1 (s\<lparr>devices := set_time t (devices s)\<rparr>) = online COM1 s"
  "online COM1 (s\<lparr>devices := set_date d (devices s)\<rparr>) = online COM1 s"
  "sent COM1 (s\<lparr>devices := set_time t (devices s)\<rparr>) = sent COM1 s"
  "sent COM1 (s\<lparr>devices := set_date d (devices s)\<rparr>) = sent COM1 s"
  by (simp_all add: online_def sent_def set_time_eq set_date_eq)

lemma set_time_then_get:
  assumes "online COM1 s" and "a < 100" "b < 100" "c' < 100" and "a \<le> 23" "b \<le> 59" "c' \<le> 59"
  shows "\<exists>s1 s2. clock_command junk (Some (lit (''set time '' @ clock_text a (CHR '':'') b (CHR '':'') c'))) s = Inr s1 \<and>
    clock_command junk' (Some (lit ''get time'')) s1 = Inr s2 \<and>
    sent COM1 s2 = sent COM1 s @ [CR, LF] @ ''Time: '' @ clock_text a (CHR '':'') b (CHR '':'') c' @ [CR, LF, LF] \<and>
    clock_date (devices s2) = clock_date (devices s)"
proof -
  let ?t = "\<lparr>second = of_nat c', minute = of_nat b, hour = of_nat a\<rparr>"
  let ?s = "s\<lparr>devices := set_time ?t (devices s)\<rparr>"
  have "online COM1 ?s" using assms(1) by simp
  from clock_get_time_command[OF this, of junk'] obtain s2 where s2: "clock_command junk' (Some (lit ''get time'')) ?s = Inr s2"
    "sent COM1 s2 = sent COM1 s @ [CR, LF] @ ''Time: '' @ two (of_nat a) @ '':'' @ two (of_nat b) @ '':'' @ two (of_nat c') @ [CR, LF, LF]"
    "clock_date (devices s2) = clock_date (devices s)"
    by (auto simp: time_after_set[OF assms(2-4)])
  moreover have "clock_command junk (Some (lit (''set time '' @ clock_text a (CHR '':'') b (CHR '':'') c'))) s = Inr ?s"
    unfolding clock_set_time_command[OF assms(1-4)] using assms(5-7) by simp
  ultimately show ?thesis by (intro exI[of _ ?s] exI[of _ s2]) (simp add: clock_text_two[OF assms(2-4)])
qed

lemma set_date_then_get:
  assumes "online COM1 s" and "a < 100" "b < 100" "c' < 100" and "1 \<le> a" "a \<le> 12" "1 \<le> b" "b \<le> 31"
  shows "\<exists>s1 s2. clock_command junk (Some (lit (''set date '' @ clock_text a (CHR ''/'') b (CHR ''/'') c'))) s = Inr s1 \<and>
    clock_command junk' (Some (lit ''get date'')) s1 = Inr s2 \<and>
    sent COM1 s2 = sent COM1 s @ [CR, LF] @ ''Date: '' @ clock_text a (CHR ''/'') b (CHR ''/'') c' @ [CR, LF, LF] \<and>
    clock_time (devices s2) = clock_time (devices s)"
proof -
  let ?d = "\<lparr>day = of_nat b, month = of_nat a, year = of_nat c'\<rparr>"
  let ?s = "s\<lparr>devices := set_date ?d (devices s)\<rparr>"
  have "online COM1 ?s" using assms(1) by simp
  from clock_get_date_command[OF this, of junk'] obtain s2 where s2: "clock_command junk' (Some (lit ''get date'')) ?s = Inr s2"
    "sent COM1 s2 = sent COM1 s @ [CR, LF] @ ''Date: '' @ two (of_nat a) @ ''/'' @ two (of_nat b) @ ''/'' @ two (of_nat c') @ [CR, LF, LF]"
    "clock_time (devices s2) = clock_time (devices s)"
    by (auto simp: date_after_set[OF assms(3,2,4)])
  moreover have "clock_command junk (Some (lit (''set date '' @ clock_text a (CHR ''/'') b (CHR ''/'') c'))) s = Inr ?s"
    unfolding clock_set_date_command[OF assms(1-4)] using assms(5-8) by simp
  ultimately show ?thesis by (intro exI[of _ ?s] exI[of _ s2]) (simp add: clock_text_two[OF assms(2-4)])
qed

section \<open>Properties\<close>

text \<open>Property C25. What \<open>clock set time\<close> and \<open>clock set date\<close> are given is what \<open>clock get time\<close>
  and \<open>clock get date\<close> print then, with the clock in BCD or in binary mode; setting the one
  leaves the other alone. Numbers out of range are refused with an error and the help, and the
  clock stays as it is.\<close>

theorem clock_set_get:
  assumes "online COM1 s" and "a < 100" and "b < 100" and "c' < 100"
  shows "(let time = clock_text a (CHR '':'') b (CHR '':'') c'; set_cmd = Some (lit (''set time '' @ time))
      in if a \<le> 23 \<and> b \<le> 59 \<and> c' \<le> 59
         then \<exists>s1 s2. clock_command junk set_cmd s = Inr s1 \<and> clock_command junk' (Some (lit ''get time'')) s1 = Inr s2 \<and>
           sent COM1 s2 = sent COM1 s @ [CR, LF] @ ''Time: '' @ time @ [CR, LF, LF] \<and>
           clock_date (devices s2) = clock_date (devices s)
         else clock_command junk set_cmd s = Inr (set_line COM1 (sent COM1 s @ ESC # ''[31mInvalid time values.'' @
           ESC # ''[0m'' @ [CR, LF] @ clock_help_text) (pending COM1 s) s)) \<and>
    (let date = clock_text a (CHR ''/'') b (CHR ''/'') c'; set_cmd = Some (lit (''set date '' @ date))
      in if 1 \<le> b \<and> b \<le> 31 \<and> 1 \<le> a \<and> a \<le> 12
         then \<exists>s1 s2. clock_command junk set_cmd s = Inr s1 \<and> clock_command junk' (Some (lit ''get date'')) s1 = Inr s2 \<and>
           sent COM1 s2 = sent COM1 s @ [CR, LF] @ ''Date: '' @ date @ [CR, LF, LF] \<and>
           clock_time (devices s2) = clock_time (devices s)
         else clock_command junk set_cmd s = Inr (set_line COM1 (sent COM1 s @ ESC # ''[31mInvalid date values.'' @
           ESC # ''[0m'' @ [CR, LF] @ clock_help_text) (pending COM1 s) s))"
proof (intro conjI)
  show "let time = clock_text a (CHR '':'') b (CHR '':'') c'; set_cmd = Some (lit (''set time '' @ time))
      in if a \<le> 23 \<and> b \<le> 59 \<and> c' \<le> 59
         then \<exists>s1 s2. clock_command junk set_cmd s = Inr s1 \<and> clock_command junk' (Some (lit ''get time'')) s1 = Inr s2 \<and>
           sent COM1 s2 = sent COM1 s @ [CR, LF] @ ''Time: '' @ time @ [CR, LF, LF] \<and>
           clock_date (devices s2) = clock_date (devices s)
         else clock_command junk set_cmd s = Inr (set_line COM1 (sent COM1 s @ ESC # ''[31mInvalid time values.'' @
           ESC # ''[0m'' @ [CR, LF] @ clock_help_text) (pending COM1 s) s)"
    using set_time_then_get[OF assms, of junk junk'] clock_set_time_command[OF assms, of junk]
    by (cases "a \<le> 23 \<and> b \<le> 59 \<and> c' \<le> 59") (simp_all only: Let_def if_True if_False simp_thms)
  show "let date = clock_text a (CHR ''/'') b (CHR ''/'') c'; set_cmd = Some (lit (''set date '' @ date))
      in if 1 \<le> b \<and> b \<le> 31 \<and> 1 \<le> a \<and> a \<le> 12
         then \<exists>s1 s2. clock_command junk set_cmd s = Inr s1 \<and> clock_command junk' (Some (lit ''get date'')) s1 = Inr s2 \<and>
           sent COM1 s2 = sent COM1 s @ [CR, LF] @ ''Date: '' @ date @ [CR, LF, LF] \<and>
           clock_time (devices s2) = clock_time (devices s)
         else clock_command junk set_cmd s = Inr (set_line COM1 (sent COM1 s @ ESC # ''[31mInvalid date values.'' @
           ESC # ''[0m'' @ [CR, LF] @ clock_help_text) (pending COM1 s) s)"
    using set_date_then_get[OF assms, of junk junk'] clock_set_date_command[OF assms, of junk]
    by (cases "1 \<le> b \<and> b \<le> 31 \<and> 1 \<le> a \<and> a \<le> 12") (simp_all only: Let_def if_True if_False simp_thms)
qed

end
