(* ===== verification/Witnesses.thy ===== *)
theory Witnesses
  imports Example ClockCommand
begin

text \<open>
  The properties at concrete inputs: each theorem here applies one property of the
  development to the kernel of the theory \<open>Example\<close>, to concrete strings or to a concrete
  clock, so that its hypotheses are seen to hold there.
\<close>

section \<open>Dispatching\<close>

lemma wf_run_111: "wf_run (demo 1 1 1) demo_lists"
  by (rule wf_run_demo) simp_all

lemma wf_111: "wf (demo 1 1 1) demo_lists"
  using wf_run_111 by (simp add: wf_run_def)

theorem trap_refines_scheduler_witness:
  "\<exists>regs' k' B. trap (demo_regs IDLE) (demo 1 1 1) = Inr (regs', k') \<and> wf_run k' B \<and> isolated k' \<and>
    (running k', B ReadyQ) = (Some a2, [a3, a1]) \<and>
    B BlockedQ = [a4] \<and> B SuspReadyQ = [a5] \<and> prio k' = prio (demo 1 1 1)"
  using trap_refines_scheduler[OF wf_run_111 isolated_demo own_stack_demo, of IDLE]
  by (clarsimp simp: request_of_def ins_ready_def) (intro exI conjI, assumption+, auto)

theorem yield_switches_context_witness:
  "\<exists>regs' k'. trap (demo_regs IDLE) (demo 1 1 1) = Inr (regs', k') \<and>
    saved_regs (demo 1 1 1) a2 = Some regs' \<and>
    saved_regs k' a1 = Some ((demo_regs IDLE)\<lparr>reg_eax := -1\<rparr>) \<and>
    saved_regs k' a3 = saved_regs (demo 1 1 1) a3 \<and>
    curProc k' = a2 \<and> wf_run k' (demo_lists(ReadyQ := [a3, a1]))"
  using yield_switches_context[OF wf_run_111 isolated_demo own_stack_demo, of IDLE a2 "[a3]"]
  by (clarsimp simp: ins_ready_def)

theorem round_robin_witness:
  "\<exists>k'. (yields ^^ 4) (demo 1 1 1) k' \<and> running k' = Some a2"
proof -
  have "schedules (demo 1 1 1) (Some a1) [a2, a3] (prio (demo 1 1 1))" by (rule schedules_demo) simp_all
  moreover have "(a1 # [a2, a3]) ! (4 mod length (a1 # [a2, a3])) = a2" by code_simp
  ultimately show ?thesis
    using round_robin[where n = 4 and v = 1 and c = a1 and q = "[a2, a3]"] by fastforce
qed

theorem two_starve_the_rest_witness:
  "\<exists>k'. (yields ^^ 5) (demo 0 0 1) k' \<and> curProc k' \<in> {a1, a2}"
proof -
  have s: "schedules (demo 0 0 1) (Some a1) [a2, a3] (prio (demo 0 0 1))" by (rule schedules_demo) simp_all
  then obtain k' where k': "(yields ^^ 5) (demo 0 0 1) k'" using yields_runs by blast
  with two_starve_the_rest[OF s _ k'] show ?thesis by auto
qed

theorem yield_with_nobody_ready_witness:
  "\<exists>x k'. contexts demo_alone (sysStackPtr demo_alone) = Some x \<and>
    trap (demo_regs IDLE) demo_alone = Inr (x\<lparr>reg_esp := sysStackPtr demo_alone + 60\<rparr>, k') \<and>
    curProc k' = curProc demo_alone \<and> pcbq k' = pcbq demo_alone"
  by (rule yield_with_nobody_ready[OF wf_run_alone isolated_alone own_stack_alone])
     (simp_all add: demo_alone_def)

section \<open>Queues and processes\<close>

lemma rep_111: "rep (demo_pq 1 1 1) demo_lists"
  by (rule rep_demo) simp

theorem pcb_insert_places_witness:
  "\<exists>s'. pcb_insert a1 (demo_pq 1 1 1) = Inr s' \<and> same_pcbs (demo_pq 1 1 1) s' \<and>
    rep s' (demo_lists(ReadyQ := [a2, a3, a1]))"
  using pcb_insert_places[OF rep_111, of a1 "setup_pcb ''run'' CLASS_USER 1 a1"]
  by (simp add: queued_demo demo_pcbs_def select_queue_def ins_ready_def prio_of_def)

theorem pcb_remove_unlinks_witness:
  "\<exists>s'. pcb_remove a3 (demo_pq 1 1 1) = Inr (0, s') \<and> same_pcbs (demo_pq 1 1 1) s' \<and>
    rep s' (demo_lists(ReadyQ := [a2])) \<and> \<not> queued (demo_lists(ReadyQ := [a2])) a3"
  using pcb_remove_unlinks[OF rep_111, of a3 ReadyQ] by simp

theorem pcb_find_first_witness: "pcb_find (Some (lit ''blk'')) (demo_pq 1 1 1) = Inr a4"
  using pcb_find_first[OF rep_111, of "lit ''blk''"] wfD(4)[OF wf_111] by (simp add: name_of_demo)

theorem pcb_remove_loses_queue_witness:
  "pcb_remove a1 (demo_pq 1 1 1) = Inr (0, (demo_pq 1 1 1)
    \<lparr>queues := (queues (demo_pq 1 1 1))(ReadyQ := \<lparr>head = NULL, tail = NULL\<rparr>)\<rparr>)"
  using pcb_remove_loses_queue[OF rep_111, of a1 "setup_pcb ''run'' CLASS_USER 1 a1"]
  by (simp add: queued_demo demo_pcbs_def select_queue_def)

theorem pcb_setup_result_witness:
  "pcb_setup (Some (lit ''new'')) CLASS_USER 3 0x1234 (demo 1 1 1) =
    Inr (0xD001504, (demo 1 1 1)\<lparr>pcbq := (demo_pq 1 1 1)\<lparr>pcbs := (pcbs (demo_pq 1 1 1))(0xD001504 \<mapsto>
        \<lparr>pname = ''new'' @ replicate 13 NUL, process_class = CLASS_USER, priority = 3,
          execution_state = STATE_READY, dispatch_state = DISPATCH_ACTIVE, pargs = NULL,
          pstack = 0xD001538, contextPtr = 0xD0018FC, pnext = NULL, pprev = NULL\<rparr>)\<rparr>,
      contexts := (contexts (demo 1 1 1))(0xD0018FC \<mapsto>
        \<lparr>reg_gs = 0x10, reg_fs = 0x10, reg_es = 0x10, reg_ds = 0x10, reg_edi = 0, reg_esi = 0,
          reg_ebp = 0, reg_esp = 0xD001938, reg_ebx = 0, reg_edx = 0, reg_ecx = 0, reg_eax = 0,
          reg_eip = 0x1234, reg_cs = 0x08, reg_eflags = 0x202\<rparr>),
      kvm := (kvm (demo 1 1 1))\<lparr>heap_addr := 0xD001938\<rparr>\<rparr>)"
proof -
  have "\<not> (\<exists>a. queued demo_lists a \<and> name_of (pcbq (demo 1 1 1)) a = ''new'')"
    by (auto simp: queued_demo name_of_demo)
  moreover have "room 1076 (kvm (demo 1 1 1))" by (simp add: room_def demo_vm_def)
  moreover have "heap_addr (kvm (demo 1 1 1)) = 0xD001504" by (simp add: demo_vm_def)
  ultimately show ?thesis
    using conjunct1[OF pcb_setup_result[OF wf_111, of "lit ''new''" CLASS_USER 3 "0x1234"]] by simp
qed

theorem block_pcb_blocks_witness:
  "\<exists>k'. block_pcb (lit ''one'') (demo 1 1 1) = Inr (emit (blocked_text @ [NUL]) k') \<and>
    moves (demo 1 1 1) demo_lists ReadyQ a2 (one\<lparr>execution_state := STATE_BLOCKED\<rparr>) k'"
  using block_pcb_blocks[OF named_demo(1)] by (simp add: one_def)

theorem unblock_pcb_readies_witness:
  "\<exists>k'. unblock_pcb (lit ''blk'') (demo 1 1 1) = Inr (emit (unblocked_text @ [NUL]) k') \<and>
    moves (demo 1 1 1) demo_lists BlockedQ a4 (blk\<lparr>execution_state := STATE_READY\<rparr>) k'"
  using unblock_pcb_readies[OF named_demo(2)] by (simp add: blk_def)

theorem suspend_pcb_suspends_witness:
  "\<exists>k'. suspend_pcb (Some (lit ''one'')) (demo 1 1 1) = Inr (0, k') \<and>
    moves (demo 1 1 1) demo_lists ReadyQ a2 (one\<lparr>dispatch_state := DISPATCH_SUSPENDED\<rparr>) k'"
  using suspend_pcb_suspends[OF named_demo(1)] by (simp add: one_def)

theorem resume_pcb_resumes_witness:
  "\<exists>k'. resume_pcb (Some (lit ''sus'')) (demo 1 1 1) = Inr (0, k') \<and>
    moves (demo 1 1 1) demo_lists SuspReadyQ a5 (sus\<lparr>dispatch_state := DISPATCH_ACTIVE\<rparr>) k'"
  using resume_pcb_resumes[OF named_demo(3)] by (simp add: sus_def)

theorem block_unblock_witness:
  "\<exists>k'. block_pcb (lit ''one'') (demo 1 1 1) = Inr (emit (blocked_text @ [NUL]) k') \<and>
    moves (demo 1 1 1) demo_lists ReadyQ a2 (one\<lparr>execution_state := STATE_BLOCKED\<rparr>) k'"
  using block_unblock[OF named_demo(1)] by (simp add: one_def)

theorem suspend_resume_witness:
  "\<exists>k'. suspend_pcb (Some (lit ''one'')) (demo 1 1 1) = Inr (0, k') \<and>
    moves (demo 1 1 1) demo_lists ReadyQ a2 (one\<lparr>dispatch_state := DISPATCH_SUSPENDED\<rparr>) k'"
  using suspend_resume[OF named_demo(1)] by (simp add: one_def)

theorem setPriority_sets_witness:
  "\<exists>k'. setPriority (lit ''one'') 5 (demo 1 1 1) = Inr k' \<and>
    moves (demo 1 1 1) demo_lists ReadyQ a2 (one\<lparr>priority := 5\<rparr>) k'"
  using setPriority_sets[OF named_demo(1), of 5] by (simp add: one_def)

theorem delete_pcb_deletes_witness:
  "\<exists>k'. delete_pcb (lit ''one'') (demo 1 1 1) = Inr (emit (deleted_text @ [NUL]) k') \<and>
    wf k' (demo_lists(ReadyQ := [a3])) \<and> \<not> queued (demo_lists(ReadyQ := [a3])) a2 \<and>
    kvm k' = kvm (demo 1 1 1) \<and> dom (pcbs (pcbq k')) = dom (pcbs (pcbq (demo 1 1 1)))"
  using delete_pcb_deletes[OF named_demo(1)] by (simp add: one_def)

section \<open>Loading\<close>

lemma demo_unused:
  "\<forall>nm \<in> set (map fst r3_procs). \<not> taken (demo 1 1 1) demo_lists nm"
  by (auto simp: r3_procs_def taken_def queued_demo name_of_demo)

lemma demo_room: "room n (demo_vm 0xD001504) \<longleftrightarrow> n \<le> 60156"
  by (auto simp: room_def demo_vm_def)

theorem load_command_loads_witness:
  "\<exists>k'. load_command (\<lambda>i. 0x1000 + of_nat i) (Some (lit '''')) (demo 1 1 1) = Inr k' \<and>
    starts_at k' 0xD001504 ''proc1'' 0x1001 \<and> console k' = console (demo 1 1 1)"
proof -
  have "no_args (Some (lit '''')) = Inr True" by (simp add: no_args_def lit_def peek_def)
  note l = load_command_loads[OF wf_111 disjI1[OF conjI[OF this refl]], of "\<lambda>i. 0x1000 + of_nat i", unfolded Let_def unused_none_taken[OF demo_unused]]
  have "room (1076 * length r3_procs) (kvm (demo 1 1 1))" by (simp add: demo_room r3_procs_names)
  then obtain k' where k': "load_command (\<lambda>i. 0x1000 + of_nat i) (Some (lit '''')) (demo 1 1 1) = Inr k'"
    "loaded (demo 1 1 1) demo_lists (map (\<lambda>(nm, i). (nm, 0x1000 + of_nat i)) r3_procs) k'"
    "console k' = console (demo 1 1 1) @ []"
    using l by auto
  then have "starts_at k' (heap_addr (kvm (demo 1 1 1))) ''proc1'' 0x1001"
    by (simp add: loaded_def r3_procs_def)
  moreover have "heap_addr (kvm (demo 1 1 1)) = 0xD001504" by (simp add: demo_vm_def)
  ultimately show ?thesis using k'(1,3) by simp
qed

theorem load_delete_wears_witness:
  "(\<exists>k'. load_rounds (\<lambda>i. 0x1000) 11 (demo 1 1 1) = Inr k' \<and> worn (demo 1 1 1) demo_lists 11 k') \<and>
    load_rounds (\<lambda>i. 0x1000) 12 (demo 1 1 1) = Inl (Panic ''Heap is full!'')"
  using load_delete_wears[OF wf_111 demo_unused, of 11 "\<lambda>i. 0x1000"] load_delete_wears[OF wf_111 demo_unused, of 12 "\<lambda>i. 0x1000"]
  by (simp add: demo_room)

section \<open>Errors of the commands\<close>

theorem unknown_process_name_witness:
  "block_pcb (lit ''nobody'') (demo 1 1 1) = Inl NullDeref \<and>
   suspend_pcb (Some (lit ''nobody'')) (demo 1 1 1) = Inr (-1, demo 1 1 1)"
  using unknown_process_name[OF wf_111, of "lit ''nobody''"] by (auto simp: queued_demo name_of_demo)

theorem set_priority_one_character_witness:
  "set_priority_command (Some (lit ''one x'')) (demo 1 1 1) = setPriority (lit ''one'') 0 (demo 1 1 1)"
  using set_priority_one_character[of "''one''" "CHR ''x''" "demo 1 1 1"] by (simp add: schar_def)

section \<open>The serial line\<close>

lemma demo_line:
  "online COM1 (set_line COM1 [] r demo_io)" "sent COM1 (set_line COM1 [] r demo_io) = []"
  "pending COM1 (set_line COM1 [] r demo_io) = r"
  by (simp_all add: serial_devno_def)

theorem serial_poll_line_witness:
  "\<exists>buffer'. serial_poll COM1 (replicate 8 NUL) 8 (set_line COM1 [] ((''ab'' @ [BACKSPACE, CHR ''c'']) @- CR ## sconst NUL) demo_io) =
      Inr (2, buffer', set_line COM1 (prompt @ echoes [] (''ab'' @ [BACKSPACE, CHR ''c'']) @ [CR]) (sconst NUL) demo_io) \<and>
    length buffer' = 8 \<and> terminated buffer' \<and> text_of buffer' = ''ac''"
proof -
  define cs where "cs = ''ab'' @ [BACKSPACE, CHR ''c'']"
  have "\<forall>c\<in>set cs. ordinary c" "fits (8 - 1) [] cs" "foldl edit [] cs = ''ac''"
    unfolding cs_def by code_simp+
  then show ?thesis unfolding cs_def[symmetric]
    using serial_poll_line[OF demo_line(1) demo_line(3), of CR cs 8 "replicate 8 NUL" "sconst NUL"]
    by (simp add: demo_line)
qed

theorem serial_poll_full_witness:
  "\<exists>buffer'. serial_poll COM1 (replicate 4 NUL) 4 (set_line COM1 [] (''ab'' @- CHR ''c'' ## sconst NUL) demo_io) =
      Inr (-1, buffer', set_line COM1 (prompt @ echoes [] (''ab'' @ [CHR ''c''])) (sconst NUL) demo_io) \<and>
    length buffer' = 4 \<and> take 4 buffer' = ''abc'' @ [NUL]"
proof -
  define cs where "cs = ''ab''"
  have "\<forall>c\<in>set (cs @ [CHR ''c'']). ordinary c" "fits (4 - 1) [] cs"
    "foldl edit [] (cs @ [CHR ''c'']) = ''abc''"
    unfolding cs_def by code_simp+
  then show ?thesis unfolding cs_def[symmetric]
    using serial_poll_full[OF demo_line(1) demo_line(3), of cs "CHR ''c''" 4 "replicate 4 NUL" "sconst NUL"]
    by (simp add: demo_line)
qed

theorem serial_poll_left_arrow_overflow_witness:
  "serial_poll COM1 (replicate 3 NUL) 3
    (set_line COM1 [] (concat (replicate 3 (''x'' @ ESC # ''[D'')) @- CR ## sconst NUL) demo_io) = Inl OutOfBounds"
  by (rule serial_poll_left_arrow_overflow[OF demo_line(1) demo_line(3)]) simp_all

theorem serial_poll_right_arrow_underflow_witness:
  "serial_poll COM1 (replicate 3 NUL) 3
    (set_line COM1 [] ((ESC # ''[C'') @- BACKSPACE ## CR ## sconst NUL) demo_io) = Inl OutOfBounds"
  by (rule serial_poll_right_arrow_underflow[OF demo_line(1) demo_line(3)]) simp_all

theorem serial_poll_arrows_witness:
  "serial_poll COM1 (replicate 3 NUL) 3
    (set_line COM1 [] (concat (replicate 3 (''x'' @ ESC # ''[D'')) @- CR ## sconst NUL) demo_io) = Inl OutOfBounds"
  using serial_poll_arrows[where s = demo_io and len = 3 and buffer = "replicate 3 NUL" and n = 3 and t = "[]" and r = "sconst NUL"]
    demo_line by simp

theorem serial_init_out_witness:
  "\<exists>s'. serial_init COM2 demo_io = (0, s') \<and>
    serial_out COM2 ''ok'' 2 s' = Inr (2, set_line COM2 ''ok'' (stl (sconst NUL)) s')"
  using serial_init_out[of COM2 demo_io 2 "''ok''"]
  by (auto simp: serial_devno_def demo_io_def demo_uart_def dlab_def sent_def pending_def)

section \<open>Strings and numbers\<close>

theorem itoa_atoi_witness:
  "\<exists>buf'. itoa (- 120) (replicate 12 NUL) = Inr buf' \<and> length buf' = 12 \<and>
    text_of buf' = show_int (- 120) \<and> atoi buf' = Inr (- 120)"
  using itoa_atoi[of "- 120" "replicate 12 NUL"] by simp

theorem itoBCD_digits_witness:
  "itoBCD ''????'' 42 (replicate 9 NUL) = Inr (concat (map bcd4 (dec 42)) @ NUL # drop (4 * length (dec 42) + 1) (replicate 9 NUL))"
proof -
  have "length (dec 42) = 2" by code_simp
  then show ?thesis using itoBCD_digits[of 42 "replicate 9 NUL" "''????''"] by simp
qed

theorem strcmp_compares_witness:
  "(\<exists>d. strcmp (lit ''block'') (lit ''blocked'') = Inr d \<and> d \<noteq> 0) \<and>
    (\<exists>d. strncmp (lit ''block'') (lit ''blocked'') 5 = Inr d \<and> d = 0)"
  using strcmp_compares[of "lit ''block''" "lit ''blocked''" 5] by auto

theorem strncpy_copies_witness:
  "strncpy (replicate 6 CR) (lit ''ab'') 4 = Inr (''ab'' @ [NUL, NUL, CR, CR])"
  using strncpy_copies[of "lit ''ab''" 4 "replicate 6 CR"] by (simp add: numeral_eq_Suc)

theorem trim_Input_trims_witness:
  "\<exists>str'. trim_Input (lit (''help'' @ [CR, LF])) = Inr str' \<and> text_of str' = ''help''"
  using trim_Input_trims[of "lit (''help'' @ [CR, LF])"] by auto

section \<open>The clock\<close>

text \<open>A clock in binary mode, and one in BCD mode at the first hour of the century.\<close>

definition clock_hw :: hw where
  "clock_hw = (devices demo_io)\<lparr>cmos := (\<lambda>_. 0)(0 := 10, 2 := 20, 4 := 1, 7 := 1, 8 := 3, 9 := 24, 11 := 4)\<rparr>"

definition century_hw :: hw where
  "century_hw = (devices demo_io)\<lparr>cmos := (\<lambda>_. 0)(7 := 1, 8 := 1)\<rparr>"

lemma clock_hw_reads:
  "clock_time clock_hw = \<lparr>second = 10, minute = 20, hour = 1\<rparr>"
  "clock_date clock_hw = \<lparr>day = 1, month = 3, year = 24\<rparr>"
  by (simp_all add: clock_time_def clock_date_def bcd_clock_def bcd_mode_def clock_hw_def decode_def)

lemma century_hw_reads:
  "clock_time century_hw = \<lparr>second = 0, minute = 0, hour = 0\<rparr>"
  "clock_date century_hw = \<lparr>day = 1, month = 1, year = 0\<rparr>" "bcd_clock century_hw"
  by (simp_all add: clock_time_def clock_date_def bcd_clock_def bcd_mode_def century_hw_def decode_def bcd_to_bin_def)

theorem set_time_get_time_witness:
  "fst (get_time (set_time \<lparr>second = 59, minute = 30, hour = 23\<rparr> century_hw)) =
    \<lparr>second = 59, minute = 30, hour = 23\<rparr>"
  using set_time_get_time[of "\<lparr>second = 59, minute = 30, hour = 23\<rparr>" century_hw] by simp

theorem set_date_get_date_witness:
  "fst (get_date (set_date \<lparr>day = 31, month = 12, year = 99\<rparr> century_hw)) =
    \<lparr>day = 31, month = 12, year = 99\<rparr>"
  using set_date_get_date[of "\<lparr>day = 31, month = 12, year = 99\<rparr>" century_hw] by simp

theorem clock_roundtrip_witness:
  "fst (get_time (set_time \<lparr>second = 59, minute = 30, hour = 23\<rparr> century_hw)) = \<lparr>second = 59, minute = 30, hour = 23\<rparr> \<and>
    fst (get_date (set_date \<lparr>day = 31, month = 12, year = 99\<rparr> century_hw)) = \<lparr>day = 31, month = 12, year = 99\<rparr>"
  using clock_roundtrip[of "\<lparr>second = 59, minute = 30, hour = 23\<rparr>" "\<lparr>day = 31, month = 12, year = 99\<rparr>" century_hw]
  by simp

theorem clock_set_get_witness:
  "\<exists>s1 s2. clock_command (\<lambda>_. NUL) (Some (lit (''set time '' @ clock_text 7 (CHR '':'') 30 (CHR '':'') 5))) demo_io = Inr s1 \<and>
    clock_command (\<lambda>_. NUL) (Some (lit ''get time'')) s1 = Inr s2 \<and>
    sent COM1 s2 = sent COM1 demo_io @ [CR, LF] @ ''Time: '' @ clock_text 7 (CHR '':'') 30 (CHR '':'') 5 @ [CR, LF, LF]"
proof -
  have n: "(7::nat) < 100" "(30::nat) < 100" "(5::nat) < 100" "(7::nat) \<le> 23 \<and> (30::nat) \<le> 59 \<and> (5::nat) \<le> 59" by simp_all
  have on: "online COM1 demo_io" by (simp add: serial_devno_def)
  show ?thesis
    using conjunct1[OF clock_set_get[OF on n(1-3), where junk = "\<lambda>_. NUL" and junk' = "\<lambda>_. NUL"], unfolded Let_def if_P[OF n(4)]] by blast
qed

theorem tz_correction_four_hours_witness:
  "valid_date (clock_date (tz_correction clock_hw)) \<and>
    hours_of (clock_time (tz_correction clock_hw)) (clock_date (tz_correction clock_hw)) =
      hours_of (clock_time clock_hw) (clock_date clock_hw) - 4"
  using tz_correction_four_hours[of clock_hw]
  by (simp add: clock_hw_reads valid_date_def days_in_month_def)

theorem tz_correction_century_witness:
  "clock_date (tz_correction century_hw) = \<lparr>day = 31, month = 12, year = 95\<rparr>"
  using tz_correction_century[of century_hw] by (simp add: century_hw_reads)

theorem print_time_and_date_witness:
  "print_time (\<lambda>_. CHR ''?'') \<lparr>second = 5, minute = 10, hour = 7\<rparr> demo_io =
    Inr (set_line COM1 ([CR, LF] @ ''Time: 07:10:05'' @ [CR, LF, LF]) (sconst NUL) demo_io)"
proof -
  have "show_int 5 = ''5''" "show_int 7 = ''7''" "show_int 10 = ''10''" by code_simp+
  moreover have "sent COM1 demo_io = []" "pending COM1 demo_io = sconst NUL"
    by (simp_all add: sent_def pending_def demo_io_def demo_uart_def)
  ultimately show ?thesis
    using print_time_and_date[of demo_io "\<lambda>_. CHR ''?''" "\<lparr>second = 5, minute = 10, hour = 7\<rparr>"]
    by (simp add: two_def serial_devno_def)
qed

theorem clock_set_time_command_witness:
  "clock_command (\<lambda>_. NUL) (Some (lit ''set time 23:05:09'')) demo_io =
    Inr (demo_io\<lparr>devices := set_time \<lparr>second = 9, minute = 5, hour = 23\<rparr> (devices demo_io)\<rparr>)"
proof -
  have "clock_text 23 (CHR '':'') 5 (CHR '':'') 9 = ''23:05:09''" by code_simp
  then show ?thesis
    using clock_set_time_command[of demo_io 23 5 9 "\<lambda>_. NUL"] by (simp add: serial_devno_def)
qed

end
