(* ===== verification/Processes.thy ===== *)
theory Processes
  imports PcbCommands
begin

text \<open>
  The processes of \<^verbatim>\<open>user/core.c\<close>: \<open>proc1\<close> to \<open>proc5\<close>, which share \<open>r3_proc\<close>, and the
  idle process.

  A process is the code between two of its requests: \<open>r3_turn\<close> runs \<open>r3_proc\<close> from one
  \<open>sys_req(IDLE)\<close> or \<open>sys_req(EXIT)\<close> to the next; its result is the request and where it
  then stands, with the local array \<open>output\<close>.
\<close>

section \<open>r3\_proc\<close>

text \<open>\<open>memcpy(output + strlen(output), s, strlen(s) + 1)\<close>\<close>

definition copy_to :: "cbuf \<Rightarrow> nat \<Rightarrow> cbuf \<Rightarrow> cbuf c" where
  "copy_to output off s =
     bindE (strlen s) (\<lambda>n. bindE (memcpy (drop off output) s (n + 1)) (\<lambda>rest.
     Inr (take off output @ rest)))"

definition copy_to_end :: "cbuf \<Rightarrow> cbuf \<Rightarrow> cbuf c" where
  "copy_to_end output s = bindE (strlen output) (\<lambda>off. copy_to output off s)"

definition r3_text :: "cbuf \<Rightarrow> string \<Rightarrow> string \<Rightarrow> cbuf c" where
  "r3_text output what procname =
     bindE (copy_to output 0 (lit what)) (\<lambda>output.
     bindE (copy_to_end output (lit procname)) (\<lambda>output.
     copy_to_end output (lit (CR # [LF]))))"

datatype r3_at = R3_Start | R3_Loop nat cbuf | R3_Exited cbuf | R3_Failed cbuf

definition r3_loop :: "nat \<Rightarrow> string \<Rightarrow> nat \<Rightarrow> cbuf \<Rightarrow> kernel \<Rightarrow> (u32 \<times> r3_at \<times> kernel) c" where
  "r3_loop iterations procname i output k =
     (if i < iterations
      then bindE (say output k) (\<lambda>k. Inr (IDLE, R3_Loop (i + 1) output, k))
      else bindE (r3_text output ''exiting '' procname) (\<lambda>output.
           bindE (say output k) (\<lambda>k. Inr (EXIT, R3_Exited output, k))))"

definition r3_turn :: "(nat \<Rightarrow> char) \<Rightarrow> nat \<Rightarrow> string \<Rightarrow> r3_at \<Rightarrow> kernel \<Rightarrow> (u32 \<times> r3_at \<times> kernel) c" where
  "r3_turn junk iterations procname at k =
     (case at of
        R3_Start \<Rightarrow>
          bindE (r3_text (local_array junk 100) ''dispatched '' procname) (\<lambda>output.
          r3_loop iterations procname 0 output k)
      | R3_Loop i output \<Rightarrow> r3_loop iterations procname i output k
      | R3_Exited output \<Rightarrow>
          bindE (r3_text output ''FAILURE TO EXIT: '' procname) (\<lambda>output.
          bindE (say output k) (\<lambda>k. Inr (EXIT, R3_Failed output, k)))
      | R3_Failed output \<Rightarrow> bindE (say output k) (\<lambda>k. Inr (EXIT, R3_Failed output, k)))"

text \<open>\<open>proc\<close>\<open>n\<close> for \<open>n\<close> from 1 to 5, with \<open>RC_\<close>\<open>n\<close> iterations.\<close>

definition proc_name :: "nat \<Rightarrow> string" where
  "proc_name n = ''proc'' @ [char_of (48 + n)]"

definition proc_turn :: "(nat \<Rightarrow> char) \<Rightarrow> nat \<Rightarrow> r3_at \<Rightarrow> kernel \<Rightarrow> (u32 \<times> r3_at \<times> kernel) c" where
  "proc_turn junk n = r3_turn junk n (proc_name n)"

section \<open>sys\_idle\_process\<close>

definition idle_turn :: "kernel \<Rightarrow> (u32 \<times> kernel) c" where
  "idle_turn k =
     bindE (say (lit (''IDLE PROCESS EXECUTING.'' @ CR # [LF])) k) (\<lambda>k. Inr (IDLE, k))"

section \<open>The texts\<close>

lemma copy_to_spec:
  assumes "terminated s" and "off + length (text_of s) < length output"
  shows "\<exists>r. copy_to output off s = Inr (take off output @ text_of s @ NUL # r) \<and>
    length (take off output @ text_of s @ NUL # r) = length output"
proof -
  obtain z where z: "s = text_of s @ NUL # z" using terminated_split[OF assms(1)] by blast
  let ?n = "length (text_of s) + 1"
  have "take ?n s = text_of s @ [NUL]" by (subst z) simp
  moreover have "?n \<le> length s" using length_text_of[OF assms(1)] by simp
  moreover have "?n \<le> length (drop off output)" using assms(2) by simp
  ultimately have "memcpy (drop off output) s ?n = Inr (text_of s @ NUL # drop ?n (drop off output))"
    using memcpy_spec[of ?n "drop off output" s] by simp
  then show ?thesis using assms by (intro exI[of _ "drop ?n (drop off output)"]) (simp add: copy_to_def)
qed

lemma copy_to_end_spec:
  assumes "output = str @ NUL # r" "NUL \<notin> set str" and "NUL \<notin> set t" "length str + length t < length output"
  shows "\<exists>r'. copy_to_end output (lit t) = Inr (str @ t @ NUL # r') \<and> length (str @ t @ NUL # r') = length output"
proof -
  have "terminated output" "text_of output = str" using assms(1,2) by (simp_all add: text_of_append_NUL)
  moreover have "text_of (lit t) = t" using assms(3) by (simp add: text_of_lit)
  ultimately show ?thesis
    using copy_to_spec[of "lit t" "length str" "output"] assms by (simp add: copy_to_end_def)
qed

lemma r3_text_spec:
  assumes "length output = 100" and "NUL \<notin> set what" "NUL \<notin> set nm" and "length what + length nm < 98"
  shows "\<exists>b. r3_text output what nm = Inr b \<and> length b = 100 \<and> terminated b \<and>
    text_of b = what @ nm @ [CR, LF]"
proof -
  obtain r0 where r0: "copy_to output 0 (lit what) = Inr (what @ NUL # r0)" "length (what @ NUL # r0) = 100"
    using copy_to_spec[of "lit what" 0 "output"] assms by (auto simp: text_of_lit)
  obtain r1 where r1: "copy_to_end (what @ NUL # r0) (lit nm) = Inr (what @ nm @ NUL # r1)"
    "length (what @ nm @ NUL # r1) = 100"
    using copy_to_end_spec[of "what @ NUL # r0" what r0 nm] r0(2) assms by auto
  obtain r2 where "copy_to_end (what @ nm @ NUL # r1) (lit [CR, LF]) = Inr ((what @ nm) @ [CR, LF] @ NUL # r2)"
    "length ((what @ nm) @ [CR, LF] @ NUL # r2) = 100"
    using copy_to_end_spec[of "what @ nm @ NUL # r1" "what @ nm" r1 "[CR, LF]"] r1(2) assms by auto
  moreover have "text_of ((what @ nm @ [CR, LF]) @ NUL # r2) = what @ nm @ [CR, LF]"
    using assms(2,3) by (intro text_of_append_NUL) auto
  ultimately show ?thesis using r0(1) r1(1) by (auto simp: r3_text_def)
qed

section \<open>A life of an R3 process\<close>

text \<open>The turns of a process from \<open>at\<close> on as if it ran alone: its requests, and what it
  leaves.\<close>

fun r3_turns ::
    "(nat \<Rightarrow> char) \<Rightarrow> nat \<Rightarrow> string \<Rightarrow> nat \<Rightarrow> r3_at \<Rightarrow> kernel \<Rightarrow> (u32 list \<times> r3_at \<times> kernel) c" where
  "r3_turns junk iterations nm 0 at k = Inr ([], at, k)"
| "r3_turns junk iterations nm (Suc n) at k =
     bindE (r3_turn junk iterations nm at k) (\<lambda>(req, at, k).
     bindE (r3_turns junk iterations nm n at k) (\<lambda>(reqs, at, k). Inr (req # reqs, at, k)))"

definition dispatched_text :: "string \<Rightarrow> string" where
  "dispatched_text nm = ''dispatched '' @ nm @ [CR, LF]"

definition exiting_text :: "string \<Rightarrow> string" where
  "exiting_text nm = ''exiting '' @ nm @ [CR, LF]"

lemma r3_loop_turns:
  assumes "online COM1 (kio k)" and "terminated b" "text_of b = dispatched_text nm" "length b = 100"
    and "NUL \<notin> set nm" "length nm \<le> 80" and "i \<le> n"
  shows "\<exists>b'. r3_turns junk n nm (n - i + 1) (R3_Loop i b) k =
    Inr (replicate (n - i) IDLE @ [EXIT], R3_Exited b',
      emit (concat (replicate (n - i) (dispatched_text nm)) @ exiting_text nm) k) \<and> length b' = 100"
  using assms(1,7)
proof (induction "n - i" arbitrary: i k)
  case 0
  obtain b' where b': "r3_text b ''exiting '' nm = Inr b'" "length b' = 100" "terminated b'"
    "text_of b' = exiting_text nm"
    using r3_text_spec[of b "''exiting ''" nm] assms(4-6) by (auto simp: exiting_text_def)
  then show ?case using 0 by (simp add: r3_turn_def r3_loop_def say_online)
next
  case (Suc d)
  then have d: "d = n - Suc i" "n - i = Suc d" "i < n" by simp_all
  let ?k = "emit (dispatched_text nm) k"
  obtain b' where "r3_turns junk n nm (n - Suc i + 1) (R3_Loop (Suc i) b) ?k =
      Inr (replicate (n - Suc i) IDLE @ [EXIT], R3_Exited b',
        emit (concat (replicate (n - Suc i) (dispatched_text nm)) @ exiting_text nm) ?k)" "length b' = 100"
    using Suc.hyps(1)[OF d(1), of ?k] Suc.prems d(3) by auto
  moreover have "r3_turn junk n nm (R3_Loop i b) k = Inr (IDLE, R3_Loop (Suc i) b, ?k)"
    using Suc.prems assms(2,3) d(3) by (simp add: r3_turn_def r3_loop_def say_online)
  ultimately have "r3_turns junk n nm (Suc (n - Suc i + 1)) (R3_Loop i b) k =
      Inr (IDLE # replicate (n - Suc i) IDLE @ [EXIT], R3_Exited b',
        emit (concat (replicate (n - Suc i) (dispatched_text nm)) @ exiting_text nm) ?k) \<and> length b' = 100"
    by simp
  moreover have "n - i = Suc (n - Suc i)" using d(3) by simp
  ultimately show ?case by (intro exI[of _ b']) simp
qed

section \<open>Properties\<close>

text \<open>Property C13. The process \<open>proc\<close>\<open>n\<close>, from its start: \<open>n\<close> times it prints that it is
  dispatched and asks to be idle, then it prints that it exits and asks to exit.\<close>

theorem proc_life:
  assumes "online COM1 (kio k)" and "1 \<le> n" "n \<le> 5"
  shows "\<exists>b. r3_turns junk n (proc_name n) (n + 1) R3_Start k =
    Inr (replicate n IDLE @ [EXIT], R3_Exited b,
      emit (concat (replicate n (dispatched_text (proc_name n))) @ exiting_text (proc_name n)) k)"
proof -
  have nm: "NUL \<notin> set (proc_name n)" "length (proc_name n) \<le> 80"
  proof -
    have "n \<in> {1, 2, 3, 4, 5}" using assms(2,3) by auto
    then show "NUL \<notin> set (proc_name n)" by (auto simp: proc_name_def) (code_simp)+
  qed (simp add: proc_name_def)
  obtain b where b: "r3_text (local_array junk 100) ''dispatched '' (proc_name n) = Inr b" "length b = 100"
    "terminated b" "text_of b = dispatched_text (proc_name n)"
    using r3_text_spec[of "local_array junk 100" "''dispatched ''" "proc_name n"] nm by (auto simp: dispatched_text_def)
  have "r3_turn junk n (proc_name n) R3_Start k = r3_turn junk n (proc_name n) (R3_Loop 0 b) k"
    by (simp add: r3_turn_def b(1))
  then have "r3_turns junk n (proc_name n) (Suc n) R3_Start k = r3_turns junk n (proc_name n) (Suc n) (R3_Loop 0 b) k"
    by simp
  then show ?thesis using r3_loop_turns[OF assms(1) b(3,4,2) nm, of 0 n junk] by auto
qed

end
