(* ===== verification/Line.thy ===== *)
theory Line
  imports Comhand Processes
begin

text \<open>
  Partial correctness, and its first use: whatever is typed, no function of the code closes
  the console. \<open>returns m Q\<close> says that \<open>Q\<close> holds of the result of \<open>m\<close> if \<open>m\<close> returns;
  its rules follow the statements. \<open>keeps_line f\<close>: \<open>f\<close> leaves the port COM1 initialised, with
  its divisor latch closed.
\<close>

section \<open>Partial correctness\<close>

definition returns :: "'a c \<Rightarrow> ('a \<Rightarrow> bool) \<Rightarrow> bool" where
  "returns m Q \<longleftrightarrow> (\<forall>x. m = Inr x \<longrightarrow> Q x)"

lemma returns_simps [simp]: "returns (Inl e) Q" "returns (Inr x) Q \<longleftrightarrow> Q x"
  by (simp_all add: returns_def)

lemma returnsD: "returns m Q \<Longrightarrow> m = Inr x \<Longrightarrow> Q x"
  by (simp add: returns_def)

lemma returns_bind: "returns m (\<lambda>x. returns (f x) Q) \<Longrightarrow> returns (bindE m f) Q"
  by (cases m) auto

lemma returns_any: "(\<And>x. returns (f x) Q) \<Longrightarrow> returns (bindE m f) Q"
  by (cases m) auto

lemma returns_if: "(b \<Longrightarrow> returns m Q) \<Longrightarrow> (\<not> b \<Longrightarrow> returns n Q) \<Longrightarrow> returns (if b then m else n) Q"
  by simp

lemma returns_mono: "returns m P \<Longrightarrow> (\<And>x. P x \<Longrightarrow> Q x) \<Longrightarrow> returns m Q"
  by (auto simp: returns_def)

text \<open>A counted loop keeps what its body keeps.\<close>

lemma returns_foldE:
  assumes "\<And>x s. x \<in> set xs \<Longrightarrow> P s \<Longrightarrow> returns (f x s) P"
  shows "P s \<Longrightarrow> returns (foldE f xs s) P"
  using assms
proof (induction xs arbitrary: s)
  case Nil
  then show ?case by simp
next
  case (Cons x xs)
  have "returns (foldE f xs u) P" if "P u" for u
    by (rule Cons.IH[OF that]) (rule Cons.prems(2), simp)
  then have "returns (f x s) (\<lambda>s. returns (foldE f xs s) P)"
    by (intro returns_mono[OF Cons.prems(2)[OF _ Cons.prems(1)]]) simp_all
  then show ?case by (simp add: returns_bind)
qed

section \<open>The console stays open\<close>

definition same_regs :: "hw \<Rightarrow> hw \<Rightarrow> bool" where
  "same_regs m m' \<longleftrightarrow> dlab (uarts m' COM1) = dlab (uarts m COM1)"

definition open_as :: "io \<Rightarrow> io \<Rightarrow> bool" where
  "open_as s s' \<longleftrightarrow> initialized s' = initialized s \<and> same_regs (devices s) (devices s')"

lemma open_as_refl [simp, intro!]: "open_as s s"
  by (simp add: open_as_def same_regs_def)

lemma open_as_trans: "open_as s t \<Longrightarrow> open_as t u \<Longrightarrow> open_as s u"
  by (simp add: open_as_def same_regs_def)

lemma open_as_online: "open_as s s' \<Longrightarrow> online COM1 s' = online COM1 s"
  by (simp add: open_as_def same_regs_def online_def)

lemma same_regs_refl [simp, intro!]: "same_regs m m"
  by (simp add: same_regs_def)

lemma same_regs_trans: "same_regs m n \<Longrightarrow> same_regs n k \<Longrightarrow> same_regs m k"
  by (simp add: same_regs_def)

lemma same_regs_outb: "p mod 8 \<noteq> 3 \<Longrightarrow> same_regs m (outb p v m)"
  by (simp add: same_regs_def outb_def uart_write_def dlab_def)

lemma same_regs_then: "same_regs m n \<Longrightarrow> p mod 8 \<noteq> 3 \<Longrightarrow> same_regs m (outb p v n)"
  by (rule same_regs_trans[OF _ same_regs_outb])

lemma same_regs_inb: "same_regs m (snd (inb p m))"
  by (simp add: same_regs_def inb_def Let_def dlab_def)

lemma open_as_devices: "same_regs (devices s) m \<Longrightarrow> open_as s (s\<lparr>devices := m\<rparr>)"
  by (simp add: open_as_def)

lemma open_write: "returns (sys_req_WRITE COM1 b n s) (open_as s)"
proof -
  have "returns (foldE (\<lambda>i m. bindE (peek b i) (\<lambda>ch. Inr (outb COM1 (byte_of ch) m))) [0..<n] (devices s))
      (same_regs (devices s))"
  proof (rule returns_foldE)
    fix i m assume "same_regs (devices s) m"
    then show "returns (bindE (peek b i) (\<lambda>ch. Inr (outb COM1 (byte_of ch) m))) (same_regs (devices s))"
      by (intro returns_any) (simp add: same_regs_then)
  qed simp
  then show ?thesis
    by (auto simp: sys_req_WRITE_def serial_out_def Let_def intro!: returns_bind open_as_devices elim!: returns_mono)
qed

lemma open_print: "returns (print_str b s) (open_as s)"
  by (simp add: print_str_def returns_any open_write)

section \<open>Reading a line\<close>

abbreviation (input) popen :: "poll \<Rightarrow> poll \<Rightarrow> bool" where
  "popen p p' \<equiv> open_as (pio p) (pio p')"

lemma popen_store: "returns (store i ch p) (popen p)"
  by (auto simp: store_def intro!: returns_any)

lemma popen_send [simp, intro!]: "popen p (send COM1 ch p)"
  by (auto simp: send_def intro!: open_as_devices same_regs_outb)

lemma popen_receive: "receive dev p = (ch, p') \<Longrightarrow> popen p p'"
  using same_regs_inb[of "devices (pio p)" dev]
  by (auto simp: receive_def split: prod.splits intro!: open_as_devices)

lemma popen_write_lit: "returns (write_lit str n p) (popen p)"
  using open_write[of "lit str" n "pio p"] by (auto simp: write_lit_def intro!: returns_bind elim!: returns_mono)

lemma popen_bind:
  assumes "returns m (popen p)" and "\<And>p'. popen p p' \<Longrightarrow> returns (f p') (popen p)"
  shows "returns (bindE m f) (popen p)"
  by (rule returns_bind[OF returns_mono[OF assms(1)]]) (rule assms(2))

lemma popen_then:
  assumes "popen p q" and "returns m (popen q)"
  shows "returns m (popen p)"
  by (rule returns_mono[OF assms(2)]) (rule open_as_trans[OF assms(1)])

lemma popen_send_trans: "popen p q \<Longrightarrow> popen p (send COM1 ch q)"
  by (rule open_as_trans[OF _ popen_send])

lemma popen_type: "returns (poll_type COM1 ch p) (popen p)"
  unfolding poll_type_def Let_def
  by (rule popen_bind[OF popen_store]) (auto intro!: returns_any popen_send_trans)

lemma popen_erase: "returns (poll_erase COM1 p) (popen p)"
  unfolding poll_erase_def Let_def
  by (rule returns_any, rule popen_then[OF _ popen_bind[OF popen_store]]) (auto intro!: popen_send_trans)

lemma popen_wait_key:
  assumes "wait_key dev p = Some r"
  shows "popen p (snd r)"
proof (rule wait_key.raw_induct[OF _ assms])
  fix wait_key dev p r
  assume IH: "\<And>dev p r. wait_key dev p = Some r \<Longrightarrow> popen p (snd r)"
    and r: "(case receive dev p of (specialKey, p) \<Rightarrow>
          if specialKey \<in> {CHR ''A'', CHR ''B'', CHR ''C'', CHR ''D'', CHR ''3''}
          then Some (specialKey, p) else wait_key dev p) = Some r"
  obtain ch p1 where p1: "receive dev p = (ch, p1)" by fastforce
  then have "r = (ch, p1) \<or> wait_key dev p1 = Some r"
    using r unfolding p1 prod.case by (metis option.inject)
  then show "popen p (snd r)" using IH[of dev p1 r] open_as_trans[OF popen_receive[OF p1]] popen_receive[OF p1] by auto
qed

lemma popen_wait_tilde:
  assumes "wait_tilde dev ch p = Some q"
  shows "popen p q"
proof (rule wait_tilde.raw_induct[OF _ assms])
  fix wait_tilde dev ch p q
  assume IH: "\<And>dev ch p q. wait_tilde dev ch p = Some q \<Longrightarrow> popen p q"
    and r: "(if ch \<noteq> CHR ''~'' then case receive dev p of (ch, p) \<Rightarrow> wait_tilde dev ch p else Some p) = Some q"
  obtain ch1 p1 where p1: "receive dev p = (ch1, p1)" by fastforce
  then show "popen p q"
    using r IH[of dev ch1 p1 q] open_as_trans[OF popen_receive[OF p1]] by (auto split: if_splits)
qed

lemma popen_delete: "returns (poll_delete COM1 p) (popen p)"
proof -
  have f1: "returns (foldE (\<lambda>i p. bindE (peek_at (line p) (i + 1)) (\<lambda>ch.
      bindE (store i ch p) (\<lambda>p. Inr (send COM1 ch p)))) is p) (popen p)" for "is"
  proof (rule returns_foldE)
    fix i q assume q: "popen p q"
    show "returns (bindE (peek_at (line q) (i + 1)) (\<lambda>ch. bindE (store i ch q) (\<lambda>p. Inr (send COM1 ch p)))) (popen p)"
      by (rule returns_any, rule popen_then[OF q popen_bind[OF popen_store]]) (simp add: popen_send_trans)
  qed simp
  have f2: "popen p q \<Longrightarrow> returns (foldE (\<lambda>i. write_lit str n) is q) (popen p)" for "is" str n q
    by (rule returns_foldE) (auto intro: popen_then popen_write_lit)
  have w: "popen p q \<Longrightarrow> returns (bindE (write_lit str n q) (\<lambda>p. bindE (i32 (endOfLine p - 1)) (\<lambda>e. Inr (p\<lparr>endOfLine := e\<rparr>))))
      (popen p)" for str n q
    by (rule popen_then, assumption, rule popen_bind[OF popen_write_lit]) (simp add: returns_any)
  show ?thesis unfolding poll_delete_def Let_def
    by (intro returns_if popen_bind[OF f1] popen_bind[OF f2] popen_bind[OF popen_store] popen_send_trans w) simp_all
qed

lemma popen_escape: "returns (poll_escape COM1 p) (popen p)"
proof -
  obtain ch p1 where p1: "receive COM1 p = (ch, p1)" by fastforce
  note o1 = popen_receive[OF p1]
  show ?thesis
  proof (cases "wait_key COM1 p1")
    case None
    then show ?thesis by (simp add: poll_escape_def p1)
  next
    case (Some r)
    obtain key p2 where r: "r = (key, p2)" by fastforce
    have o2: "popen p p2" using open_as_trans[OF o1 popen_wait_key[OF Some]] r by simp
    have w: "returns (bindE (write_lit str n p2) (\<lambda>p. Inr (p\<lparr>index := f p\<rparr>))) (popen p)" for str n f
      by (rule popen_then[OF o2 popen_bind[OF popen_write_lit]]) simp
    have d: "wait_tilde COM1 ch p2 = Some p3 \<Longrightarrow> returns (poll_delete COM1 p3) (popen p)" for p3
      by (rule popen_then[OF open_as_trans[OF o2 popen_wait_tilde] popen_delete])
    show ?thesis using o2 d w by (simp add: poll_escape_def p1 Some r split: option.splits)
  qed
qed

lemma popen_turn: "returns (poll_turn COM1 p) (\<lambda>(_, q). popen p q)"
proof -
  obtain ch p1 where p1: "receive COM1 p = (ch, p1)" by fastforce
  note o1 = popen_receive[OF p1]
  have go: "returns m (popen p1) \<Longrightarrow> returns (bindE m (\<lambda>p. Inr (None, p))) (\<lambda>(_, q). popen p q)" for m
    by (rule returns_bind, erule returns_mono) (simp add: open_as_trans[OF o1])
  have st: "returns (bindE (store (endOfLine p1) NUL p1) (\<lambda>p. Inr (Some (endOfLine p), send COM1 ch p))) (\<lambda>(_, q). popen p q)"
    by (rule returns_bind, rule returns_mono[OF popen_store]) (simp add: popen_send_trans open_as_trans[OF o1])
  show ?thesis unfolding poll_turn_def p1 Let_def prod.case
    by (intro returns_if go[OF popen_type] go[OF popen_erase] go[OF popen_escape] st) (simp add: o1)
qed

lemma popen_loop: "poll_loop COM1 len p = Some r \<Longrightarrow> returns r (\<lambda>(_, q). popen p q)"
proof -
  have "dev = COM1 \<longrightarrow> returns r (\<lambda>(_, q). popen p q)" if "poll_loop dev len p = Some r" for dev
  proof (rule poll_loop.raw_induct[OF _ that])
    fix loop dev len p r
    assume IH: "\<And>dev len p r. loop dev len p = Some r \<Longrightarrow> dev = COM1 \<longrightarrow> returns r (\<lambda>(_, q). popen p q)"
      and r: "(if index p < int len - 1
      then case poll_turn dev p of
             Inl e \<Rightarrow> Some (Inl e)
           | Inr (r, p) \<Rightarrow> (case r of Some r \<Rightarrow> Some (Inr (r, p)) | None \<Rightarrow> loop dev len p)
      else Some (bindE (store (index p) NUL p) (\<lambda>p. Inr (-1, p)))) = Some r"
    show "dev = COM1 \<longrightarrow> returns r (\<lambda>(_, q). popen p q)"
    proof
      assume d: "dev = COM1"
      have last: "returns (bindE (store (index p) NUL p) (\<lambda>p. Inr (-1, p))) (\<lambda>(_ :: int, q). popen p q)"
        by (rule returns_bind, rule returns_mono[OF popen_store]) simp
      show "returns r (\<lambda>(_, q). popen p q)"
      proof (cases "poll_turn dev p")
        case (Inl e)
        then show ?thesis using r last by (auto split: if_splits)
      next
        case (Inr t)
        then obtain x q where t: "poll_turn dev p = Inr (x, q)" by (cases t) auto
        then have o: "popen p q" using returnsD[OF popen_turn] d by fastforce
        have "returns y (\<lambda>(_, q'). popen p q')" if "loop dev len q = Some y" for y
          using returns_mono[OF IH[OF that, THEN mp, OF d]] open_as_trans[OF o] by fastforce
        then show ?thesis using r last o by (auto simp: t split: if_splits option.splits)
      qed
    qed
  qed
  then show "poll_loop COM1 len p = Some r \<Longrightarrow> returns r (\<lambda>(_, q). popen p q)" by simp
qed

lemma open_read: "returns (sys_req_READ COM1 buf len s) (\<lambda>(_, _, s'). open_as s s')"
proof -
  let ?p = "\<lparr>line = buf, index = 0, endOfLine = 0, pio = s\<rparr>"
  have "returns (loop_result (poll_loop COM1 len q)) (\<lambda>(_, q'). popen q q')" for q
    using popen_loop[of len q] by (cases "poll_loop COM1 len q") (auto simp: loop_result_def)
  then have P: "popen ?p q \<Longrightarrow> returns (loop_result (poll_loop COM1 len q)) (\<lambda>x. open_as s (pio (snd x)))" for q
    by (rule returns_mono) (auto intro: open_as_trans)
  have "returns (bindE (loop_result (poll_loop COM1 len q)) (\<lambda>(r, p). Inr (r, line p, pio p))) (\<lambda>(_, _, s'). open_as s s')"
    if "popen ?p q" for q
    by (intro returns_bind returns_mono[OF P[OF that]]) (simp add: case_prod_beta)
  then show ?thesis unfolding sys_req_READ_def serial_poll_def
    by (intro returns_bind[OF returns_mono[OF popen_write_lit]])
qed

section \<open>The clock\<close>

lemma rtc_uarts [simp]: "uarts (snd (rtc_read reg m)) = uarts m" "uarts (rtc_write reg v m) = uarts m"
  by (simp_all add: rtc_read_def rtc_write_def outb_def inb_def is_uart_def uart_base_def)

lemma clock_uarts [simp]:
  "uarts (snd (get_time m)) = uarts m" "uarts (snd (get_date m)) = uarts m"
  "uarts (set_time t m) = uarts m" "uarts (set_date d m) = uarts m" "uarts (tz_correction m) = uarts m"
  by (simp_all add: get_time_def get_date_def set_time_def set_date_def tz_correction_def cli_def sti_def
      Let_def split: prod.split)

lemma same_regs_uarts: "uarts m' = uarts m \<Longrightarrow> same_regs m m'"
  by (simp add: same_regs_def)

lemma open_bind:
  assumes "returns m (open_as s)" and "\<And>t. open_as s t \<Longrightarrow> returns (f t) (open_as t)"
  shows "returns (bindE m f) (open_as s)"
  by (rule returns_bind[OF returns_mono[OF assms(1)]]) (auto intro: returns_mono[OF assms(2)] open_as_trans)

lemma open_help: "returns (clock_help s) (open_as s)"
  by (simp add: clock_help_def open_print)

lemma open_print_help: "returns (bindE (print_str b s) clock_help) (open_as s)"
  by (rule open_bind[OF open_print open_help])

lemma open_set_time: "returns (set_time_command val s) (open_as s)"
  unfolding set_time_command_def
  by (intro returns_any returns_if open_print_help) (simp add: open_as_devices same_regs_uarts)

lemma open_set_date: "returns (set_date_command val s) (open_as s)"
  unfolding set_date_command_def
  by (intro returns_any returns_if open_print_help) (simp add: open_as_devices same_regs_uarts)

lemma open_then: "open_as s t \<Longrightarrow> returns m (open_as t) \<Longrightarrow> returns m (open_as s)"
  by (rule returns_mono, assumption) (rule open_as_trans)

lemma open_on_hw: "uarts (snd (f (devices s))) = uarts (devices s) \<Longrightarrow> open_as s (snd (on_hw f s))"
  by (auto simp: on_hw_def split: prod.split intro!: open_as_devices same_regs_uarts)

lemma open_print_time: "returns (print_time mem t s) (open_as s)" "returns (print_date mem d s) (open_as s)"
  unfolding print_time_def print_date_def
  by (intro returns_any; simp add: split_beta open_print)+

lemma open_clock: "returns (clock_command mem args s) (open_as s)"
proof -
  have now: "returns (case on_hw get_time s of (t, s) \<Rightarrow> case on_hw get_date s of (d, s) \<Rightarrow>
      bindE (print_date mem d s) (print_time mem t)) (open_as s)"
  proof -
    obtain t s1 d s2 where s: "on_hw get_time s = (t, s1)" "on_hw get_date s1 = (d, s2)" by (metis surj_pair)
    have "open_as s s2" using open_on_hw[of get_time s] open_on_hw[of get_date s1] s by (auto intro: open_as_trans)
    then show ?thesis unfolding s prod.case by (rule open_then[OF _ open_bind]) (rule open_print_time)+
  qed
  have time: "returns (case on_hw get_time s of (t, s) \<Rightarrow> print_time mem t s) (open_as s)"
    using open_on_hw[of get_time s] open_then[OF _ open_print_time(1)] by (auto split: prod.splits)
  have date: "returns (case on_hw get_date s of (d, s) \<Rightarrow> print_date mem d s) (open_as s)"
    using open_on_hw[of get_date s] open_then[OF _ open_print_time(2)] by (auto split: prod.splits)
  show ?thesis
    unfolding clock_command_def Let_def
    by (cases args; simp only: option.case; intro returns_any returns_if now time date open_set_time open_set_date
        open_help open_print_help returns_simps(1))
qed

end
