(* ===== verification/Keeps.thy ===== *)
theory Keeps
  imports Line Traps
begin

text \<open>
  What every command keeps. \<open>sound k\<close> is the invariant of the kernel state between two
  statements of a process: the queues, the frames, the separate stacks, and the heap above
  all of them. \<open>safe E k k'\<close>: from \<open>k\<close> the code came to \<open>k'\<close>, which is sound; the same
  process runs, the registers every other process has saved are untouched, and each new
  process starts at one of the addresses \<open>E\<close>.

  The rules follow the statements, so that each command is its definition and its rules.
\<close>

section \<open>The relation\<close>

definition below :: "kernel \<Rightarrow> bool" where
  "below k \<longleftrightarrow> (\<forall>a. pcbs (pcbq k) a \<noteq> None \<longrightarrow> unat a + 1076 \<le> unat (heap_addr (kvm k)))"

definition steady :: "kernel \<Rightarrow> (qid \<Rightarrow> addr list) \<Rightarrow> bool" where
  "steady k A \<longleftrightarrow> wf_run k A \<and> isolated k \<and> below k"

definition sound :: "kernel \<Rightarrow> bool" where
  "sound k \<longleftrightarrow> (\<exists>A. steady k A)"

definition first_frame :: "addr \<Rightarrow> addr \<Rightarrow> cpu_context" where
  "first_frame f a = initial_frame f (frame_of a) zero_context"

definition safe :: "addr set \<Rightarrow> kernel \<Rightarrow> kernel \<Rightarrow> bool" where
  "safe E k k' \<longleftrightarrow> sound k' \<and> curProc k' = curProc k \<and> sysStackPtr k' = sysStackPtr k \<and>
     (\<forall>a. if pcbs (pcbq k) a \<noteq> None then pcbs (pcbq k') a \<noteq> None \<and> saved_regs k' a = saved_regs k a
          else pcbs (pcbq k') a \<noteq> None \<longrightarrow> (\<exists>f\<in>E. saved_regs k' a = Some (first_frame f a)))"

lemma safe_refl [simp]: "safe E k k \<longleftrightarrow> sound k"
  by (simp add: safe_def)

lemma safe_trans:
  assumes "safe E k k1" and "safe E k1 k2"
  shows "safe E k k2"
proof -
  have a: "if pcbs (pcbq k) a \<noteq> None then pcbs (pcbq k1) a \<noteq> None \<and> saved_regs k1 a = saved_regs k a
      else pcbs (pcbq k1) a \<noteq> None \<longrightarrow> (\<exists>f\<in>E. saved_regs k1 a = Some (first_frame f a))"
    "if pcbs (pcbq k1) a \<noteq> None then pcbs (pcbq k2) a \<noteq> None \<and> saved_regs k2 a = saved_regs k1 a
      else pcbs (pcbq k2) a \<noteq> None \<longrightarrow> (\<exists>f\<in>E. saved_regs k2 a = Some (first_frame f a))" for a
    using assms unfolding safe_def by blast+
  have "if pcbs (pcbq k) a \<noteq> None then pcbs (pcbq k2) a \<noteq> None \<and> saved_regs k2 a = saved_regs k a
      else pcbs (pcbq k2) a \<noteq> None \<longrightarrow> (\<exists>f\<in>E. saved_regs k2 a = Some (first_frame f a))" for a
    using a[of a] by (simp split: if_splits)
  then show ?thesis using assms by (simp add: safe_def)
qed

lemma safe_sound: "safe E k k' \<Longrightarrow> sound k'"
  by (simp add: safe_def)

section \<open>Rules\<close>

lemma keep_bind:
  fixes m :: "kernel c"
  assumes "returns m (safe E k)" and "\<And>k1. sound k1 \<Longrightarrow> returns (f k1) (safe E k1)"
  shows "returns (bindE m f) (safe E k)"
  by (rule returns_bind[OF returns_mono[OF assms(1)]])
     (auto intro: returns_mono[OF assms(2)] safe_trans dest: safe_sound)

lemma keep_pair:
  fixes m :: "('b \<times> kernel) c"
  assumes "returns m (\<lambda>(_, k1). safe E k k1)" and "\<And>x k1. sound k1 \<Longrightarrow> returns (f x k1) (safe E k1)"
  shows "returns (bindE m (\<lambda>(x, k1). f x k1)) (safe E k)"
  by (rule returns_bind[OF returns_mono[OF assms(1)]])
     (auto intro: returns_mono[OF assms(2)] safe_trans dest: safe_sound)

lemma keep_bool: "(\<And>x. returns (f x) Q) \<Longrightarrow> returns (bindE (m :: bool c) f) Q"
  by (rule returns_any)

lemma keep_pure:
  "(\<And>x. returns (f x) Q) \<Longrightarrow> returns (bindE (m :: int c) f) Q"
  "(\<And>x. returns (g x) Q) \<Longrightarrow> returns (bindE (n :: nat c) g) Q"
  "(\<And>x. returns (h x) Q) \<Longrightarrow> returns (bindE (b :: cbuf c) h) Q"
  "(\<And>x. returns (i x) Q) \<Longrightarrow> returns (bindE (ch :: char c) i) Q"
  by (rule returns_any, assumption)+

lemma keep_any_pcb:
  "(\<And>x. returns (f x) Q) \<Longrightarrow> returns (bindE (m :: addr c) f) Q"
  "(\<And>x. returns (g x) Q) \<Longrightarrow> returns (bindE (n :: pcb c) g) Q"
  by (rule returns_any, assumption)+

lemma keep_result: "returns m (safe E k) \<Longrightarrow> returns (bindE m (\<lambda>k. Inr (r, k))) (\<lambda>(_, k'). safe E k k')"
  by (rule returns_bind, erule returns_mono) simp

named_theorems keep \<open>commands that keep the kernel state sound\<close>

lemmas keep_rules = returns_if keep_bool keep_pure keep_bind

text \<open>Input and output touch nothing of it.\<close>

lemma sound_io: "sound k \<Longrightarrow> open_as (kio k) s \<Longrightarrow> sound (k\<lparr>kio := s\<rparr>)"
  by (auto simp: sound_def steady_def wf_run_def wf_def running_ok_def wf_pcb_def frames_ok_def live_def
      isolated_def below_def open_as_online)

lemma saved_regs_kio [simp]: "saved_regs (k\<lparr>kio := s\<rparr>) a = saved_regs k a"
  by (simp add: saved_regs_def cong: option.case_cong)

lemma safe_io: "sound k \<Longrightarrow> open_as (kio k) s \<Longrightarrow> safe E k (k\<lparr>kio := s\<rparr>)"
  by (simp add: safe_def sound_io)

lemma keep_on_io: "sound k \<Longrightarrow> returns (f (kio k)) (open_as (kio k)) \<Longrightarrow> returns (on_io f k) (safe E k)"
  unfolding on_io_def by (rule returns_bind, erule returns_mono) (simp add: safe_io)

lemma open_as_set_line: "open_as s (set_line dev t r s)"
  by (simp add: open_as_def same_regs_def set_line_def dlab_def)

lemma keep_kwrite [keep]: "sound k \<Longrightarrow> returns (kwrite b n k) (safe E k)"
  using keep_on_io[of k "sys_req_WRITE COM1 b n"] open_write by (simp add: kwrite_def on_io_def)

lemma keep_say [keep]: "sound k \<Longrightarrow> returns (say b k) (safe E k)"
  by (simp add: say_def returns_any keep_kwrite)

section \<open>Moving a process\<close>

lemma not_running:
  assumes "steady k A" and "queued A a"
  shows "a \<noteq> curProc k" "\<not> queued A (curProc k)"
proof -
  have "a \<noteq> NULL" "rep (pcbq k) A" using assms rep_no_NULL[of "pcbq k" A] by (auto simp: steady_def wf_run_def wf_def queued_def)
  then show "a \<noteq> curProc k" "\<not> queued A (curProc k)"
    using assms rep_no_NULL[of "pcbq k" A] by (auto simp: steady_def wf_run_def running_ok_def queued_def)
qed

lemma safe_requeue:
  assumes st: "steady k A" and wf: "wf (k\<lparr>pcbq := s\<rparr>) B" and q: "\<not> queued B (curProc k)"
    and a: "a \<noteq> curProc k \<or> select_queue r' = select_queue r" "pcbs (pcbq k) a = Some r" "contextPtr r' = contextPtr r"
    and same: "same_pcbs (with_changed a r' (pcbq k)) s"
  shows "safe E k (k\<lparr>pcbq := s\<rparr>)"
proof -
  let ?k = "k\<lparr>pcbq := s\<rparr>"
  have run: "wf k A" "running_ok k A" "isolated k" "below k" using st by (auto simp: steady_def wf_run_def)
  have cp: "map_option contextPtr (pcbs s b) = map_option contextPtr (pcbs (pcbq k) b)" for b
  proof -
    have "map_option contextPtr (pcbs s b) = map_option contextPtr (pcbs (with_changed a r' (pcbq k)) b)"
      using same_pcbs_field[OF same, of contextPtr b] by simp
    then show ?thesis using a(2,3) by (auto simp: with_changed_def)
  qed
  then have dom: "pcbs s b = None \<longleftrightarrow> pcbs (pcbq k) b = None" for b by (metis map_option_is_None)
  have fr: "\<exists>p0. pcbs (pcbq k) b = Some p0 \<and> contextPtr p0 = contextPtr p" if "pcbs s b = Some p" for b p
    using cp[of b] that by (cases "pcbs (pcbq k) b") auto
  have iso: "isolated ?k" unfolding isolated_def
  proof (intro conjI allI impI)
    fix b p assume "pcbs (pcbq ?k) b = Some p"
    then show "0xD000000 \<le> unat b" "unat b + 1076 \<le> 0xD010000" "frame_in b (contextPtr p)"
      using fr[of b p] run(3) unfolding isolated_def by (auto, fastforce+)
  next
    fix b c assume "pcbs (pcbq ?k) b \<noteq> None" "pcbs (pcbq ?k) c \<noteq> None" "b \<noteq> c"
    then show "unat b + 1076 \<le> unat c \<or> unat c + 1076 \<le> unat b"
      using run(3) by (simp add: dom isolated_def)
  next
    assume "curProc ?k \<noteq> NULL"
    then show "system_frame (sysStackPtr ?k)" using run(3) by (simp add: isolated_def)
  qed
  have "running_ok ?k B"
  proof (cases "curProc k = NULL")
    case False
    then have c: "\<not> queued A (curProc k)" "home_of (pcbq k) (curProc k) = Some ReadyQ"
      using run(2) by (auto simp: running_ok_def)
    have "home_of s (curProc k) = home_of (with_changed a r' (pcbq k)) (curProc k)" unfolding home_of_def by (rule same_pcbs_home[OF same])
    then have "home_of s (curProc k) = Some ReadyQ" using c(2) a(1,2) by (auto simp: home_of_def with_changed_def)
    then show ?thesis using run(2) c q by (auto simp: running_ok_def)
  qed (simp add: running_ok_def)
  then have "steady ?k B" using wf iso run(4) by (simp add: steady_def wf_run_def below_def dom)
  moreover have "saved_regs ?k b = saved_regs k b" for b
    using cp[of b] by (cases "pcbs s b"; cases "pcbs (pcbq k) b") (auto simp: saved_regs_def)
  ultimately show ?thesis by (auto simp: safe_def sound_def dom)
qed

text \<open>The process \<open>pcb_find\<close> returns is in a queue, whatever the name.\<close>

lemma find_loop_mem:
  assumes "seg (pcbs s) pv xs NULL"
  shows "\<exists>r. find_loop (pcbs s) nm (first_or NULL xs) = Some r \<and> returns r (\<lambda>p. p = NULL \<or> p \<in> set xs)"
  using assms
proof (induction xs arbitrary: pv)
  case Nil
  then show ?case by (simp add: find_loop.simps)
next
  case (Cons x xs)
  then obtain p where p: "pcbs s x = Some p" "pnext p = first_or NULL xs" "x \<noteq> NULL" "seg (pcbs s) x xs NULL"
    by (auto split: option.splits)
  obtain r where r: "find_loop (pcbs s) nm (first_or NULL xs) = Some r" "returns r (\<lambda>p. p = NULL \<or> p \<in> set xs)"
    using Cons.IH[OF p(4)] by blast
  then have "returns r (\<lambda>p. p = NULL \<or> p \<in> set (x # xs))" by (auto elim!: returns_mono)
  then show ?case using p(1-3) r(1)
    by (subst find_loop.simps) (auto split: sum.splits)
qed

lemma pcb_find_mem:
  assumes rep: "rep s A"
  shows "returns (pcb_find nm s) (\<lambda>p. p = NULL \<or> queued A p)"
proof (cases nm)
  case (Some b)
  have "returns (loop_result (find_loop (pcbs s) b (head (queues s q)))) (\<lambda>p. p = NULL \<or> queued A p)" for q
  proof -
    obtain r where "find_loop (pcbs s) b (first_or NULL (A q)) = Some r" "returns r (\<lambda>p. p = NULL \<or> p \<in> set (A q))"
      using find_loop_mem[OF repD(3)[OF rep]] by blast
    then show ?thesis using repD(1)[OF rep, of q] by (auto simp: queued_def elim!: returns_mono)
  qed
  then show ?thesis unfolding pcb_find_def Some option.case
    by (intro returns_foldE) auto
qed (simp add: pcb_find_def)

lemma keep_find:
  assumes s: "sound k" and none: "returns (f NULL) Q"
    and found: "\<And>A a r. steady k A \<Longrightarrow> queued A a \<Longrightarrow> a \<noteq> NULL \<Longrightarrow> pcbs (pcbq k) a = Some r \<Longrightarrow> returns (f a) Q"
  shows "returns (bindE (pcb_find nm (pcbq k)) f) Q"
proof -
  obtain A where A: "steady k A" using s by (auto simp: sound_def)
  then have rep: "rep (pcbq k) A" by (auto simp: steady_def wf_run_def wf_def)
  show ?thesis
  proof (rule returns_bind[OF returns_mono[OF pcb_find_mem[OF rep]]])
    fix a assume "a = NULL \<or> queued A a"
    then show "returns (f a) Q"
    proof
      assume q: "queued A a"
      then obtain r where "pcbs (pcbq k) a = Some r" "a \<noteq> NULL" using rep_home[OF rep] by (auto simp: queued_def)
      then show ?thesis using found[OF A q] by simp
    qed (use none in simp)
  qed
qed

text \<open>The changes the commands make.\<close>

definition small_change :: "(pcb \<Rightarrow> pcb) \<Rightarrow> pcb \<Rightarrow> bool" where
  "small_change f r \<longleftrightarrow>
     (\<forall>x. unlinked x = unlinked r \<longrightarrow> unlinked (f x) = unlinked (f r) \<and> pnext (f x) = pnext x \<and> pprev (f x) = pprev x) \<and>
     pname (f r) = pname r \<and> 0 \<le> priority (f r) \<and> priority (f r) \<le> 9 \<and> contextPtr (f r) = contextPtr r"

lemma steady_wf: "steady k A \<Longrightarrow> wf k A"
  by (simp add: steady_def wf_run_def)

lemma small_changes:
  assumes "steady k A" and "pcbs (pcbq k) a = Some r"
  shows "small_change (\<lambda>r. r\<lparr>execution_state := e\<rparr>) r" "small_change (\<lambda>r. r\<lparr>dispatch_state := d\<rparr>) r"
    "0 \<le> v \<Longrightarrow> v \<le> 9 \<Longrightarrow> small_change (\<lambda>r. r\<lparr>priority := v\<rparr>) r"
  using wf_pcbD[OF steady_wf[OF assms(1)] assms(2)] by (auto simp: small_change_def wf_pcb_def unlinked_eq_iff)

lemma keep_move:
  assumes st: "steady k A" and a: "queued A a" "pcbs (pcbq k) a = Some r" and f: "small_change f r"
  shows "returns (move_pcb a f k) (safe E k)"
proof -
  obtain q where q: "a \<in> set (A q)" using a(1) by (auto simp: queued_def)
  note c = f[unfolded small_change_def]
  let ?B = "A(q := remove1 a (A q))" and ?q = "select_queue (f r)" and ?t = "with_changed a (f r) (pcbq k)"
  obtain s where s: "move_pcb a f k = Inr (k\<lparr>pcbq := s\<rparr>)" "same_pcbs ?t s"
    "wf (k\<lparr>pcbq := s\<rparr>) (?B(?q := place ?t a ?q (?B ?q)))"
    using move_pcb_ok[OF steady_wf[OF st] q a(2), of f ?q] c by blast
  have "queued A b" if "queued (?B(?q := place ?t a ?q (?B ?q))) b" for b
    using that a(1) by (auto simp: queued_def pq.set_placed split: if_splits dest: set_remove1_subset[THEN subsetD])
  then have "safe E k (k\<lparr>pcbq := s\<rparr>)"
    using not_running[OF st a(1)] c by (intro safe_requeue[OF st s(3) _ _ a(2) _ s(2)]) auto
  then show ?thesis by (simp add: s(1))
qed

lemma keep_redispatch:
  assumes st: "steady k A" and a: "queued A a" "pcbs (pcbq k) a = Some r"
  shows "returns (redispatch a d k) (\<lambda>(_, k'). safe E k k')"
proof -
  obtain q where q: "a \<in> set (A q)" using a(1) by (auto simp: queued_def)
  obtain s where s: "k_remove a k = Inr (0, k\<lparr>pcbq := s\<rparr>)"
    using k_remove_member[OF steady_wf[OF st] q] by metis
  then have "redispatch a d k = bindE (move_pcb a (\<lambda>r. r\<lparr>dispatch_state := d\<rparr>) k) (\<lambda>k. Inr (0, k))"
    by (simp add: redispatch_def move_pcb_def bindE_assoc)
  then show ?thesis using keep_result[OF keep_move[OF st a small_changes(2)[OF st a(2)]]] by simp
qed

lemma keep_delete:
  assumes st: "steady k A" and a: "queued A a" "pcbs (pcbq k) a = Some r"
  shows "returns (k_remove a k) (\<lambda>(_, k'). safe E k k')"
proof -
  obtain q where q: "a \<in> set (A q)" using a(1) by (auto simp: queued_def)
  obtain s where s: "k_remove a k = Inr (0, k\<lparr>pcbq := s\<rparr>)" "same_pcbs (pcbq k) s"
    "wf (k\<lparr>pcbq := s\<rparr>) (A(q := remove1 a (A q)))"
    using k_remove_member[OF steady_wf[OF st] q] by metis
  have "with_changed a r (pcbq k) = pcbq k" using a(2) by (simp add: with_changed_def fun_upd_idem)
  then have "safe E k (k\<lparr>pcbq := s\<rparr>)"
    using s(2) not_running[OF st a(1)]
    by (intro safe_requeue[OF st s(3) _ _ a(2) refl]) (auto simp: queued_def split: if_splits dest: notin_set_remove1)
  then show ?thesis by (simp add: s(1))
qed

section \<open>A new process\<close>

text \<open>\<open>fresh k a\<close>: the state is sound and \<open>a\<close> is a process in no queue that waits to run.\<close>

definition fresh :: "kernel \<Rightarrow> addr \<Rightarrow> bool" where
  "fresh k a \<longleftrightarrow> (\<exists>A. steady k A \<and> \<not> queued A a \<and> a \<noteq> curProc k \<and> a \<noteq> NULL \<and>
     home_of (pcbq k) a = Some ReadyQ \<and> saved_regs k a \<noteq> None)"

lemma fresh_sound: "fresh k a \<Longrightarrow> sound k"
  by (auto simp: fresh_def sound_def)

lemma saved_regs_live:
  "pcbs (pcbq k) a = Some p \<Longrightarrow> saved_regs k a \<noteq> None \<longleftrightarrow> contexts k (contextPtr p) \<noteq> None"
  by (simp add: saved_regs_def)

text \<open>A PCB behind all others keeps the stacks apart.\<close>

lemma isolated_added:
  assumes iso: "isolated k" and k1: "pcbs (pcbq k1) = (pcbs (pcbq k))(a \<mapsto> p0)" "curProc k1 = curProc k"
      "sysStackPtr k1 = sysStackPtr k"
    and a: "0xD000000 \<le> unat a" "unat a + 1076 \<le> 0xD010000" and f: "frame_in a (contextPtr p0)"
    and old: "\<And>b p. pcbs (pcbq k) b = Some p \<Longrightarrow> unat b + 1076 \<le> unat a"
  shows "isolated k1"
  unfolding isolated_def
proof (intro conjI allI impI)
  fix b p assume "pcbs (pcbq k1) b = Some p"
  then show "0xD000000 \<le> unat b" "unat b + 1076 \<le> 0xD010000" "frame_in b (contextPtr p)"
    using iso a f by (auto simp: k1(1) isolated_def split: if_splits)
next
  fix b c assume bc: "pcbs (pcbq k1) b \<noteq> None" "pcbs (pcbq k1) c \<noteq> None" "b \<noteq> c"
  show "unat b + 1076 \<le> unat c \<or> unat c + 1076 \<le> unat b"
  proof (cases "b = a \<or> c = a")
    case True
    then show ?thesis using bc old by (auto simp: k1(1))
  next
    case False
    then show ?thesis using bc iso by (simp add: k1(1) isolated_def)
  qed
next
  assume "curProc k1 \<noteq> NULL"
  then show "system_frame (sysStackPtr k1)" using iso by (simp add: k1(2,3) isolated_def)
qed

lemma add_process_safe:
  fixes cls :: process_class
  assumes st: "steady k A" and room: "room 1076 (kvm k)" and f: "f \<in> E"
    and nm: "NUL \<notin> set str" "length str < 16" and pr: "0 \<le> pr" "pr \<le> 9"
  defines "a \<equiv> heap_addr (kvm k)" and "k1 \<equiv> add_process str cls pr f k"
  shows "safe E k k1" "fresh k1 a"
proof -
  have wf: "wf k A" and run: "running_ok k A" "isolated k" "below k" using st by (auto simp: steady_def wf_run_def)
  let ?p = "setup_pcb str cls pr a"
  have sel: "pcbs (pcbq k1) = (pcbs (pcbq k))(a \<mapsto> ?p)" "contexts k1 = (contexts k)(frame_of a \<mapsto> first_frame f a)"
    "curProc k1 = curProc k" "sysStackPtr k1 = sysStackPtr k" "heap_addr (kvm k1) = a + 1076"
    by (simp_all add: k1_def a_def add_process_def Let_def first_frame_def)
  have cp: "contextPtr ?p = frame_of a" by (simp add: setup_pcb_def fresh_pcb_def)
  have new: "pcbs (pcbq k) a = None" "\<not> queued A a" using heap_addr_fresh[OF wf] by (simp_all add: a_def)
  have h: "0xD000000 \<le> unat a" "unat a + 1076 \<le> 0xD010000" "unat (a + 1076) = unat a + 1076" "unat (a + 1016) = unat a + 1016"
    using wfD(2)[OF wf] room heap_offset[OF wfD(2)[OF wf] room, of 1076] heap_offset[OF wfD(2)[OF wf] room, of 1016]
    by (simp_all add: a_def heap_wf_def room_def)
  have old: "unat b + 1076 \<le> unat a" if "pcbs (pcbq k) b = Some p" for b p
    using run(3) that by (simp add: below_def a_def)
  have ra: "0xD000000 \<le> unat b \<and> unat b + 1076 \<le> 0xD010000 \<and> frame_in b (contextPtr p)" if "pcbs (pcbq k) b = Some p" for b p
    using run(2) that by (simp add: isolated_def)
  have fp: "contextPtr p \<noteq> frame_of a" if "pcbs (pcbq k) b = Some p" for b p
    using old[OF that] ra[OF that] h(4) by (auto simp: frame_in_def frame_of_def)
  have "frame_in a (contextPtr ?p)" using h(4) by (simp add: cp frame_in_def frame_of_def)
  then have iso: "isolated k1" using isolated_added[OF run(2) sel(1,3,4) h(1,2)] old by blast
  have cur: "curProc k \<noteq> a" using run(1) new heap_addr_nonzero[OF wfD(2)[OF wf]]
    by (auto simp: running_ok_def home_of_def a_def)
  have wf1: "wf k1 A" unfolding k1_def by (rule wf_add_process[OF wf room nm pr])
  have "running_ok k1 A" using run(1) cur by (auto simp: running_ok_def sel home_of_def)
  moreover have "below k1" using old h(3) by (auto simp: below_def sel split: if_splits) (metis add_leD1 le_trans)
  ultimately have st1: "steady k1 A" using wf1 iso by (simp add: steady_def wf_run_def)
  have sv: "saved_regs k1 b = saved_regs k b" if "pcbs (pcbq k) b \<noteq> None" for b
    using that fp[of b] new by (auto simp: saved_regs_def sel)
  have sa: "saved_regs k1 a = Some (first_frame f a)"
    by (simp add: saved_regs_def sel cp first_frame_def initial_frame_def)
  show "safe E k k1"
    using st1 sv sa f new by (auto simp: safe_def sound_def sel)
  show "fresh k1 a"
    unfolding fresh_def using st1 new cur sa heap_addr_nonzero[OF wfD(2)[OF wf]]
    by (intro exI[of _ A]) (auto simp: sel home_of_def a_def select_queue_def setup_pcb_def fresh_pcb_def zero_pcb_def)
qed

lemma strlen_returns: "strlen s = Inr n \<Longrightarrow> terminated s"
proof -
  have "strlen_loop s m = Inr n \<Longrightarrow> terminated s" for m
    by (induction s m rule: strlen_loop.induct) (auto split: if_splits)
  then show "strlen s = Inr n \<Longrightarrow> terminated s" by (simp add: strlen_def)
qed

lemma keep_setup:
  assumes s: "sound k" and f: "f \<in> E"
  shows "returns (pcb_setup nm cls pr f k) (\<lambda>(a, k'). safe E k k' \<and> (a \<noteq> NULL \<longrightarrow> fresh k' a))"
proof (cases "\<exists>b. nm = Some b \<and> terminated b")
  case False
  then show ?thesis using s by (auto simp: pcb_setup_def returns_def bindE_eq_Inr dest: strlen_returns split: option.splits)
next
  case True
  then obtain b where b: "nm = Some b" "terminated b" by blast
  obtain A where A: "steady k A" using s by (auto simp: sound_def)
  note r = pcb_setup_all[OF steady_wf[OF A] b(2), of cls pr f]
  have e: "safe E k (emit str k)" for str
    using safe_io[OF s open_as_set_line] by (simp add: emit_def)
  show ?thesis using add_process_safe[OF A _ f, of "text_of b" pr cls] s e
    by (simp add: r[THEN conjunct1] b(1))
qed

lemma keep_insert:
  assumes fr: "fresh k a"
  shows "returns (k_insert a k) (safe E k)"
proof -
  obtain A where A: "steady k A" "\<not> queued A a" "a \<noteq> curProc k" "home_of (pcbq k) a = Some ReadyQ" "saved_regs k a \<noteq> None"
    using fr by (auto simp: fresh_def)
  have live: "live k (contextPtr p)" if p: "pcbs (pcbq k) a = Some p" for p
  proof -
    have "frame_in a (contextPtr p)" "0xD000000 \<le> unat a" using A(1) p by (auto simp: steady_def isolated_def)
    then have "contextPtr p \<noteq> NULL" by (auto simp: frame_in_def)
    then show ?thesis using A(5) saved_regs_live[OF p] by (simp add: live_def)
  qed
  obtain s where s: "k_insert a k = Inr (k\<lparr>pcbq := s\<rparr>)" "same_pcbs (pcbq k) s"
    "wf (k\<lparr>pcbq := s\<rparr>) (A(ReadyQ := place (pcbq k) a ReadyQ (A ReadyQ)))"
    by (rule k_insert_detached[OF steady_wf[OF A(1)] A(2,4) live])
  obtain p where p: "pcbs (pcbq k) a = Some p" using A(4) by (auto simp: home_of_def)
  have "with_changed a p (pcbq k) = pcbq k" using p by (simp add: with_changed_def fun_upd_idem)
  moreover have "\<not> queued (A(ReadyQ := place (pcbq k) a ReadyQ (A ReadyQ))) (curProc k)" if "curProc k \<noteq> NULL"
    using A(1,3) that by (auto simp: steady_def wf_run_def running_ok_def queued_def pq.set_placed split: if_splits)
  moreover have "\<not> queued (A(ReadyQ := place (pcbq k) a ReadyQ (A ReadyQ))) NULL"
    using rep_no_NULL[OF wfD(1)[OF s(3)]] by (auto simp: queued_def)
  ultimately have "safe E k (k\<lparr>pcbq := s\<rparr>)"
    using s(2) by (intro safe_requeue[OF A(1) s(3) _ disjI1[OF A(3)] p refl]) (cases "curProc k = NULL", auto)
  then show ?thesis by (simp add: s(1))
qed

lemma keep_pargs:
  assumes fr: "fresh k a"
  shows "returns (modify_pcb a (\<lambda>p. p\<lparr>pargs := d\<rparr>) k) (\<lambda>k'. safe E k k' \<and> fresh k' a)"
proof -
  obtain A where A: "steady k A" "\<not> queued A a" "a \<noteq> curProc k" "a \<noteq> NULL" "home_of (pcbq k) a = Some ReadyQ" "saved_regs k a \<noteq> None"
    using fr by (auto simp: fresh_def)
  obtain p where p: "pcbs (pcbq k) a = Some p" using A(5) by (auto simp: home_of_def)
  let ?s = "with_changed a (p\<lparr>pargs := d\<rparr>) (pcbq k)"
  have "wf_pcb k a (p\<lparr>pargs := d\<rparr>)" using wf_pcbD[OF steady_wf[OF A(1)] p] by (simp add: wf_pcb_def)
  note m = modify_detached[OF steady_wf[OF A(1)] A(2) p, of "\<lambda>p. p\<lparr>pargs := d\<rparr>", OF this, folded with_changed_def]
  have nq: "\<not> queued A (curProc k)"
    using A(1) rep_no_NULL[OF wfD(1)[OF steady_wf[OF A(1)]]] by (auto simp: steady_def wf_run_def running_ok_def queued_def)
  have s: "safe E k (k\<lparr>pcbq := ?s\<rparr>)" for E
    by (rule safe_requeue[OF A(1) _ nq disjI1[OF A(3)] p, where r' = "p\<lparr>pargs := d\<rparr>"]) (use m in \<open>simp_all add: same_pcbs_def\<close>)
  have st: "steady (k\<lparr>pcbq := ?s\<rparr>) A"
  proof -
    obtain B where B: "steady (k\<lparr>pcbq := ?s\<rparr>) B" using s by (auto simp: safe_def sound_def)
    have "running_ok (k\<lparr>pcbq := ?s\<rparr>) A"
      using A(1) p A(3) by (auto simp: steady_def wf_run_def running_ok_def home_of_def with_changed_def)
    then show ?thesis using B m(2) by (simp add: steady_def wf_run_def)
  qed
  have "saved_regs (k\<lparr>pcbq := ?s\<rparr>) a = saved_regs k a" using s p by (simp add: safe_def)
  then have "fresh (k\<lparr>pcbq := ?s\<rparr>) a"
    unfolding fresh_def using st A p
    by (intro exI[of _ A]) (auto simp: home_of_def with_changed_def select_queue_def split: if_splits)
  then show ?thesis using s m by simp
qed

section \<open>The commands\<close>

lemmas text_commands = show_pcb_help_def block_help_def unblock_help_def suspend_help_def resume_help_def
  set_priority_help_def create_help_def delete_help_def load_help_def

lemma keep_text_commands [keep]:
  assumes "sound k"
  shows "returns (show_pcb_help k) (safe E k)" "returns (block_help k) (safe E k)" "returns (unblock_help k) (safe E k)"
    "returns (suspend_help k) (safe E k)" "returns (resume_help k) (safe E k)" "returns (set_priority_help k) (safe E k)"
    "returns (create_help k) (safe E k)" "returns (delete_help k) (safe E k)" "returns (load_help k) (safe E k)"
  by (simp_all add: text_commands keep_say[OF assms])

lemma keep_block [keep]:
  assumes s: "sound k"
  shows "returns (block_pcb nm k) (safe E k)" "returns (unblock_pcb nm k) (safe E k)"
proof -
  have "returns (block_pcb nm k) (safe E k) \<and> returns (unblock_pcb nm k) (safe E k)"
    unfolding block_pcb_def unblock_pcb_def
  proof (intro conjI; rule keep_find[OF s])
    show "returns (bindE (load NULL (pcbq k)) f) (safe E k)" for f by (simp add: load_def)
    show "returns (bindE (load NULL (pcbq k)) f) (safe E k)" for f by (simp add: load_def)
  qed (auto simp: load_live intro!: keep_rules keep keep_move small_changes s)
  then show "returns (block_pcb nm k) (safe E k)" "returns (unblock_pcb nm k) (safe E k)" by simp_all
qed

lemma keep_block_command [keep]:
  assumes s: "sound k"
  shows "returns (block_pcb_command args k) (safe E k)" "returns (unblock_pcb_command args k) (safe E k)"
  unfolding block_pcb_command_def unblock_pcb_command_def
  by (intro keep_rules keep s; assumption?)+

lemma keep_suspend:
  assumes s: "sound k"
  shows "returns (suspend_pcb nm k) (\<lambda>(_, k'). safe E k k')" "returns (resume_pcb nm k) (\<lambda>(_, k'). safe E k k')"
proof -
  have "returns (suspend_pcb nm k) (\<lambda>(_, k'). safe E k k')"
    unfolding suspend_pcb_def
    by (intro keep_bool returns_if keep_find[OF s]) (auto simp: s load_live intro!: keep_redispatch)
  moreover have "returns (resume_pcb nm k) (\<lambda>(_, k'). safe E k k')"
    unfolding resume_pcb_def
    by (intro keep_bool returns_if keep_find[OF s]) (auto simp: s load_live intro!: keep_redispatch)
  ultimately show "returns (suspend_pcb nm k) (\<lambda>(_, k'). safe E k k')" "returns (resume_pcb nm k) (\<lambda>(_, k'). safe E k k')"
    by simp_all
qed

lemma keep_suspend_command [keep]:
  assumes s: "sound k"
  shows "returns (suspend_command args k) (safe E k)"
  unfolding suspend_command_def
  by (intro keep_rules keep_pair keep s keep_suspend; assumption?)

lemma keep_resume_loop:
  assumes "resume_loop p k = Some r" and "sound k"
  shows "returns r (safe E k)"
proof -
  have "sound k \<longrightarrow> returns r (safe E k)"
  proof (rule resume_loop.raw_induct[OF _ assms(1)])
    fix loop p k r
    assume IH: "\<And>p k r. loop p k = Some r \<Longrightarrow> sound k \<longrightarrow> returns r (safe E k)"
      and r: "(if p = NULL then Some (Inr k)
      else case load p (pcbq k) of
        Inl e \<Rightarrow> Some (Inl e)
      | Inr q \<Rightarrow>
          (case resume_pcb (Some (pname q)) k of
             Inl e \<Rightarrow> Some (Inl e)
           | Inr (_, k) \<Rightarrow> loop (pnext q) k)) = Some r"
    show "sound k \<longrightarrow> returns r (safe E k)"
    proof
      assume s: "sound k"
      show "returns r (safe E k)"
      proof (cases "p \<noteq> NULL \<and> (\<exists>q x k1. load p (pcbq k) = Inr q \<and> resume_pcb (Some (pname q)) k = Inr (x, k1))")
        case True
        then obtain q x k1 where q: "load p (pcbq k) = Inr q" "resume_pcb (Some (pname q)) k = Inr (x, k1)" "p \<noteq> NULL"
          by blast
        have k1: "safe E k k1" using returnsD[OF keep_suspend(2)[OF s] q(2)] by simp
        have "returns r (safe E k1)" using r IH[of "pnext q" k1 r] safe_sound[OF k1] q by simp
        then show ?thesis by (rule returns_mono) (rule safe_trans[OF k1])
      next
        case False
        then have "r = Inr k \<or> (\<exists>e. r = Inl e)" using r by (auto split: if_splits sum.splits)
        then show ?thesis using s by auto
      qed
    qed
  qed
  then show ?thesis using assms(2) by simp
qed

lemma keep_loop_result: "(\<And>r. m = Some r \<Longrightarrow> returns r Q) \<Longrightarrow> returns (loop_result m) Q"
  by (cases m) (auto simp: loop_result_def)

lemma keep_resume_command [keep]:
  assumes s: "sound k"
  shows "returns (resume_command args k) (safe E k)"
  unfolding resume_command_def Let_def
  by (intro keep_rules keep_pair keep s keep_suspend keep_loop_result keep_resume_loop; assumption?)

lemma keep_setPriority [keep]:
  assumes s: "sound k"
  shows "returns (setPriority nm v k) (safe E k)"
  unfolding setPriority_def
proof (rule keep_find[OF s])
  fix A a r
  assume a: "steady k A" "queued A a" "a \<noteq> NULL" "pcbs (pcbq k) a = Some r"
  then show "returns (if a = NULL then kwrite (lit no_process_text) 56 k
      else bindE (load a (pcbq k)) (\<lambda>r.
        if process_class r = CLASS_SYSTEM then kwrite (lit system_process_text) 74 k
        else if v > 9 \<or> v < 0 then kwrite (lit bad_priority_text) 86 k
        else if v \<le> 9 \<and> v \<ge> 0 then move_pcb a (\<lambda>r. r\<lparr>priority := v\<rparr>) k
        else Inr k)) (safe E k)"
    using s by (auto simp: load_live intro!: keep_move keep small_changes)
qed (use s in \<open>simp add: keep_kwrite\<close>)

lemma keep_set_priority_command [keep]:
  assumes s: "sound k"
  shows "returns (set_priority_command args k) (safe E k)"
  unfolding set_priority_command_def Let_def
  by (intro keep_rules keep s; assumption?)

lemma keep_create_command [keep]:
  assumes s: "sound k"
  shows "returns (create_pcb_command args k) (safe E k)"
  unfolding create_pcb_command_def
  by (intro keep_rules keep s; assumption?) (use s in simp)

lemma pcb_free_same: "returns (pcb_free a k) (\<lambda>(_, k'). k' = k)"
  by (auto simp: pcb_free_def returns_def bindE_eq_Inr split: if_splits)

lemma keep_delete_pcb [keep]:
  assumes s: "sound k"
  shows "returns (delete_pcb nm k) (safe E k)"
  unfolding delete_pcb_def
proof (rule keep_find[OF s])
  fix A a r
  assume a: "steady k A" "queued A a" "a \<noteq> NULL" "pcbs (pcbq k) a = Some r"
  have "returns (bindE (k_remove a k) (\<lambda>(_, k). bindE (pcb_free a k) (\<lambda>(_, k). kwrite (lit deleted_text) 39 k))) (safe E k)"
    by (intro keep_pair keep_delete[OF a(1,2,4)] keep returns_mono[OF pcb_free_same]; assumption?) auto
  then show "returns (if a = NULL then kwrite (lit no_such_name_text) 53 k
     else bindE (bad_name nm) (\<lambda>bad.
       if bad then bindE (kwrite (lit (ESC #
                                       ''[31mInvalid Name: Given name must be 1-16 characters'' @
                                       ESC # ''[0m'' @ [LF])) 59 k) delete_help
       else bindE (load a (pcbq k)) (\<lambda>r.
         if process_class r = CLASS_SYSTEM
         then kwrite (lit system_process_text) 74 k
         else bindE (k_remove a k) (\<lambda>(_, k).
              bindE (pcb_free a k) (\<lambda>(_, k).
              kwrite (lit deleted_text) 39 k))))) (safe E k)"
    using a(3,4) s by (auto simp: load_live intro!: keep_rules keep)
qed (use s in \<open>simp add: keep_kwrite\<close>)

lemma keep_delete_command [keep]:
  assumes s: "sound k"
  shows "returns (delete_pcb_command args k) (safe E k)"
  unfolding delete_pcb_command_def
  by (intro keep_rules keep s; assumption?)

text \<open>Loading: the entry points are in \<open>E\<close>.\<close>

lemma k_insert_NULL: "k_insert NULL k = Inr k"
  by (simp add: k_insert_def on_pcbs_def pcb_insert_def)

lemma keep_load_proc [keep]:
  assumes s: "sound k" and e: "entry i \<in> E"
  shows "returns (load_proc entry nm i k) (safe E k)"
  unfolding load_proc_def
proof (rule returns_bind[OF returns_mono[OF keep_setup[OF s e]]])
  fix r assume r: "case r of (a, k') \<Rightarrow> safe E k k' \<and> (a \<noteq> NULL \<longrightarrow> fresh k' a)"
  obtain a k1 where "r = (a, k1)" by fastforce
  then show "returns (case r of (a, k) \<Rightarrow> k_insert a k) (safe E k)"
    using r keep_insert[of k1 a E] safe_sound[of E k k1]
    by (cases "a = NULL") (auto simp: k_insert_NULL intro: safe_trans elim!: returns_mono)
qed

lemma keep_load_command [keep]:
  assumes s: "sound k" and e: "\<forall>i\<in>{1..<6}. entry i \<in> E"
  shows "returns (load_command entry args k) (safe E k)"
proof -
  have all: "sound k \<Longrightarrow> returns (loadR3 entry k) (safe E k)" for k
    unfolding loadR3_def by (intro keep_rules keep; (assumption | simp add: e)?)
  have "sound k \<Longrightarrow> returns (loadR3_suspended entry k) (safe E k)" for k
    unfolding loadR3_suspended_def by (intro keep_bind all keep_pair keep_suspend; (assumption | simp))
  moreover have "sound k \<Longrightarrow> returns (loadProcess entry nm k) (safe E k)" for nm k
    unfolding loadProcess_def by (intro keep_rules keep; (assumption | simp add: e)?)
  ultimately show ?thesis unfolding load_command_def using s
    by (intro keep_rules keep all; (assumption | rule e)?)
qed

lemma keep_showPCB [keep]:
  assumes s: "sound k"
  shows "returns (showPCB mem nm k) (safe E k)"
  unfolding showPCB_def
  by (intro keep_rules keep_any_pcb keep s; assumption?)

lemma keep_show_turn:
  assumes s: "sound k"
  shows "returns (show_turn mem a k) (\<lambda>(_, k'). safe E k k')"
proof -
  have "returns (showPCB mem nm k) (\<lambda>k. returns (bindE (load a (pcbq k)) (\<lambda>p. Inr (pnext p, k))) (\<lambda>(_, k'). safe E k1 k'))"
    if "safe E k1 k" for nm k1 k
    by (rule returns_mono[OF keep_showPCB[OF safe_sound[OF that]]], rule returns_any) (auto intro: safe_trans[OF that])
  then show ?thesis unfolding show_turn_def using s
    by (intro returns_any[where m = "load a (pcbq k)"] returns_bind) simp
qed

lemma keep_show_loop:
  assumes "show_loop mem p k = Some r" and "sound k"
  shows "returns r (safe E k)"
proof -
  have "sound k \<longrightarrow> returns r (safe E k)"
  proof (rule show_loop.raw_induct[OF _ assms(1)])
    fix loop mem p k r
    assume IH: "\<And>mem p k r. loop mem p k = Some r \<Longrightarrow> sound k \<longrightarrow> returns r (safe E k)"
      and r: "(if p = NULL then Some (Inr k)
      else case show_turn mem p k of
             Inl e \<Rightarrow> Some (Inl e)
           | Inr s \<Rightarrow> loop mem (fst s) (snd s)) = Some r"
    show "sound k \<longrightarrow> returns r (safe E k)"
    proof
      assume s: "sound k"
      show "returns r (safe E k)"
      proof (cases "p \<noteq> NULL \<and> (\<exists>t. show_turn mem p k = Inr t)")
        case True
        then obtain t where t: "show_turn mem p k = Inr t" "p \<noteq> NULL" by blast
        have k1: "safe E k (snd t)" using returnsD[OF keep_show_turn[OF s] t(1)] by (simp add: split_beta)
        have "returns r (safe E (snd t))" using r IH[of mem "fst t" "snd t" r] safe_sound[OF k1] t by simp
        then show ?thesis by (rule returns_mono) (rule safe_trans[OF k1])
      next
        case False
        then have "r = Inr k \<or> (\<exists>e. r = Inl e)" using r by (auto split: if_splits sum.splits)
        then show ?thesis using s by auto
      qed
    qed
  qed
  then show ?thesis using assms(2) by simp
qed

lemma keep_show_queue [keep]:
  assumes s: "sound k"
  shows "returns (show_queue mem q none some k) (safe E k)"
  unfolding show_queue_def Let_def
  by (intro keep_rules keep s keep_loop_result keep_show_loop; assumption?)

lemma keep_show_command [keep]:
  assumes s: "sound k"
  shows "returns (show_command mem args k) (safe E k)"
  unfolding show_command_def showAllPCB_def showReady_def showBlocked_def showSuspended_def
  by (intro keep_rules keep s; assumption?)

lemma keep_version_latest [keep]:
  assumes s: "sound k"
  shows "returns (version_latest mem gi k) (safe E k)"
  unfolding version_latest_def
  by (intro returns_any[where m = "put_chars _ _"] keep_pure)
     (auto intro!: keep_rules keep_kwrite s split: prod.split)

lemma keep_shell [keep]:
  assumes s: "sound k"
  shows "returns (version_command mem gi args k) (safe E k)" "returns (help_command args k) (safe E k)"
    "returns (com_startup mem gi k) (safe E k)"
proof -
  have h: "returns (help_verbose k) (safe E k)"
    unfolding help_verbose_def
  proof (rule returns_foldE)
    fix f k1
    assume f: "f \<in> set [help_help, exit_help, version_help, on_io clock_help, create_help, delete_help,
        show_pcb_help, set_priority_help, suspend_help, resume_help, block_help, unblock_help,
        yield_help, load_help, say (lit (CR # [LF])),
        say (lit (ESC # ''[33mclear'' @ ESC # ''[0m clears the terminal'' @ CR # [LF]))]"
      and k1: "safe E k k1"
    have "returns (f k1) (safe E k1)"
      using f safe_sound[OF k1]
      by (auto simp: help_help_def exit_help_def version_help_def yield_help_def intro!: keep keep_on_io open_help)
    then show "returns (f k1) (safe E k)" by (rule returns_mono) (rule safe_trans[OF k1])
  qed (use s in simp)
  show "returns (version_command mem gi args k) (safe E k)"
    unfolding version_command_def version_history_def version_help_def by (intro keep_rules keep s; assumption?)
  show "returns (help_command args k) (safe E k)"
    unfolding help_command_def help_message_def help_help_def by (intro keep_rules keep s h; assumption?)
  show "returns (com_startup mem gi k) (safe E k)"
    unfolding com_startup_def by (intro keep_rules keep s; assumption?)
qed

lemma keep_clock [keep]: "sound k \<Longrightarrow> returns (on_io (clock_command mem args) k) (safe E k)"
  by (rule keep_on_io, assumption, rule open_clock)

lemma keep_exit_turn:
  assumes s: "sound k"
  shows "returns (exit_turn k) (\<lambda>(_, k'). safe E k k')"
proof -
  have say: "safe E k k1 \<Longrightarrow> returns (bindE (say b k1) (\<lambda>k. Inr (r, k))) (\<lambda>(_, k'). safe E k k')" for b k1 and r :: "int option"
    by (rule keep_result, rule returns_mono[OF keep_say[OF safe_sound]], assumption) (rule safe_trans)
  show ?thesis unfolding exit_turn_def Let_def
    by (rule returns_bind[OF returns_mono[OF open_read]])
       (auto intro!: keep_pure returns_if say safe_io s)
qed

lemma keep_exit_loop:
  assumes "exit_loop k = Some r" and "sound k"
  shows "returns r (\<lambda>(_, k'). safe E k k')"
proof -
  have "sound k \<longrightarrow> returns r (\<lambda>(_, k'). safe E k k')"
  proof (rule exit_loop.raw_induct[OF _ assms(1)])
    fix loop k r
    assume IH: "\<And>k r. loop k = Some r \<Longrightarrow> sound k \<longrightarrow> returns r (\<lambda>(_, k'). safe E k k')"
      and r: "(case exit_turn k of
        Inl e \<Rightarrow> Some (Inl e)
      | Inr s \<Rightarrow> (case fst s of Some r \<Rightarrow> Some (Inr (r, snd s)) | None \<Rightarrow> loop (snd s))) = Some r"
    show "sound k \<longrightarrow> returns r (\<lambda>(_, k'). safe E k k')"
    proof
      assume s: "sound k"
      show "returns r (\<lambda>(_, k'). safe E k k')"
      proof (cases "exit_turn k")
        case (Inl e)
        then show ?thesis using r by auto
      next
        case (Inr t)
        then have k1: "safe E k (snd t)" using returnsD[OF keep_exit_turn[OF s] Inr] by (simp add: split_beta)
        have "returns r' (\<lambda>(_, k'). safe E k k')" if "loop (snd t) = Some r'" for r'
          using returns_mono[OF IH[OF that, THEN mp, OF safe_sound[OF k1]]] safe_trans[OF k1] by fastforce
        then show ?thesis using r Inr k1 by (auto split: option.splits)
      qed
    qed
  qed
  then show ?thesis using assms(2) by simp
qed

lemma keep_exit_command:
  assumes s: "sound k"
  shows "returns (exit_command args k) (\<lambda>(_, k'). safe E k k')"
proof -
  have say: "returns (bindE (say b k) f) (\<lambda>(_, k'). safe E k k')"
    if "\<And>k1. sound k1 \<Longrightarrow> returns (f k1) (\<lambda>(_, k'). safe E k1 k')" for b and f :: "kernel \<Rightarrow> (int \<times> kernel) c"
    by (rule returns_bind[OF returns_mono[OF keep_say[OF s]]])
       (auto intro: returns_mono[OF that] safe_trans dest: safe_sound)
  have hlp: "sound k1 \<Longrightarrow> returns (bindE (exit_help k1) (\<lambda>k. Inr (0, k))) (\<lambda>(_ :: int, k'). safe E k1 k')" for k1
    unfolding exit_help_def by (rule keep_result) (rule keep_say)
  have loop: "sound k1 \<Longrightarrow> returns (loop_result (exit_loop k1)) (\<lambda>(_, k'). safe E k1 k')" for k1
    by (rule keep_loop_result) (rule keep_exit_loop)
  show ?thesis unfolding exit_command_def
    by (intro keep_bool returns_if say loop hlp) (simp_all add: s)
qed

section \<open>The state with the alarms\<close>

abbreviation (input) kept :: "addr set \<Rightarrow> kernel \<Rightarrow> system \<Rightarrow> bool" where
  "kept E k \<equiv> (\<lambda>s'. safe E k (kern s'))"

lemma sys_bind:
  fixes m :: "system c"
  assumes "returns m (kept E k)" and "\<And>s1. sound (kern s1) \<Longrightarrow> returns (f s1) (kept E (kern s1))"
  shows "returns (bindE m f) (kept E k)"
  by (rule returns_bind[OF returns_mono[OF assms(1)]])
     (auto intro: returns_mono[OF assms(2)] safe_trans dest: safe_sound)

lemma sys_kern: "kern s = k \<Longrightarrow> returns (f k) (safe E k) \<Longrightarrow> returns (on_kern f s) (kept E k)"
  by (auto simp: on_kern_def returns_def bindE_eq_Inr)

lemma sys_say: "kern s = k \<Longrightarrow> sound k \<Longrightarrow> returns (on_kern (say b) s) (kept E k)"
  "kern s = k \<Longrightarrow> sound k \<Longrightarrow> returns (on_kern (kwrite b n) s) (kept E k)"
  by (rule sys_kern, assumption, erule keep)+

lemma keep_alloc:
  assumes s: "sound k" and sz: "unat sz \<le> 0x10000"
  shows "returns (k_alloc sz k) (\<lambda>(_, k'). safe E k k')"
proof -
  obtain A where A: "steady k A" using s by (auto simp: sound_def)
  show ?thesis
  proof (cases "room (unat sz) (kvm k)")
    case False
    then show ?thesis using k_alloc_full[OF wfD(2)[OF steady_wf[OF A]]] sz by simp
  next
    case True
    let ?k = "k\<lparr>kvm := (kvm k)\<lparr>heap_addr := heap_addr (kvm k) + sz\<rparr>\<rparr>"
    note al = k_alloc_wf[OF steady_wf[OF A] True]
    have "unat (heap_addr (kvm k)) \<le> unat (heap_addr (kvm k) + sz)"
      using k_alloc_room(2)[OF wfD(2)[OF steady_wf[OF A]] True] by simp
    then have "steady ?k A" using A al(2)
      by (auto simp: steady_def wf_run_def running_ok_def isolated_def below_def intro: le_trans)
    moreover have "saved_regs ?k a = saved_regs k a" for a by (simp add: saved_regs_def cong: option.case_cong)
    ultimately have "safe E k ?k" by (auto simp: safe_def sound_def)
    then show ?thesis by (simp add: al(1))
  qed
qed

lemma sys_alloc:
  assumes "kern s = k" "sound k" "unat sz \<le> 0x10000"
    and "\<And>a k1. sound k1 \<Longrightarrow> returns (f a k1) (kept E k1)"
  shows "returns (bindE (k_alloc sz (kern s)) (\<lambda>(a, k). f a k)) (kept E k)"
  unfolding assms(1)
  by (rule returns_bind[OF returns_mono[OF keep_alloc[OF assms(2,3)]]])
     (auto intro: returns_mono[OF assms(4)] safe_trans dest: safe_sound)

lemma sys_setup:
  assumes "kern s = k" "sound k" "entry \<in> E"
    and "\<And>k1. sound k1 \<Longrightarrow> returns (f NULL k1) (kept E k1)"
    and "\<And>a k1. a \<noteq> NULL \<Longrightarrow> fresh k1 a \<Longrightarrow> returns (f a k1) (kept E k1)"
  shows "returns (bindE (pcb_setup nm cls pr entry (kern s)) (\<lambda>(a, k). f a k)) (kept E k)"
  unfolding assms(1)
proof (rule returns_bind[OF returns_mono[OF keep_setup[OF assms(2,3)]]])
  fix r assume r: "case r of (a, k') \<Rightarrow> safe E k k' \<and> (a \<noteq> NULL \<longrightarrow> fresh k' a)"
  obtain a k1 where rk: "r = (a, k1)" by fastforce
  then have k1: "safe E k k1" "a \<noteq> NULL \<Longrightarrow> fresh k1 a" using r by auto
  have "returns (f a k1) (kept E k1)"
    using assms(4)[OF safe_sound[OF k1(1)]] assms(5)[OF _ k1(2)] by (cases "a = NULL") auto
  then show "returns (case r of (a, k) \<Rightarrow> f a k) (kept E k)"
    unfolding rk prod.case by (rule returns_mono) (rule safe_trans[OF k1(1)])
qed

lemma sys_start:
  assumes fr: "fresh k a" and s: "kern s = k"
  shows "returns (bindE (on_kern (modify_pcb a (\<lambda>p. p\<lparr>pargs := d\<rparr>)) s) (\<lambda>s.
     bindE (on_kern (k_insert a) s) (on_kern (say b)))) (kept E k)"
proof -
  have "returns (on_kern (modify_pcb a (\<lambda>p. p\<lparr>pargs := d\<rparr>)) s) (\<lambda>s'. safe E k (kern s') \<and> fresh (kern s') a)"
    unfolding on_kern_def s by (rule returns_bind, rule returns_mono[OF keep_pargs[OF fr]]) auto
  then show ?thesis
  proof (rule returns_bind[OF returns_mono])
    fix s1 :: system assume s1: "safe E k (kern s1) \<and> fresh (kern s1) a"
    have "returns (bindE (on_kern (k_insert a) s1) (on_kern (say b))) (kept E (kern s1))"
      by (intro sys_bind sys_kern sys_say keep_insert) (use s1 in auto)
    then show "returns (bindE (on_kern (k_insert a) s1) (on_kern (say b))) (kept E k)"
      by (rule returns_mono) (use s1 in \<open>auto intro: safe_trans\<close>)
  qed
qed

lemma sys_alarm_data: "(\<And>x. returns (f x) Q) \<Longrightarrow> returns (bindE (m :: alarm_data c) f) Q"
  by (rule returns_any)

lemma on_kern_free [simp]: "on_kern (k_free d) s = Inr s"
  by (simp add: on_kern_def)

lemma keep_alarm_create:
  assumes s: "kern s = k" "sound k" and e: "entry \<in> E"
  shows "returns (alarm_create mem entry data s) (kept E k)"
  unfolding alarm_create_def Let_def on_kern_free bindE.simps
  by (intro sys_alloc returns_if sys_alarm_data keep_pure sys_setup sys_start sys_say)
     (simp_all add: s e)

lemma keep_alarm_command:
  assumes s: "sound (kern s)" and e: "entry \<in> E"
  shows "returns (alarm_command mem entry args s) (kept E (kern s))"
proof -
  have hlp: "kern s = k \<Longrightarrow> sound k \<Longrightarrow> returns (alarm_help s) (kept E k)" for s k
    unfolding alarm_help_def by (rule sys_say)
  have err: "kern s = k \<Longrightarrow> sound k \<Longrightarrow> returns (alarm_error b s) (kept E k)" for s k b
    unfolding alarm_error_def by (intro sys_bind sys_say hlp) simp_all
  show ?thesis
    unfolding alarm_command_def Let_def
    by (intro keep_bool keep_pure returns_if err hlp sys_bind sys_say sys_alloc keep_alarm_create)
       (simp_all add: s e)
qed

section \<open>The turns of the processes\<close>

definition entries :: "env \<Rightarrow> addr set" where
  "entries env = proc_entry env ` {1..<6} \<union> {alarm_entry env}"

lemma entries_proc: "\<forall>i\<in>{1..<6}. proc_entry env i \<in> entries env" "alarm_entry env \<in> entries env"
  by (auto simp: entries_def)

fun state_after :: "'a after \<Rightarrow> 'a" where
  "state_after (Go_On s) = s"
| "state_after (Exit_Request s) = s"
| "state_after (Return s) = s"

abbreviation (input) kept_after :: "addr set \<Rightarrow> kernel \<Rightarrow> system after \<Rightarrow> bool" where
  "kept_after E k \<equiv> (\<lambda>r. safe E k (kern (state_after r)))"

lemma after_go_on: "returns m (kept E k) \<Longrightarrow> returns (go_on m) (kept_after E k)"
  unfolding go_on_def by (rule returns_bind, erule returns_mono) simp

lemma after_leave:
  assumes "sound (kern s)" and "\<And>s. state_after (how s) = s"
  shows "returns (leave_if how args s) (kept_after E (kern s))"
  unfolding leave_if_def Let_def
  by (rule returns_bind[OF returns_mono[OF keep_exit_command[OF assms(1)]]]) (auto simp: assms(2))

lemma after_args: "(\<And>a. returns (f a) Q) \<Longrightarrow> returns (with_args buf n f) Q"
  unfolding with_args_def by (rule returns_any)

lemma keep_run_command:
  assumes s: "sound (kern s)"
  shows "returns (run_command env buf s) (kept_after (entries env) (kern s))"
  unfolding run_command_def Let_def
  by (intro keep_bool keep_pure returns_if after_args after_leave after_go_on keep_alarm_command sys_kern[OF refl]
      keep_bind keep s entries_proc) (simp_all add: help_message_def keep_say)

lemma keep_read_command:
  assumes s: "sound (kern s)"
  shows "returns (read_command s) (\<lambda>(_, s'). safe E (kern s) (kern s'))"
  unfolding read_command_def Let_def
proof (rule returns_bind[OF returns_mono[OF open_read]])
  fix r :: "int \<times> cbuf \<times> io" assume r: "case r of (_, _, s') \<Rightarrow> open_as (kio (kern s)) s'"
  obtain n buf io where rn: "r = (n, buf, io)" by (metis surj_pair)
  let ?s = "s\<lparr>kern := (kern s)\<lparr>kio := io\<rparr>\<rparr>"
  have k: "safe E (kern s) (kern ?s)" using safe_io[OF s] r by (simp add: rn)
  have "returns (bindE (on_kern (kwrite b m) ?s) (\<lambda>s. Inr (buf', s))) (\<lambda>(_, s'). safe E (kern s) (kern s'))" for b m and buf' :: cbuf
    using sys_say(2)[OF refl safe_sound[OF k], of b m E]
    by (intro returns_bind) (auto elim!: returns_mono intro: safe_trans[OF k])
  then show "returns (case r of (nread, buf, io) \<Rightarrow>
     bindE (put_at buf nread NUL) (\<lambda>buf.
        bindE (trim_Input buf) (\<lambda>buf.
        bindE (on_kern (kwrite (lit (CR # [LF])) 2) (s\<lparr>kern := (kern s)\<lparr>kio := io\<rparr>\<rparr>)) (\<lambda>s.
        Inr (buf, s))))) (\<lambda>(_, s'). safe E (kern s) (kern s'))"
    unfolding rn prod.case by (intro keep_pure)
qed

lemma keep_correct_clock: "sound k \<Longrightarrow> safe E k (correct_clock k)"
  unfolding correct_clock_def by (rule safe_io) (auto intro!: open_as_devices same_regs_uarts)

lemma keep_idle: "sound k \<Longrightarrow> returns (idle_turn k) (\<lambda>(_, k'). safe E k k')"
  unfolding idle_turn_def by (intro keep_result keep)

lemma keep_r3:
  assumes s: "sound k"
  shows "returns (r3_turn mem n nm at k) (\<lambda>(_, _, k'). safe E k k')"
proof -
  have say: "returns (bindE (say b k) (\<lambda>k. Inr (r, a, k))) (\<lambda>(_, _, k'). safe E k k')" for b r and a :: r3_at
    by (rule returns_bind, rule returns_mono[OF keep_say[OF s]]) simp
  have "returns (r3_loop n nm i b k) (\<lambda>(_, _, k'). safe E k k')" for i b
    unfolding r3_loop_def by (intro returns_if keep_pure say)
  then show ?thesis unfolding r3_turn_def
    by (cases at) (auto intro!: keep_pure say)
qed

text \<open>The alarm clears the argument of its own process.\<close>

lemma keep_own_args:
  assumes s: "sound k" and a: "a = curProc k"
  shows "returns (modify_pcb a (\<lambda>p. p\<lparr>pargs := d\<rparr>) k) (safe E k)"
proof (cases "a = NULL")
  case True
  then show ?thesis by (simp add: modify_pcb_def on_pcbs_def modify_def load_def)
next
  case False
  obtain A where A: "steady k A" using s by (auto simp: sound_def)
  then have q: "\<not> queued A a" and h: "home_of (pcbq k) a = Some ReadyQ"
    using a False by (auto simp: steady_def wf_run_def running_ok_def)
  then obtain p where p: "pcbs (pcbq k) a = Some p" by (auto simp: home_of_def)
  have "wf_pcb k a (p\<lparr>pargs := d\<rparr>)" using wf_pcbD[OF steady_wf[OF A] p] by (simp add: wf_pcb_def)
  note m = modify_detached[OF steady_wf[OF A] q p, of "\<lambda>p. p\<lparr>pargs := d\<rparr>", OF this, folded with_changed_def]
  have "safe E k (k\<lparr>pcbq := with_changed a (p\<lparr>pargs := d\<rparr>) (pcbq k)\<rparr>)"
    by (rule safe_requeue[OF A _ _ _ p, where r' = "p\<lparr>pargs := d\<rparr>"])
       (use m q a in \<open>simp_all add: same_pcbs_def select_queue_def\<close>)
  then show ?thesis using m by simp
qed

lemma keep_alarm_turn:
  assumes s: "sound (kern s)" and a: "self = curProc (kern s)"
  shows "returns (alarm_turn self data s) (\<lambda>(_, s'). safe E (kern s) (kern s'))"
proof -
  obtain t m where tm: "get_time (devices (kio (kern s))) = (t, m)" by fastforce
  let ?s = "s\<lparr>kern := (kern s)\<lparr>kio := (kio (kern s))\<lparr>devices := m\<rparr>\<rparr>\<rparr>"
  have "uarts m = uarts (devices (kio (kern s)))" using clock_uarts(1)[of "devices (kio (kern s))"] by (simp add: tm)
  then have k: "safe E (kern s) (kern ?s)" using safe_io[OF s] by (auto intro!: open_as_devices same_regs_uarts)
  have fin: "returns (bindE (on_kern (modify_pcb self (\<lambda>p. p\<lparr>pargs := NULL\<rparr>)) s1) (\<lambda>s. Inr (EXIT, s)))
      (\<lambda>(_, s'). safe E (kern s) (kern s'))" if "safe E (kern s) (kern s1)" for s1 :: system
  proof -
    have "self = curProc (kern s1)" using that a by (simp add: safe_def)
    then have "returns (on_kern (modify_pcb self (\<lambda>p. p\<lparr>pargs := NULL\<rparr>)) s1) (kept E (kern s1))"
      by (intro sys_kern[OF refl] keep_own_args safe_sound[OF that])
    then show ?thesis by (intro returns_bind) (auto elim!: returns_mono intro: safe_trans[OF that])
  qed
  have say: "returns (bindE (on_kern (say b) s1) f) (\<lambda>(_, s'). safe E (kern s) (kern s'))"
    "returns (bindE (on_kern (kwrite b n) s1) f) (\<lambda>(_, s'). safe E (kern s) (kern s'))"
    if "safe E (kern s) (kern s1)" "\<And>s2. safe E (kern s) (kern s2) \<Longrightarrow> returns (f s2) (\<lambda>(_, s'). safe E (kern s) (kern s'))"
    for b n s1 and f :: "system \<Rightarrow> (u32 \<times> system) c"
    by (rule returns_bind, rule returns_mono[OF sys_say(1)[OF refl safe_sound[OF that(1)]]], rule that(2), rule safe_trans[OF that(1)], assumption)
       (rule returns_bind, rule returns_mono[OF sys_say(2)[OF refl safe_sound[OF that(1)]]], rule that(2), rule safe_trans[OF that(1)], assumption)
  show ?thesis unfolding alarm_turn_def Let_def tm prod.case on_kern_free bindE.simps
    by (intro sys_alarm_data returns_if say fin) (use k in auto)
qed

end
