(* ===== verification/Tables.thy ===== *)
theory Tables
  imports Kernel "HOL-Library.Sublist"
begin

text \<open>
  The tables of the processor, \<^verbatim>\<open>kernel/core-c.c\<close>: the global descriptor table, the
  interrupt descriptor table with its handlers, and the two interrupt controllers.

  \<open>cpu\<close> holds what \<open>lgdt\<close>, \<open>lidt\<close> and the loads of the segment registers leave, and the
  static array \<open>idt_entries\<close>. The addresses of the handlers are symbols of the linker: they
  are the argument \<open>addr_of\<close>. \<open>io_wait\<close> writes to port 0x80, where no device is modelled, so
  it has no effect here.
\<close>

unbundle bit_operations_syntax

type_synonym u16 = "16 word"

section \<open>The global descriptor table\<close>

record gdt_entry =
  gdt_limit_low :: u16
  gdt_base_low :: u16
  gdt_base_mid :: u8
  gdt_access :: u8
  gdt_flags :: u8
  gdt_base_high :: u8

record idt_entry =
  idt_base_low :: u16
  idt_sselect :: u16
  idt_zero :: u8
  idt_flags :: u8
  idt_base_high :: u16

record cpu =
  gdt_size :: u16
  gdt :: "gdt_entry list"
  seg_ds :: u16
  seg_es :: u16
  seg_fs :: u16
  seg_gs :: u16
  seg_ss :: u16
  idt_size :: u16
  idt_loaded :: bool
  idt_entries :: "idt_entry list"

definition gdt_row :: "u16 \<Rightarrow> u8 \<Rightarrow> u8 \<Rightarrow> gdt_entry" where
  "gdt_row limit access flags = \<lparr>gdt_limit_low = limit, gdt_base_low = 0, gdt_base_mid = 0,
     gdt_access = access, gdt_flags = flags, gdt_base_high = 0\<rparr>"

definition gdt_table :: "gdt_entry list" where
  "gdt_table = [gdt_row 0x0000 0x00 0x00, gdt_row 0xffff 0x9a 0xff, gdt_row 0xffff 0x92 0xff,
     gdt_row 0xffff 0xfa 0xff, gdt_row 0xffff 0xf2 0xff]"

definition gdt_init :: "cpu \<Rightarrow> cpu" where
  "gdt_init c = c\<lparr>gdt_size := 5 * 8 - 1, gdt := gdt_table,
     seg_ds := 0x10, seg_es := 0x10, seg_fs := 0x10, seg_gs := 0x10, seg_ss := 0x10\<rparr>"

section \<open>The interrupt descriptor table\<close>

datatype isr =
    Divide_error | Debug | Nmi | Breakpoint | Overflow | Bounds | Invalid_op
  | Device_not_available | Double_fault | Coprocessor_segment | Invalid_tss
  | Segment_not_present | Stack_segment | General_protection | Page_fault | Reserved
  | Coprocessor | Rtc_isr | Sys_call_isr

definition no_entry :: idt_entry where
  "no_entry = \<lparr>idt_base_low = 0, idt_sselect = 0, idt_zero = 0, idt_flags = 0, idt_base_high = 0\<rparr>"

definition idt_set_gate :: "nat \<Rightarrow> u32 \<Rightarrow> u16 \<Rightarrow> u8 \<Rightarrow> cpu \<Rightarrow> cpu c" where
  "idt_set_gate idx base sel flags c =
     bindE (put (idt_entries c) idx
       \<lparr>idt_base_low = ucast (base AND 0xFFFF), idt_sselect = sel, idt_zero = 0, idt_flags = flags,
        idt_base_high = ucast (drop_bit 16 base AND 0xFFFF)\<rparr>) (\<lambda>es. Inr (c\<lparr>idt_entries := es\<rparr>))"

definition idt_init :: "cpu \<Rightarrow> cpu" where
  "idt_init c = c\<lparr>idt_size := 256 * 8 - 1, idt_loaded := True\<rparr>"

definition idt_install :: "nat \<Rightarrow> u32 \<Rightarrow> cpu \<Rightarrow> cpu c" where
  "idt_install vector handler = idt_set_gate vector handler 0x08 0x8e"

definition isrs :: "isr list" where
  "isrs = [Divide_error, Debug, Nmi, Breakpoint, Overflow, Bounds, Invalid_op, Device_not_available,
     Double_fault, Coprocessor_segment, Invalid_tss, Segment_not_present, Stack_segment,
     General_protection, Page_fault, Reserved, Coprocessor]"

definition irq_init :: "(isr \<Rightarrow> u32) \<Rightarrow> cpu \<Rightarrow> cpu c" where
  "irq_init addr_of c =
     bindE (foldE (\<lambda>i. idt_set_gate i (addr_of (isrs ! i)) 0x08 0x8e) [0..<length isrs] c) (\<lambda>c.
     bindE (foldE (\<lambda>i. idt_set_gate i (addr_of Reserved) 0x08 0x8e) [length isrs..<32] c) (\<lambda>c.
     bindE (idt_set_gate 0x08 (addr_of Rtc_isr) 0x08 0x8e c)
       (idt_set_gate 0x60 (addr_of Sys_call_isr) 0x08 0x8e)))"

text \<open>The handlers: all but two panic with a message; \<open>None\<close> for those two.\<close>

fun isr_message :: "isr \<Rightarrow> string option" where
  "isr_message Divide_error = Some ''Division by zero''"
| "isr_message Debug = Some ''Debug''"
| "isr_message Nmi = Some ''Non-maskable Interrupt''"
| "isr_message Breakpoint = Some ''Breakpoint''"
| "isr_message Overflow = Some ''Overflow''"
| "isr_message Bounds = Some ''Bounds error''"
| "isr_message Invalid_op = Some ''Invalid operation''"
| "isr_message Device_not_available = Some ''Device not available''"
| "isr_message Double_fault = Some ''Double fault''"
| "isr_message Coprocessor_segment = Some ''Coprocessor segment error''"
| "isr_message Invalid_tss = Some ''Invalid TSS''"
| "isr_message Segment_not_present = Some ''Segment not present''"
| "isr_message Stack_segment = Some ''Stack segment error''"
| "isr_message General_protection = Some ''General protection fault''"
| "isr_message Page_fault = Some ''Page Fault''"
| "isr_message Reserved = Some ''Reserved''"
| "isr_message Coprocessor = Some ''Coprocessor error''"
| "isr_message Rtc_isr = None"
| "isr_message Sys_call_isr = None"

definition rtc_isr :: "hw \<Rightarrow> hw" where
  "rtc_isr m = sti (outb 0xa0 0x20 (cli m))"

text \<open>The handlers that panic, up to the point where they halt for ever.\<close>

definition simple_isr :: "isr \<Rightarrow> io \<Rightarrow> io c" where
  "simple_isr i s = (case isr_message i of None \<Rightarrow> Inr s | Some msg \<Rightarrow> kpanic (lit msg) s)"

section \<open>The interrupt controllers\<close>

abbreviation (input) PIC1 :: port where "PIC1 \<equiv> 0x20"
abbreviation (input) PIC2 :: port where "PIC2 \<equiv> 0xA0"

definition pic_init :: "hw \<Rightarrow> hw" where
  "pic_init m =
     fold (\<lambda>(p, v). outb p v)
       [(PIC1, 0x11), (PIC2, 0x11), (PIC1 + 1, 0x20), (PIC2 + 1, 0x28), (PIC1 + 1, 4), (PIC2 + 1, 2),
        (PIC1 + 1, 0x01), (PIC2 + 1, 0x01), (PIC1 + 1, 0xFF), (PIC2 + 1, 0xFF)] m"

section \<open>What the tables mean\<close>

text \<open>The handler the processor finds for a vector: none if the present bit is clear.\<close>

definition gate :: "cpu \<Rightarrow> nat \<Rightarrow> u32 option" where
  "gate c v =
     (let e = idt_entries c ! v
      in if bit (idt_flags e) 7 then Some (push_bit 16 (ucast (idt_base_high e)) OR ucast (idt_base_low e))
         else None)"

text \<open>The exceptions of the processor by its own numbering, apart from the double fault: the
  handler each of the vectors 0 to 31 should have, and what the panic of that handler says.\<close>

definition exceptions :: "(nat \<times> isr \<times> string) list" where
  "exceptions = [(0, Divide_error, ''Division by zero''), (1, Debug, ''Debug''),
     (2, Nmi, ''Non-maskable Interrupt''), (3, Breakpoint, ''Breakpoint''), (4, Overflow, ''Overflow''),
     (5, Bounds, ''Bounds error''), (6, Invalid_op, ''Invalid operation''),
     (7, Device_not_available, ''Device not available''),
     (9, Coprocessor_segment, ''Coprocessor segment error''), (10, Invalid_tss, ''Invalid TSS''),
     (11, Segment_not_present, ''Segment not present''), (12, Stack_segment, ''Stack segment error''),
     (13, General_protection, ''General protection fault''), (14, Page_fault, ''Page Fault''),
     (15, Reserved, ''Reserved''), (16, Coprocessor, ''Coprocessor error'')] @
     map (\<lambda>v. (v, Reserved, ''Reserved'')) [17..<32]"

text \<open>An 8259 that is being programmed: \<open>phase\<close> counts the initialisation words to come at
  the data port, behind ICW1 at the command port; then a byte there is the interrupt mask.\<close>

record pic =
  pic_offset :: u8
  pic_mask :: u8
  pic_phase :: nat

fun pic_write :: "port \<Rightarrow> port \<times> u8 \<Rightarrow> pic \<Rightarrow> pic" where
  "pic_write base (p, v) c =
     (if p = base then if bit v 4 then c\<lparr>pic_phase := 3\<rparr> else c
      else if p = base + 1
      then if pic_phase c = 3 then c\<lparr>pic_offset := v, pic_phase := 2\<rparr>
           else if pic_phase c = 0 then c\<lparr>pic_mask := v\<rparr>
           else c\<lparr>pic_phase := pic_phase c - 1\<rparr>
      else c)"

definition pic_after :: "port \<Rightarrow> hw \<Rightarrow> pic \<Rightarrow> pic" where
  "pic_after base m = fold (pic_write base) (port_log m)"

lemma halves: "push_bit 16 (ucast (ucast (drop_bit 16 b AND 0xFFFF) :: u16)) OR ucast (ucast (b AND 0xFFFF) :: u16) = (b :: u32)"
proof (rule bit_word_eqI)
  fix n assume n: "n < LENGTH(32)"
  have m: "(0xFFFF :: u32) = mask 16" by (simp add: mask_eq_exp_minus_1)
  show "bit (push_bit 16 (ucast (ucast (drop_bit 16 b AND 0xFFFF) :: u16)) OR ucast (ucast (b AND 0xFFFF) :: u16) :: u32) n = bit b n"
    using n unfolding m
    by (cases "n < 16") (auto simp: bit_or_iff bit_push_bit_iff bit_ucast_iff bit_and_iff bit_mask_iff bit_drop_bit_eq dest: bit_imp_le_length)
qed

lemma set_gate_ok:
  assumes "v < length (idt_entries c)"
  shows "\<exists>c'. idt_set_gate v a 0x08 0x8e c = Inr c' \<and> length (idt_entries c') = length (idt_entries c) \<and>
    gate c' = (gate c)(v := Some a) \<and> c' = c\<lparr>idt_entries := idt_entries c'\<rparr>"
proof -
  let ?e = "\<lparr>idt_base_low = ucast (a AND 0xFFFF), idt_sselect = 0x08, idt_zero = 0, idt_flags = 0x8e,
        idt_base_high = ucast (drop_bit 16 a AND 0xFFFF)\<rparr>"
  let ?c = "c\<lparr>idt_entries := (idt_entries c)[v := ?e]\<rparr>"
  have "bit (0x8e :: u8) 7" by simp
  then have "gate ?c = (gate c)(v := Some a)"
    using assms halves[of a] by (auto simp: gate_def fun_eq_iff Let_def nth_list_update)
  then show ?thesis using assms by (intro exI[of _ ?c]) (simp add: idt_set_gate_def)
qed

lemma set_gates_ok:
  assumes "\<forall>i\<in>set is. i < length (idt_entries c)" and "distinct is"
  shows "\<exists>c'. foldE (\<lambda>i. idt_set_gate i (f i) 0x08 0x8e) is c = Inr c' \<and> length (idt_entries c') = length (idt_entries c) \<and>
    gate c' = (\<lambda>v. if v \<in> set is then Some (f v) else gate c v) \<and> c' = c\<lparr>idt_entries := idt_entries c'\<rparr>"
  using assms
proof (induction "is" arbitrary: c)
  case Nil
  then show ?case by simp
next
  case (Cons i js)
  obtain c1 where c1: "idt_set_gate i (f i) 0x08 0x8e c = Inr c1" "length (idt_entries c1) = length (idt_entries c)"
    "gate c1 = (gate c)(i := Some (f i))" "c1 = c\<lparr>idt_entries := idt_entries c1\<rparr>"
    using set_gate_ok[of i c "f i"] Cons.prems by auto
  obtain c' where c': "foldE (\<lambda>i. idt_set_gate i (f i) 0x08 0x8e) js c1 = Inr c'" "length (idt_entries c') = length (idt_entries c1)"
    "gate c' = (\<lambda>v. if v \<in> set js then Some (f v) else gate c1 v)" "c' = c1\<lparr>idt_entries := idt_entries c'\<rparr>"
    using Cons.IH[of c1] Cons.prems c1(2) by auto
  have "gate c' = (\<lambda>v. if v \<in> set (i # js) then Some (f v) else gate c v)"
    using Cons.prems(2) by (auto simp: c'(3) c1(3))
  moreover have "c' = c\<lparr>idt_entries := idt_entries c'\<rparr>" by (subst c'(4), subst c1(4)) simp
  ultimately show ?case using c1(1,2) c'(1,2) by auto
qed

lemma irq_init_ok:
  assumes "length (idt_entries c) = 256"
  shows "\<exists>c'. irq_init addr_of c = Inr c' \<and> length (idt_entries c') = 256 \<and>
    gate c' = (\<lambda>v. if v = 0x60 then Some (addr_of Sys_call_isr) else if v = 8 then Some (addr_of Rtc_isr)
      else if v < 17 then Some (addr_of (isrs ! v)) else if v < 32 then Some (addr_of Reserved) else gate c v) \<and>
    c' = c\<lparr>idt_entries := idt_entries c'\<rparr>"
proof -
  have l: "length isrs = 17" by (simp add: isrs_def)
  obtain c1 where c1: "foldE (\<lambda>i. idt_set_gate i (addr_of (isrs ! i)) 0x08 0x8e) [0..<17] c = Inr c1"
    "length (idt_entries c1) = 256" "gate c1 = (\<lambda>v. if v \<in> set [0..<17] then Some (addr_of (isrs ! v)) else gate c v)"
    "c1 = c\<lparr>idt_entries := idt_entries c1\<rparr>"
    using set_gates_ok[of "[0..<17]" c "\<lambda>i. addr_of (isrs ! i)"] assms by auto
  obtain c2 where c2: "foldE (\<lambda>i. idt_set_gate i (addr_of Reserved) 0x08 0x8e) [17..<32] c1 = Inr c2"
    "length (idt_entries c2) = 256" "gate c2 = (\<lambda>v. if v \<in> set [17..<32] then Some (addr_of Reserved) else gate c1 v)"
    "c2 = c1\<lparr>idt_entries := idt_entries c2\<rparr>"
    using set_gates_ok[of "[17..<32]" c1 "\<lambda>_. addr_of Reserved"] c1(2) by auto
  obtain c3 where c3: "idt_set_gate 0x08 (addr_of Rtc_isr) 0x08 0x8e c2 = Inr c3" "length (idt_entries c3) = 256"
    "gate c3 = (gate c2)(8 := Some (addr_of Rtc_isr))" "c3 = c2\<lparr>idt_entries := idt_entries c3\<rparr>"
    using set_gate_ok[of 8 c2] c2(2) by auto
  obtain c4 where c4: "idt_set_gate 0x60 (addr_of Sys_call_isr) 0x08 0x8e c3 = Inr c4" "length (idt_entries c4) = 256"
    "gate c4 = (gate c3)(0x60 := Some (addr_of Sys_call_isr))" "c4 = c3\<lparr>idt_entries := idt_entries c4\<rparr>"
    using set_gate_ok[of "0x60" c3] c3(2) by auto
  have "irq_init addr_of c = Inr c4" unfolding irq_init_def l by (simp only: c1(1) c2(1) c3(1) c4(1) bindE.simps)
  moreover have "gate c4 = (\<lambda>v. if v = 0x60 then Some (addr_of Sys_call_isr) else if v = 8 then Some (addr_of Rtc_isr)
      else if v < 17 then Some (addr_of (isrs ! v)) else if v < 32 then Some (addr_of Reserved) else gate c v)"
    unfolding c4(3) c3(3) c2(3) c1(3) fun_upd_apply set_upt atLeastLessThan_iff
    by (rule ext) (auto simp: not_less)
  moreover have "c4 = c\<lparr>idt_entries := idt_entries c4\<rparr>" by (subst c4(4), subst c3(4), subst c2(4), subst c1(4)) simp
  ultimately show ?thesis using c4(2) by blast
qed

lemma pic_init_log: "\<exists>ps. pic_init m = m\<lparr>port_log := port_log m @ ps\<rparr>"
  "port_log m = [] \<Longrightarrow> pic_offset (pic_after PIC1 (pic_init m) p) = 0x20 \<and> pic_mask (pic_after PIC1 (pic_init m) p) = 0xFF \<and>
     pic_offset (pic_after PIC2 (pic_init m) p) = 0x28 \<and> pic_mask (pic_after PIC2 (pic_init m) p) = 0xFF"
  by (auto simp: pic_init_def outb_def is_uart_def uart_base_def pic_after_def)

text \<open>A panic turns the interrupts off and says why.\<close>

lemma kpanic_online:
  assumes "online COM1 s" and "NUL \<notin> set msg"
  shows "kpanic (lit msg) s = Inr (set_line COM1 (sent COM1 s @ ''Panic: '' @ msg @
    CR # LF # ''Press Ctrl-A, then X to quit QEMU.'' @ [CR, LF]) (pending COM1 s) (s\<lparr>devices := cli (devices s)\<rparr>))"
proof -
  have out: "online COM1 s' \<Longrightarrow> NUL \<notin> set m \<Longrightarrow> n \<le> length m \<Longrightarrow> serial_out COM1 (lit m) n s' =
      Inr (int n, set_line COM1 (sent COM1 s' @ take n m) (pending COM1 s') s')" for m n s'
    using serial_out_online[of COM1 s' n "lit m"] by (simp add: lit_def)
  have s: "online COM1 (s\<lparr>devices := cli (devices s)\<rparr>)" "sent COM1 (s\<lparr>devices := cli (devices s)\<rparr>) = sent COM1 s"
    "pending COM1 (s\<lparr>devices := cli (devices s)\<rparr>) = pending COM1 s"
    using assms(1) by (simp_all add: online_def sent_def pending_def cli_def)
  show ?thesis using assms(2) s by (simp add: kpanic_def Let_def out text_of_lit del: lit_def)
qed

lemma simple_isr_panics:
  assumes "online COM1 s" and "(v, i, msg) \<in> set exceptions"
  shows "\<exists>s'. simple_isr i s = Inr s' \<and> \<not> interrupts_on (devices s') \<and>
    prefix (sent COM1 s @ ''Panic: '' @ msg) (sent COM1 s')"
proof -
  have m: "isr_message i = Some msg" "NUL \<notin> set msg" using assms(2) by (auto simp: exceptions_def)
  show ?thesis using kpanic_online[OF assms(1) m(2)]
    by (simp add: simple_isr_def m(1) set_line_def cli_def sent_def prefix_def)
qed

text \<open>Every gate that is set is a 32-bit interrupt gate of ring 0 in the code segment.\<close>

definition kernel_gate :: "idt_entry \<Rightarrow> bool" where
  "kernel_gate e = (idt_sselect e = 0x08 \<and> idt_zero e = 0 \<and> idt_flags e = 0x8e)"

lemma set_gate_kernel:
  assumes "idt_set_gate v a 0x08 0x8e c = Inr c'" and "\<forall>e\<in>set (idt_entries c). e = no_entry \<or> kernel_gate e"
  shows "\<forall>e\<in>set (idt_entries c'). e = no_entry \<or> kernel_gate e"
  using assms set_update_subset_insert[of "idt_entries c" v]
  by (fastforce simp: idt_set_gate_def bindE_eq_Inr put_def kernel_gate_def split: if_splits)

lemma set_gates_kernel:
  assumes "foldE (\<lambda>i. idt_set_gate i (f i) 0x08 0x8e) is c = Inr c'"
    and "\<forall>e\<in>set (idt_entries c). e = no_entry \<or> kernel_gate e"
  shows "\<forall>e\<in>set (idt_entries c'). e = no_entry \<or> kernel_gate e"
  using assms by (induction "is" arbitrary: c) (auto simp: bindE_eq_Inr dest: set_gate_kernel)

lemma irq_init_kernel:
  assumes "irq_init addr_of c = Inr c'" and "\<forall>e\<in>set (idt_entries c). e = no_entry \<or> kernel_gate e"
  shows "\<forall>e\<in>set (idt_entries c'). e = no_entry \<or> kernel_gate e"
proof -
  obtain c1 c2 c3 where c: "foldE (\<lambda>i. idt_set_gate i (addr_of (isrs ! i)) 0x08 0x8e) [0..<length isrs] c = Inr c1"
    "foldE (\<lambda>i. idt_set_gate i (addr_of Reserved) 0x08 0x8e) [length isrs..<32] c1 = Inr c2"
    "idt_set_gate 0x08 (addr_of Rtc_isr) 0x08 0x8e c2 = Inr c3"
    "idt_set_gate 0x60 (addr_of Sys_call_isr) 0x08 0x8e c3 = Inr c'"
    using assms(1) by (auto simp: irq_init_def bindE_eq_Inr)
  show ?thesis by (intro set_gate_kernel[OF c(4)] set_gate_kernel[OF c(3)] set_gates_kernel[OF c(2)] set_gates_kernel[OF c(1)] assms(2))
qed

section \<open>Properties\<close>

text \<open>Property C12. The interrupt tables after \<open>irq_init\<close> and \<open>pic_init\<close>: the address of every
  handler is put together again from its two halves. Each exception of the processor has its
  own handler, whose panic names that exception, except that vector 8, the double fault, has
  the one of the clock; vector 0x60 is the system call, every other vector has no gate, and
  all gates are interrupt gates of the kernel. The controllers map their lines to the vectors
  from 32 and from 40 and mask all, so the clock (line 8) would come as vector 40, which has
  no handler.\<close>

theorem interrupt_tables:
  assumes "idt_entries c = replicate 256 no_entry" and "port_log m = []"
  shows "(\<exists>c'. irq_init addr_of c = Inr c' \<and>
      (\<forall>(v, i, msg)\<in>set exceptions. gate c' v = Some (addr_of i) \<and>
        (\<forall>s. online COM1 s \<longrightarrow> (\<exists>s'. simple_isr i s = Inr s' \<and> \<not> interrupts_on (devices s') \<and>
           prefix (sent COM1 s @ ''Panic: '' @ msg) (sent COM1 s')))) \<and>
      gate c' 8 = Some (addr_of Rtc_isr) \<and> gate c' 0x60 = Some (addr_of Sys_call_isr) \<and>
      (\<forall>v<256. 32 \<le> v \<and> v \<noteq> 0x60 \<longrightarrow> gate c' v = None) \<and>
      (\<forall>e\<in>set (idt_entries c'). e = no_entry \<or> idt_sselect e = 0x08 \<and> idt_zero e = 0 \<and> idt_flags e = 0x8e) \<and>
      gate c' (unat (pic_offset (pic_after PIC2 (pic_init m) p))) = None) \<and>
    pic_offset (pic_after PIC1 (pic_init m) p) = 32 \<and> pic_offset (pic_after PIC2 (pic_init m) p) = 40 \<and>
    pic_mask (pic_after PIC1 (pic_init m) p) = 0xFF \<and> pic_mask (pic_after PIC2 (pic_init m) p) = 0xFF"
proof -
  obtain c' where c': "irq_init addr_of c = Inr c'"
    "gate c' = (\<lambda>v. if v = 0x60 then Some (addr_of Sys_call_isr) else if v = 8 then Some (addr_of Rtc_isr)
      else if v < 17 then Some (addr_of (isrs ! v)) else if v < 32 then Some (addr_of Reserved) else gate c v)"
    using irq_init_ok[of c addr_of] assms(1) by auto
  have gates: "gate c' v = Some (addr_of i)" if "(v, i, msg) \<in> set exceptions" for v i msg
    using that unfolding c'(2) by (auto simp: exceptions_def isrs_def)
  have none: "gate c v = None" if "v < 256" for v using that assms(1) by (simp add: gate_def no_entry_def)
  have "\<forall>e\<in>set (idt_entries c'). e = no_entry \<or> kernel_gate e"
    using irq_init_kernel[OF c'(1)] assms(1) by simp
  then show ?thesis
    using c' gates none simple_isr_panics pic_init_log(2)[OF assms(2)] by (fastforce simp: kernel_gate_def)
qed

end
