(* ===== verification/VmInit.thy ===== *)
theory VmInit
  imports Vm
begin

text \<open>
  What \<open>vm_init\<close> sets up: the frames it hands out, and the translation of addresses the
  processor does afterwards.

  The frames in use are always the first ones: \<open>bitmap n\<close> is the bitmap in which the frames
  below \<open>n\<close> are marked. \<open>translate\<close> is the walk of the processor through the physical
  addresses of the tables.
\<close>

section \<open>The bitmap of frames\<close>

definition bitmap :: "nat \<Rightarrow> u32 list" where
  "bitmap n = map (\<lambda>i. mask (min 32 (n - 32 * i))) [0..<512]"

lemma length_bitmap [simp]: "length (bitmap n) = 512"
  by (simp add: bitmap_def)

lemma nth_bitmap: "i < 512 \<Longrightarrow> bitmap n ! i = mask (min 32 (n - 32 * i))"
  by (simp add: bitmap_def)

lemma first_clear_find: "first_clear w js = find (\<lambda>j. \<not> bit w j) js"
  by (induction js) (auto simp: push_bit_of_1 and_exp_eq_0_iff_not_bit)

lemma first_clear_mask: "r < 32 \<Longrightarrow> first_clear (mask r) [0..<32] = Some r"
proof -
  assume r: "r < 32"
  have "[0..<32] = [0..<r] @ r # [Suc r..<32]"
    using r upt_add_eq_append[of 0 r "32 - r"] upt_conv_Cons[of r 32] by simp
  moreover have "find (\<lambda>j. \<not> bit (mask r :: u32) j) [0..<r] = None"
    using r by (auto simp: find_None_iff bit_mask_iff)
  moreover have "find P (xs @ ys) = (case find P xs of None \<Rightarrow> find P ys | Some z \<Rightarrow> Some z)" for P and xs ys :: "nat list"
    by (induction xs) auto
  ultimately show ?thesis by (simp add: first_clear_find bit_mask_iff)
qed

lemma mask_full: "(mask r :: u32) = 0xFFFFFFFF \<longleftrightarrow> 32 \<le> r"
proof
  assume "(mask r :: u32) = 0xFFFFFFFF"
  moreover have "bit (0xFFFFFFFF :: u32) 31" by simp
  ultimately have "bit (mask r :: u32) 31" by simp
  then show "32 \<le> r" by (simp add: bit_mask_iff)
next
  assume r: "32 \<le> r"
  have "(mask r :: u32) = mask 32" using r by (intro bit_word_eqI) (auto simp: bit_mask_iff)
  then show "(mask r :: u32) = 0xFFFFFFFF" by (simp add: mask_eq_exp_minus_1)
qed

lemma find_free_bits:
  assumes "32 * i \<le> n" and "n < 32 * m"
  shows "find_free_from i (map (\<lambda>j. mask (min 32 (n - 32 * j))) [i..<m]) = Some n"
  using assms
proof (induction "m - i" arbitrary: i)
  case 0
  then show ?case by simp
next
  case (Suc d)
  then have up: "[i..<m] = i # [Suc i..<m]" by (simp add: upt_conv_Cons)
  show ?case
  proof (cases "n < 32 * Suc i")
    case True
    then have "first_clear (mask (min 32 (n - 32 * i))) [0..<32] = Some (n - 32 * i)"
      using Suc.prems by (subst first_clear_mask) (simp_all add: min_absorb2)
    moreover have "(mask (min 32 (n - 32 * i)) :: u32) \<noteq> 0xFFFFFFFF" using True by (simp add: mask_full)
    ultimately show ?thesis using Suc.prems by (simp add: up)
  next
    case False
    then have "(mask (min 32 (n - 32 * i)) :: u32) = 0xFFFFFFFF" by (simp add: mask_full)
    moreover have "find_free_from (Suc i) (map (\<lambda>j. mask (min 32 (n - 32 * j))) [Suc i..<m]) = Some n"
      using Suc.hyps(1)[of "Suc i"] Suc.hyps(2) Suc.prems False by simp
    ultimately show ?thesis by (simp add: up)
  qed
qed

lemma find_free_bitmap:
  "frames v = bitmap n \<Longrightarrow> n < 16384 \<Longrightarrow> find_free v = of_nat n"
  using find_free_bits[of 0 n 512] by (simp add: find_free_def bitmap_def)

lemma bitmap_Suc:
  assumes "n < 16384"
  shows "(bitmap n)[n div 32 := bitmap n ! (n div 32) OR push_bit (n mod 32) 1] = bitmap (Suc n)"
proof (rule nth_equalityI)
  fix i assume "i < length ((bitmap n)[n div 32 := bitmap n ! (n div 32) OR push_bit (n mod 32) 1])"
  then have i: "i < 512" by simp
  show "(bitmap n)[n div 32 := bitmap n ! (n div 32) OR push_bit (n mod 32) 1] ! i = bitmap (Suc n) ! i"
  proof (cases "i = n div 32")
    case True
    then have r: "n - 32 * i = n mod 32" "Suc n - 32 * i = Suc (n mod 32)"
      by (simp_all add: minus_mult_div_eq_mod Suc_diff_le)
    have "(mask (n mod 32) OR push_bit (n mod 32) 1 :: u32) = mask (Suc (n mod 32))"
      by (intro bit_word_eqI) (auto simp: bit_or_iff bit_mask_iff push_bit_of_1 bit_exp_iff)
    moreover have "min 32 (n mod 32) = n mod 32" "min 32 (Suc (n mod 32)) = Suc (n mod 32)"
      by (simp_all add: min_absorb2 Suc_leI)
    ultimately have "mask (min 32 (n - 32 * i)) OR push_bit (n mod 32) 1 = (mask (min 32 (Suc n - 32 * i)) :: u32)"
      by (simp only: r)
    then show ?thesis using True i by (simp add: nth_bitmap)
  next
    case False
    then consider "i < n div 32" | "n div 32 < i" by linarith
    then have "min 32 (n - 32 * i) = min 32 (Suc n - 32 * i)"
    proof cases
      case 1
      then have "32 * i + 32 \<le> n" using div_times_less_eq_dividend[of n 32] by linarith
      then show ?thesis by simp
    next
      case 2
      then have "n < 32 * i" using div_less_iff_less_mult[of 32 n i] by (simp add: mult.commute)
      then show ?thesis by simp
    qed
    then show ?thesis using False i by (simp add: nth_bitmap)
  qed
qed simp

lemma set_bit_bitmap:
  assumes "frames v = bitmap n" and "n < 16384"
  shows "set_bit (of_nat n * 0x1000) v = Inr (v\<lparr>frames := bitmap (Suc n)\<rparr>)"
proof -
  have "unat (of_nat n * 0x1000 :: u32) = n * 0x1000"
    using assms(2) by (simp add: unat_word_ariths unat_of_nat)
  then have f: "unat (of_nat n * 0x1000 div 0x1000 :: u32) = n" by (simp add: unat_div)
  have "n div 32 < 512" using assms(2) by simp
  then show ?thesis using assms bitmap_Suc[OF assms(2)] f by (simp add: set_bit_def Let_def)
qed

section \<open>Mapping pages\<close>

definition frame_page :: "nat \<Rightarrow> page_entry" where
  "frame_page n = zero_page\<lparr>present := True, frameaddr := of_nat n, writeable := True\<rparr>"

lemma new_frame_ok:
  assumes "frames v = bitmap n" and "n < 16384" and "page_tables v t i = zero_page"
  shows "new_frame (Some (t, i)) v = Inr (set_page (t, i) (frame_page n) (v\<lparr>frames := bitmap (Suc n)\<rparr>))"
proof -
  have "(of_nat n :: u32) \<noteq> -1"
  proof
    assume "(of_nat n :: u32) = -1"
    then have "of_nat (Suc n) = (0 :: u32)" by simp
    then have "2 ^ 32 dvd Suc n" unfolding word_of_nat_eq_0_iff by simp
    then show False using assms(2) by (auto dest: dvd_imp_le)
  qed
  moreover have "(ucast (of_nat n :: u32) :: 20 word) = of_nat n"
    using assms(2) by (simp add: unsigned_of_nat take_bit_nat_eq_self)
  ultimately show ?thesis using assms
    by (simp add: new_frame_def find_free_bitmap set_bit_bitmap Let_def frame_page_def zero_page_def set_page_def)
qed

section \<open>The page a table entry describes\<close>

lemma table_index_eq: "table_index a = unat a div 4194304"
  by (simp add: table_index_def unat_div div_mult2_eq[symmetric])

lemma page_offset_eq: "page_offset a = unat a div 4096 mod 1024"
  by (simp add: page_offset_def unat_div unat_mod)

lemma page_address:
  assumes "j < 1024"
  shows "unat (of_nat j * 0x1000 :: u32) = j * 4096" "table_index (of_nat j * 0x1000) = 0"
    "page_offset (of_nat j * 0x1000) = j"
proof -
  show u: "unat (of_nat j * 0x1000 :: u32) = j * 4096"
    using assms by (simp add: unat_word_ariths unat_of_nat)
  show "table_index (of_nat j * 0x1000) = 0" "page_offset (of_nat j * 0x1000) = j"
    using assms unfolding table_index_eq page_offset_eq u by simp_all
qed

lemma heap_address:
  assumes "i < 65536"
  shows "unat (0xD000000 + of_nat i :: u32) = 0xD000000 + i" "table_index (0xD000000 + of_nat i) = 52"
    "page_offset (0xD000000 + of_nat i) = i div 4096"
proof -
  show u: "unat (0xD000000 + of_nat i :: u32) = 0xD000000 + i"
    using assms by (simp add: unat_word_ariths unat_of_nat)
  have "(0xD000000 + i) div 4194304 = 52" using assms by (intro div_nat_eqI) simp_all
  moreover have "(i + 53248 * 4096) div 4096 = 53248 + i div 4096" by (subst div_mult_self1) simp_all
  moreover have "(53248 + x) mod 1024 = x" if "x < 16" for x :: nat
    using that mod_mult_self1[of x 52 1024] by (simp add: add.commute)
  moreover have "i div 4096 < 16" using assms by (simp add: div_less_iff_less_mult)
  ultimately show "table_index (0xD000000 + of_nat i) = 52" "page_offset (0xD000000 + of_nat i) = i div 4096"
    unfolding table_index_eq page_offset_eq u by (simp_all add: add.commute)
qed

lemma get_page_present:
  assumes "length (dir_tables v) = 1024" and "table_index a < 1024" and "dir_tables v ! table_index a = t" "t \<noteq> 0"
  shows "get_page a True v = Inr (Some (t, page_offset a), v)"
  using assms by (simp add: get_page_def find_page_def)

lemma map_page_ok:
  assumes "length (dir_tables v) = 1024" and "table_index a < 1024" and "dir_tables v ! table_index a = t" "t \<noteq> 0"
    and "frames v = bitmap n" "n < 16384" "page_tables v t (page_offset a) = zero_page"
  shows "map_page a v = Inr (set_page (t, page_offset a) (frame_page n) (v\<lparr>frames := bitmap (Suc n)\<rparr>))"
  using get_page_present[OF assms(1-4)] new_frame_ok[OF assms(5-7)] by (simp add: map_page_def)

text \<open>Entries from \<open>m\<close> up to \<open>n\<close> of a table, with frames from \<open>f\<close> on.\<close>

definition fill_entries :: "nat \<Rightarrow> nat \<Rightarrow> nat \<Rightarrow> (nat \<Rightarrow> page_entry) \<Rightarrow> nat \<Rightarrow> page_entry" where
  "fill_entries f m n e j = (if m \<le> j \<and> j < n then frame_page (f + (j - m)) else e j)"

definition fill_table :: "u32 \<Rightarrow> nat \<Rightarrow> nat \<Rightarrow> nat \<Rightarrow> vm \<Rightarrow> vm" where
  "fill_table t f m n v = v\<lparr>frames := bitmap (f + (n - m)),
     page_tables := (page_tables v)(t := fill_entries f m n (page_tables v t))\<rparr>"

lemma fill_entries_step:
  assumes "m < n"
  shows "fill_entries (Suc f) (Suc m) n (e(m := frame_page f)) = fill_entries f m n e"
proof
  fix j
  have "Suc f + (j - Suc m) = f + (j - m)" if "Suc m \<le> j" using that by arith
  moreover have "j = m \<or> j < m \<or> Suc m \<le> j" by arith
  ultimately show "fill_entries (Suc f) (Suc m) n (e(m := frame_page f)) j = fill_entries f m n e j"
    using assms by (auto simp: fill_entries_def simp del: add_Suc)
qed

lemma fill_table_step:
  assumes "m < n"
  shows "fill_table t (Suc f) (Suc m) n (set_page (t, m) (frame_page f) (v\<lparr>frames := bitmap (Suc f)\<rparr>)) =
    fill_table t f m n v"
proof -
  have "bitmap (Suc f + (n - Suc m)) = bitmap (f + (n - m))" using assms by (intro arg_cong[of _ _ bitmap]) arith
  then show ?thesis using fill_entries_step[OF assms, of f "page_tables v t"]
    unfolding fill_table_def by (simp add: set_page_def del: add_Suc)
qed

lemma fill_table_none: "frames v = bitmap f \<Longrightarrow> fill_table t f n n v = v"
proof -
  have "fill_entries f n n e = e" for e by (rule ext) (auto simp: fill_entries_def)
  then show "frames v = bitmap f \<Longrightarrow> fill_table t f n n v = v" by (simp add: fill_table_def)
qed

lemma identity_loop_run:
  assumes "m \<le> n" "n \<le> 1024" and "frames v = bitmap m"
    and "dir_tables v ! 0 = t" "t \<noteq> 0" "length (dir_tables v) = 1024"
    and "unat (phys_alloc_addr v + 0x10000) \<le> n * 4096" "n * 4096 < unat (phys_alloc_addr v + 0x10000) + 4096"
    and "\<And>j. m \<le> j \<Longrightarrow> j < n \<Longrightarrow> page_tables v t j = zero_page"
  shows "identity_loop (of_nat m * 0x1000) v = Some (Inr (fill_table t m m n v))"
  using assms
proof (induction "n - m" arbitrary: m v)
  case 0
  then have mn: "m = n" by simp
  have "\<not> of_nat m * 0x1000 < phys_alloc_addr v + 0x10000"
  proof (cases "n < 1024")
    case True
    then show ?thesis using mn 0 by (simp add: word_less_nat_alt page_address)
  next
    case False
    then have "n = 1024" using 0 by simp
    then show ?thesis using mn 0 by (simp add: word_less_nat_alt)
  qed
  then show ?case using mn 0 by (subst identity_loop.simps) (simp add: fill_table_none)
next
  case (Suc d)
  then have m: "m < n" "m < 1024" by simp_all
  have lt: "of_nat m * 0x1000 < phys_alloc_addr v + 0x10000"
    using m Suc.prems(8) by (simp add: word_less_nat_alt page_address)
  let ?v = "set_page (t, m) (frame_page m) (v\<lparr>frames := bitmap (Suc m)\<rparr>)"
  have mp: "map_page (of_nat m * 0x1000) v = Inr ?v"
    using map_page_ok[of v "of_nat m * 0x1000" t m] m Suc.prems(3-6,9) by (simp add: page_address)
  have d: "d = n - Suc m" using Suc.hyps(2) by simp
  have "identity_loop (of_nat (Suc m) * 0x1000) ?v = Some (Inr (fill_table t (Suc m) (Suc m) n ?v))"
    using Suc.prems m by (intro Suc.hyps(1)[OF d]) (auto simp: set_page_def)
  moreover have "of_nat (Suc m) * 0x1000 = of_nat m * 0x1000 + (0x1000 :: u32)" by (simp add: algebra_simps)
  ultimately show ?case using lt mp fill_table_step[OF m(1)] by (subst identity_loop.simps) (simp add: add.commute)
qed

lemma heap_loop_run:
  assumes "k \<le> 16" and "frames v = bitmap n" "n + 16 \<le> 16384"
    and "dir_tables v ! 52 = t" "t \<noteq> 0" "length (dir_tables v) = 1024"
    and "\<And>j. j < 16 \<Longrightarrow> page_tables v t j = zero_page"
  shows "foldE (\<lambda>i. map_page (0xD000000 + of_nat i * 0x1000)) [0..<k] v = Inr (fill_table t n 0 k v)"
  using assms(1)
proof (induction k)
  case 0
  then show ?case using fill_table_none[OF assms(2)] by simp
next
  case (Suc k)
  have a: "(of_nat k * 0x1000 :: u32) = of_nat (k * 4096)" by simp
  have "k * 4096 < 65536" using Suc.prems by simp
  note h = heap_address[OF this, folded a]
  let ?v = "fill_table t n 0 k v"
  have "map_page (0xD000000 + of_nat k * 0x1000) ?v =
      Inr (set_page (t, k) (frame_page (n + k)) (?v\<lparr>frames := bitmap (Suc (n + k))\<rparr>))"
    using map_page_ok[of ?v "0xD000000 + of_nat k * 0x1000" t "n + k"] h Suc.prems assms(3-7)
    by (simp add: fill_table_def fill_entries_def)
  moreover have "set_page (t, k) (frame_page (n + k)) (?v\<lparr>frames := bitmap (Suc (n + k))\<rparr>) = fill_table t n 0 (Suc k) v"
    by (auto simp: set_page_def fill_table_def fill_entries_def fun_eq_iff less_Suc_eq)
  ultimately show ?case using Suc by (simp add: foldE_append)
qed

section \<open>Page-aligned addresses\<close>

lemma page_mask: "(e :: u32) AND 0xFFFFF000 = push_bit 12 (drop_bit 12 e)"
proof -
  have n: "(0xFFFFF000 :: u32) = NOT (mask 12)" by (simp add: minus_exp_eq_not_mask[symmetric])
  show ?thesis unfolding n
    by (intro bit_word_eqI) (auto simp: bit_and_iff bit_not_iff bit_mask_iff bit_push_bit_iff bit_drop_bit_eq)
qed

lemma unat_page_mask: "unat (e AND 0xFFFFF000 :: u32) = unat e div 4096 * 4096"
proof -
  have "unat e < 2 ^ LENGTH(32)" by (rule unsigned_less)
  moreover have "unat e div 4096 * 4096 \<le> unat e" by simp
  ultimately have "unat e div 4096 * 4096 < 2 ^ 32" by simp
  moreover have "push_bit 12 (drop_bit 12 e) = e div 4096 * 4096" by (simp add: push_bit_eq_mult drop_bit_eq_div)
  ultimately show ?thesis unfolding page_mask by (simp only: unat_word_ariths unat_div) simp
qed

lemma unat_page_rest: "unat (a AND 0xFFF :: u32) = unat a mod 4096"
proof -
  have "a AND 0xFFF = take_bit 12 a" by (simp add: take_bit_eq_mask mask_eq_exp_minus_1)
  then have "a AND 0xFFF = a mod 4096" by (simp add: take_bit_eq_mod)
  then show ?thesis by (simp add: unat_mod)
qed

definition page_at :: "nat \<Rightarrow> u32" where
  "page_at p = of_nat p * 0x1000"

lemma unat_page_at: "p < 1048576 \<Longrightarrow> unat (page_at p) = p * 4096"
  by (simp add: page_at_def unat_word_ariths unat_of_nat)

lemma page_at_add: "page_at p + of_nat (q * 4096) = page_at (p + q)"
  by (simp add: page_at_def algebra_simps)

lemma page_at_zero: "p < 1048576 \<Longrightarrow> page_at p = 0 \<longleftrightarrow> p = 0"
  using unat_page_at[of p] by (metis mult_eq_0_iff unat_0 unsigned_0 word_unat_eq_iff zero_neq_numeral)

lemma round_up:
  assumes "4096 \<le> unat e" and "unat e div 4096 < 1048575"
  shows "e AND 0xFFFFF000 \<noteq> 0" "(e AND 0xFFFFF000) + 0x1000 = page_at (unat e div 4096 + 1)"
proof -
  have "1 \<le> unat e div 4096" using assms(1) by (simp add: Suc_le_eq div_greater_zero_iff)
  then show "e AND 0xFFFFF000 \<noteq> 0" using unat_page_mask[of e] by (metis mult_eq_0_iff not_one_le_zero unat_0 zero_neq_numeral)
  have "e AND 0xFFFFF000 = page_at (unat e div 4096)"
    using unat_page_mask[of e] unat_page_at[of "unat e div 4096"] assms(2) by (simp add: word_unat_eq_iff)
  then show "(e AND 0xFFFFF000) + 0x1000 = page_at (unat e div 4096 + 1)" using page_at_add[of "unat e div 4096" 1] by simp
qed

lemma table_entry:
  assumes "p < 1048576"
  shows "(page_at p OR 7) AND 0xFFFFF000 = page_at p" "bit (page_at p OR 7) 0"
proof -
  have "page_at p AND 0xFFFFF000 = page_at p"
    using unat_page_mask[of "page_at p"] unat_page_at[OF assms] by (simp add: word_unat_eq_iff)
  moreover have "(7 :: u32) AND 0xFFFFF000 = 0" by simp
  moreover have "(a OR 7) AND m = (a AND m) OR (7 AND m)" for a m :: u32
    by (rule bit_word_eqI) (auto simp: bit_and_iff bit_or_iff)
  ultimately show "(page_at p OR 7) AND 0xFFFFF000 = page_at p" by simp
  show "bit (page_at p OR 7) 0" by (simp add: bit_or_iff)
qed

section \<open>Allocation before there is a heap\<close>

lemma kmalloc_page:
  assumes "\<not> heap_is_initialized v" and "4096 \<le> unat (phys_alloc_addr v)" "unat (phys_alloc_addr v) div 4096 < 1048575"
  shows "kmalloc sz True b v = Inr (page_at (unat (phys_alloc_addr v) div 4096 + 1),
    page_at (unat (phys_alloc_addr v) div 4096 + 1),
    v\<lparr>phys_alloc_addr := page_at (unat (phys_alloc_addr v) div 4096 + 1) + sz\<rparr>)"
  using assms(1) round_up[OF assms(2,3)] by (simp add: kmalloc_def Let_def)

lemma get_page_new:
  assumes "\<not> heap_is_initialized v" and "phys_alloc_addr v = page_at p" "0 < p" "p < 1048000"
    and "length (dir_tables v) = 1024" "length (dir_tables_phys v) = 1024" "table_index a < 1024"
    and "dir_tables v ! table_index a = 0"
  shows "get_page a True v = Inr (Some (page_at (p + 1), page_offset a),
    v\<lparr>phys_alloc_addr := page_at (p + 2), dir_tables := (dir_tables v)[table_index a := page_at (p + 1)],
      dir_tables_phys := (dir_tables_phys v)[table_index a := page_at (p + 1) OR 7]\<rparr>)"
proof -
  have u: "unat (phys_alloc_addr v) = p * 4096" using assms(2,4) by (simp add: unat_page_at)
  have "kmalloc 4096 True True v = Inr (page_at (p + 1), page_at (p + 1), v\<lparr>phys_alloc_addr := page_at (p + 2)\<rparr>)"
    using kmalloc_page[OF assms(1), of 4096 True] assms(3,4) page_at_add[of "p + 1" 1] unfolding u by simp
  then show ?thesis using assms(5-8) by (simp add: get_page_def find_page_def)
qed

lemma foldE_idle: "(\<And>x. x \<in> set xs \<Longrightarrow> f x s = Inr s) \<Longrightarrow> foldE f xs s = Inr s"
  by (induction xs) auto

section \<open>vm\_init\<close>

text \<open>Memory before \<open>vm_init\<close>: no frame is in use and what is not yet written is 0; the
  kernel ends at \<open>__end\<close>, the address \<open>phys_alloc_addr\<close>, in the first 4 MB. \<open>mapped v\<close> is
  the number of pages that are then mapped to themselves.\<close>

definition bare :: "vm \<Rightarrow> bool" where
  "bare v \<longleftrightarrow> \<not> heap_is_initialized v \<and> frames v = bitmap 0 \<and> page_tables v = (\<lambda>_ _. zero_page) \<and>
     4096 \<le> unat (phys_alloc_addr v) \<and> unat (phys_alloc_addr v) < 0x3EA000"

definition mapped :: "vm \<Rightarrow> nat" where
  "mapped v = unat (phys_alloc_addr v) div 4096 + 23"

text \<open>The tables after it: \<open>h\<close> is the table of the heap, \<open>z\<close> that of the first 4 MB.\<close>

definition booted :: "vm \<Rightarrow> vm" where
  "booted v =
     (let n = mapped v; h = page_at (n - 19); z = page_at (n - 17)
      in v\<lparr>kdir := page_at (n - 22), phys_alloc_addr := page_at (n - 16), frames := bitmap (n + 16),
           dir_tables := ((replicate 1024 0)[52 := h])[0 := z],
           dir_tables_phys := ((replicate 1024 0)[52 := h OR 7])[0 := z OR 7],
           page_tables := (\<lambda>_ _. zero_page)
             (h := fill_entries n 0 16 (\<lambda>_. zero_page), z := fill_entries 1 1 n (\<lambda>_. zero_page)),
           paging := True, heap_is_initialized := True\<rparr>)"

lemma mapped_bounds:
  assumes "bare v"
  shows "24 \<le> mapped v" "mapped v \<le> 1024"
proof -
  have "1 \<le> unat (phys_alloc_addr v) div 4096" using assms by (simp add: bare_def Suc_le_eq div_greater_zero_iff)
  then show "24 \<le> mapped v" by (simp add: mapped_def)
  have "unat (phys_alloc_addr v) div 4096 < 1002" using assms by (simp add: bare_def div_less_iff_less_mult)
  then show "mapped v \<le> 1024" by (simp add: mapped_def)
qed

text \<open>The directory and the table of the heap.\<close>

lemma first_tables:
  assumes b: "bare v"
  defines "n \<equiv> mapped v"
  shows "kmalloc 8192 True False v = Inr (page_at (n - 22), page_at (n - 22), v\<lparr>phys_alloc_addr := page_at (n - 20)\<rparr>)"
proof -
  have k: "\<not> heap_is_initialized v" "4096 \<le> unat (phys_alloc_addr v)" "unat (phys_alloc_addr v) div 4096 < 1048575"
    using b mapped_bounds[OF b] by (auto simp: bare_def mapped_def)
  have "n - 22 = unat (phys_alloc_addr v) div 4096 + 1" "n - 20 = n - 22 + 2"
    using mapped_bounds[OF b] by (simp_all add: n_def mapped_def)
  then show ?thesis using kmalloc_page[OF k, of 8192 False] page_at_add[of "n - 22" 2] k(1)
    by (simp add: kmalloc_def Let_def)
qed

lemma heap_table_loop:
  assumes "\<not> heap_is_initialized v" and "phys_alloc_addr v = page_at p" "0 < p" "p < 1048000"
    and "dir_tables v = replicate 1024 0" "dir_tables_phys v = replicate 1024 0"
  shows "foldE (\<lambda>i v. bindE (get_page (0xD000000 + of_nat i) True v) (\<lambda>(_, v). Inr v)) [0..<0x10000] v =
    Inr (v\<lparr>phys_alloc_addr := page_at (p + 2), dir_tables := (replicate 1024 0)[52 := page_at (p + 1)],
      dir_tables_phys := (replicate 1024 0)[52 := page_at (p + 1) OR 7]\<rparr>)" (is "foldE ?f _ v = Inr ?v")
proof -
  have up: "[0..<0x10000] = 0 # [1..<0x10000]" by (rule upt_conv_Cons[of 0, simplified One_nat_def[symmetric]]) simp
  have "get_page (0xD000000 + of_nat 0) True v = Inr (Some (page_at (p + 1), 0), ?v)"
    using get_page_new[OF assms(1-4), of "0xD000000 + of_nat 0"] heap_address[of 0] assms(5,6) by simp
  then have one: "?f 0 v = Inr ?v" by simp
  have nz: "page_at (p + 1) \<noteq> 0" using page_at_zero[of "p + 1"] assms(4) by simp
  have rest: "?f i ?v = Inr ?v" if "i \<in> set [1..<0x10000]" for i
    using that heap_address[of i] nz get_page_present[of ?v "0xD000000 + of_nat i" "page_at (p + 1)"] by simp
  have "foldE ?f [1..<0x10000] ?v = Inr ?v" using rest by (rule foldE_idle)
  then show ?thesis unfolding up using one by simp
qed

text \<open>The identity mapping: its first page makes the table.\<close>

lemma identity_loop_start:
  assumes "\<not> heap_is_initialized v" and "phys_alloc_addr v = page_at p" "0 < p" "p + 18 \<le> 1024"
    and "length (dir_tables v) = 1024" "length (dir_tables_phys v) = 1024" "dir_tables v ! 0 = 0"
    and "frames v = bitmap 0" and "page_tables v = (\<lambda>_ _. zero_page)"
  defines "z \<equiv> page_at (p + 1)"
  defines "v1 \<equiv> v\<lparr>phys_alloc_addr := page_at (p + 2), dir_tables := (dir_tables v)[0 := z],
      dir_tables_phys := (dir_tables_phys v)[0 := z OR 7]\<rparr>"
  shows "identity_loop 0 v = Some (Inr (fill_table z 0 0 (p + 18) v1))"
proof -
  let ?v2 = "set_page (z, 0) (frame_page 0) (v1\<lparr>frames := bitmap (Suc 0)\<rparr>)"
  have pos: "0 < phys_alloc_addr v + 0x10000"
  proof -
    have "phys_alloc_addr v + 0x10000 = page_at (p + 16)" using assms(2) page_at_add[of p 16] by simp
    then show ?thesis using page_at_zero[of "p + 16"] assms(4) by (simp add: word_gt_0)
  qed
  have idx: "table_index 0 = 0" "page_offset 0 = 0" by (simp_all add: table_index_def page_offset_def)
  have "get_page 0 True v = Inr (Some (z, 0), v1)"
    using get_page_new[OF assms(1-3) _ assms(5,6), of 0] assms(4,7) by (simp add: idx v1_def z_def)
  moreover have "new_frame (Some (z, 0)) v1 = Inr ?v2"
    using new_frame_ok[of v1 0 z 0] assms(8,9) by (simp add: v1_def)
  ultimately have "map_page 0 v = Inr ?v2" by (simp add: map_page_def)
  moreover have "identity_loop (of_nat 1 * 0x1000) ?v2 = Some (Inr (fill_table z 1 1 (p + 18) ?v2))"
  proof (rule identity_loop_run)
    have "phys_alloc_addr ?v2 + 0x10000 = page_at (p + 18)" using page_at_add[of "p + 2" 16] by (simp add: set_page_def v1_def add.commute)
    then show "unat (phys_alloc_addr ?v2 + 0x10000) \<le> (p + 18) * 4096"
      "(p + 18) * 4096 < unat (phys_alloc_addr ?v2 + 0x10000) + 4096"
      using unat_page_at[of "p + 18"] assms(4) by simp_all
    show "z \<noteq> 0" using page_at_zero[of "p + 1"] assms(4) by (simp add: z_def)
  qed (use assms(4,5,9) in \<open>simp_all add: set_page_def v1_def\<close>)
  moreover have "fill_table z 1 1 (p + 18) ?v2 = fill_table z 0 0 (p + 18) v1"
    using fill_table_step[of 0 "p + 18" z 0 v1] by simp
  ultimately show ?thesis using pos by (subst identity_loop.simps) simp
qed

text \<open>The two tables that \<open>vm_init\<close> fills, the page of address 0 taken out again.\<close>

lemma two_tables:
  assumes hz: "h \<noteq> z" and v: "page_tables v = (\<lambda>_ _. zero_page)"
  shows "page_tables (set_page (z, 0) zero_page (fill_table h n 0 16 (fill_table z 0 0 n v))) =
    (\<lambda>_ _. zero_page)(h := fill_entries n 0 16 (\<lambda>_. zero_page), z := fill_entries 1 1 n (\<lambda>_. zero_page))"
proof -
  have z: "(fill_entries 0 0 n (\<lambda>_. zero_page))(0 := zero_page) = fill_entries 1 1 n (\<lambda>_. zero_page)"
    by (auto simp: fill_entries_def fun_eq_iff)
  have "page_tables (fill_table h n 0 16 (fill_table z 0 0 n v)) =
      (\<lambda>_ _. zero_page)(z := fill_entries 0 0 n (\<lambda>_. zero_page), h := fill_entries n 0 16 (\<lambda>_. zero_page))"
    using hz by (simp add: v fill_table_def)
  then show ?thesis using hz z by (simp add: set_page_def fun_upd_twist)
qed

lemma vm_init_booted:
  assumes b: "bare v"
  shows "vm_init v = Inr (booted v)"
proof -
  define n where "n = mapped v"
  note nb = mapped_bounds[OF b, folded n_def]
  let ?h = "page_at (n - 19)" and ?z = "page_at (n - 17)"
  define v0 where "v0 = v\<lparr>phys_alloc_addr := page_at (n - 20), kdir := page_at (n - 22),
      dir_tables := replicate 1024 0, dir_tables_phys := replicate 1024 0\<rparr>"
  define v1 where "v1 = v0\<lparr>phys_alloc_addr := page_at (n - 18), dir_tables := (replicate 1024 0)[52 := ?h],
      dir_tables_phys := (replicate 1024 0)[52 := ?h OR 7]\<rparr>"
  define v2 where "v2 = v1\<lparr>phys_alloc_addr := page_at (n - 16), dir_tables := (dir_tables v1)[0 := ?z],
      dir_tables_phys := (dir_tables_phys v1)[0 := ?z OR 7]\<rparr>"
  have e: "n - 20 + 1 = n - 19" "n - 20 + 2 = n - 18" "n - 18 + 1 = n - 17" "n - 18 + 2 = n - 16" "n - 18 + 18 = n"
    using nb by simp_all
  have bv: "\<not> heap_is_initialized v" "frames v = bitmap 0" "page_tables v = (\<lambda>_ _. zero_page)"
    using b by (simp_all add: bare_def)
  have ht: "foldE (\<lambda>i v. bindE (get_page (0xD000000 + of_nat i) True v) (\<lambda>(_, v). Inr v)) [0..<0x10000] v0 = Inr v1"
    using heap_table_loop[of v0 "n - 20"] nb bv(1) unfolding e by (simp add: v0_def v1_def)
  have il: "identity_loop 0 v1 = Some (Inr (fill_table ?z 0 0 n v2))"
    using identity_loop_start[of v1 "n - 18"] nb bv unfolding e v2_def by (simp add: v0_def v1_def)
  have hz: "?h \<noteq> ?z" "?h \<noteq> 0" "?z \<noteq> 0"
  proof -
    have "unat ?h \<noteq> unat ?z" using nb by (simp add: unat_page_at)
    then show "?h \<noteq> ?z" by auto
    show "?h \<noteq> 0" "?z \<noteq> 0" using nb by (simp_all add: page_at_zero)
  qed
  have hl: "foldE (\<lambda>i. map_page (0xD000000 + of_nat i * 0x1000)) [0..<16] (fill_table ?z 0 0 n v2) =
      Inr (fill_table ?h n 0 16 (fill_table ?z 0 0 n v2))"
    using hz nb bv by (intro heap_loop_run) (simp_all add: fill_table_def v2_def v1_def v0_def)
  have "dir_tables v2 ! 0 = ?z" "length (dir_tables v2) = 1024" by (simp_all add: v2_def v1_def)
  then have d0: "peek (dir_tables (fill_table ?h n 0 16 (fill_table ?z 0 0 n v2))) 0 = Inr ?z"
    by (simp add: fill_table_def)
  have "(set_page (?z, 0) zero_page (fill_table ?h n 0 16 (fill_table ?z 0 0 n v2)))
      \<lparr>paging := True, heap_is_initialized := True\<rparr> = booted v"
  proof -
    have "page_tables v2 = (\<lambda>_ _. zero_page)" using bv(3) by (simp add: v2_def v1_def v0_def)
    from two_tables[OF hz(1) this]
    have "page_tables (set_page (?z, 0) zero_page (fill_table ?h n 0 16 (fill_table ?z 0 0 n v2))) =
        (\<lambda>_ _. zero_page)(?h := fill_entries n 0 16 (\<lambda>_. zero_page), ?z := fill_entries 1 1 n (\<lambda>_. zero_page))" .
    then show ?thesis
      by (simp add: booted_def Let_def n_def[symmetric] fill_table_def set_page_def v2_def v1_def v0_def)
  qed
  moreover have "vm_init v = bindE (foldE (\<lambda>i v. bindE (get_page (0xD000000 + of_nat i) True v) (\<lambda>(_, v). Inr v)) [0..<0x10000] v0) (\<lambda>v.
        bindE (loop_result (identity_loop 0 v)) (\<lambda>v.
        bindE (foldE (\<lambda>i. map_page (0xD000000 + of_nat i * 0x1000)) [0..<16] v) (\<lambda>v.
        bindE (peek (dir_tables v) 0) (\<lambda>t0.
        if t0 = 0 then Inl NullDeref
        else Inr ((set_page (t0, 0) zero_page v)\<lparr>paging := True, heap_is_initialized := True\<rparr>)))))"
    unfolding vm_init_def first_tables[OF b, folded n_def] by (simp only: bindE.simps prod.case Let_def v0_def)
  ultimately show ?thesis using hz by (simp only: ht il hl d0 bindE.simps loop_result_Some if_False)
qed

section \<open>The translation of addresses\<close>

text \<open>The walk of the processor: the entry of the directory, the entry of the table, the
  offset; \<open>None\<close> is a page fault.\<close>

definition translate :: "vm \<Rightarrow> u32 \<Rightarrow> u32 option" where
  "translate v a =
     (let d = dir_tables_phys v ! table_index a;
          e = page_tables v (d AND 0xFFFFF000) (page_offset a)
      in if bit d 0 \<and> present e
         then Some (ucast (frameaddr e) * 0x1000 + (a AND 0xFFF)) else None)"

lemma frame_address:
  assumes "n < 1048576"
  shows "(ucast (frameaddr (frame_page n)) :: u32) * 0x1000 = page_at n"
  using assms by (simp add: frame_page_def page_at_def unsigned_of_nat take_bit_nat_eq_self)

lemma page_parts: "unat a div 4096 < 1048576 \<Longrightarrow> page_at (unat a div 4096) + (a AND 0xFFF) = a"
proof -
  assume p: "unat a div 4096 < 1048576"
  have "unat (page_at (unat a div 4096)) + unat (a AND 0xFFF) = unat a"
    using unat_page_at[OF p] unat_page_rest[of a] by simp
  moreover from this have "unat (page_at (unat a div 4096) + (a AND 0xFFF)) = unat (page_at (unat a div 4096)) + unat (a AND 0xFFF)"
  proof -
    have "unat a < 2 ^ LENGTH(32)" by (rule unsigned_less)
    then show ?thesis using calculation by (simp add: unat_word_ariths)
  qed
  ultimately show ?thesis by (simp add: word_unat_eq_iff)
qed

lemma booted_tables:
  assumes b: "bare v"
  defines "n \<equiv> mapped v"
  shows "dir_tables_phys (booted v) ! 0 = page_at (n - 17) OR 7"
    "dir_tables_phys (booted v) ! 52 = page_at (n - 19) OR 7"
    "i < 1024 \<Longrightarrow> i \<noteq> 0 \<Longrightarrow> i \<noteq> 52 \<Longrightarrow> dir_tables_phys (booted v) ! i = 0"
    "page_tables (booted v) (page_at (n - 17)) = fill_entries 1 1 n (\<lambda>_. zero_page)"
    "page_tables (booted v) (page_at (n - 19)) = fill_entries n 0 16 (\<lambda>_. zero_page)"
proof -
  note nb = mapped_bounds[OF b, folded n_def]
  have "unat (page_at (n - 19)) \<noteq> unat (page_at (n - 17))" using nb by (simp add: unat_page_at)
  then show "dir_tables_phys (booted v) ! 0 = page_at (n - 17) OR 7"
    "dir_tables_phys (booted v) ! 52 = page_at (n - 19) OR 7"
    "i < 1024 \<Longrightarrow> i \<noteq> 0 \<Longrightarrow> i \<noteq> 52 \<Longrightarrow> dir_tables_phys (booted v) ! i = 0"
    "page_tables (booted v) (page_at (n - 17)) = fill_entries 1 1 n (\<lambda>_. zero_page)"
    "page_tables (booted v) (page_at (n - 19)) = fill_entries n 0 16 (\<lambda>_. zero_page)"
    by (auto simp: booted_def Let_def n_def[symmetric])
qed

lemma zero_not_present [simp]: "\<not> present zero_page" "present (frame_page n)"
  by (simp_all add: zero_page_def frame_page_def)

lemma fill_entries_simps [simp]:
  "m \<le> j \<Longrightarrow> j < n \<Longrightarrow> fill_entries f m n e j = frame_page (f + (j - m))"
  "\<not> (m \<le> j \<and> j < n) \<Longrightarrow> fill_entries f m n e j = e j"
  by (auto simp: fill_entries_def)

lemma translate_low:
  assumes b: "bare v" and a: "unat a < 4194304"
  shows "translate (booted v) a = (if 4096 \<le> unat a \<and> unat a < mapped v * 4096 then Some a else None)"
proof -
  define n where "n = mapped v"
  note nb = mapped_bounds[OF b, folded n_def] and t = booted_tables[OF b, folded n_def]
  have i: "table_index a = 0" "page_offset a = unat a div 4096" "unat a div 4096 < 1024"
    using a by (simp_all add: table_index_eq page_offset_eq div_less_iff_less_mult)
  have p: "n - 17 < 1048576" using nb by simp
  have c: "4096 \<le> unat a \<and> unat a < n * 4096 \<longleftrightarrow> 1 \<le> unat a div 4096 \<and> unat a div 4096 < n"
    by (simp add: Suc_le_eq div_greater_zero_iff div_less_iff_less_mult)
  have "unat a div 4096 < 1048576" using i(3) by simp
  note pp = page_parts[OF this] frame_address[OF this]
  have "fill_entries 1 1 n (\<lambda>_. zero_page) j = (if 1 \<le> j \<and> j < n then frame_page j else zero_page)" for j
    by (auto simp: fill_entries_def)
  then show ?thesis using pp
    by (simp add: translate_def i(1,2) t(1,4) table_entry[OF p] Let_def n_def[symmetric] c)
qed

lemma translate_heap:
  assumes b: "bare v" and a: "0xD000000 \<le> unat a" "unat a < 0xD400000"
  shows "translate (booted v) a =
    (if unat a < 0xD010000 then Some (page_at (mapped v) + (a - 0xD000000)) else None)"
proof -
  define n where "n = mapped v"
  note nb = mapped_bounds[OF b, folded n_def] and t = booted_tables[OF b, folded n_def]
  define x where "x = unat a - 0xD000000"
  have x: "unat a = x + 53248 * 4096" "x < 4194304" using a by (simp_all add: x_def)
  have "unat a div 4194304 = 52" using a by (intro div_nat_eqI) simp_all
  then have i: "table_index a = 52" by (simp add: table_index_eq)
  have "unat a div 4096 = 53248 + x div 4096" unfolding x(1) by (subst div_mult_self1) simp_all
  moreover have xl: "x div 4096 < 1024" using x(2) by (simp add: div_less_iff_less_mult)
  ultimately have j: "page_offset a = x div 4096"
    using mod_mult_self1[of "x div 4096" 52 1024] by (simp add: page_offset_eq add.commute)
  have p: "n - 19 < 1048576" using nb by simp
  have c: "unat a < 0xD010000 \<longleftrightarrow> x div 4096 < 16" using x(1) by (simp add: div_less_iff_less_mult)
  have "page_at (n + x div 4096) + (a AND 0xFFF) = page_at n + (a - 0xD000000)"
  proof -
    have ax: "a - 0xD000000 = of_nat x"
    proof -
      have "a = of_nat (unat a)" by simp
      also have "\<dots> = of_nat x + 0xD000000" unfolding x(1) by simp
      finally show ?thesis by (simp add: algebra_simps)
    qed
    have r: "unat (a AND 0xFFF) = x mod 4096" unfolding unat_page_rest x(1) by (rule mod_mult_self1)
    have "of_nat (unat (a AND 0xFFF)) = a AND 0xFFF" by (simp only: of_nat_unat ucast_id)
    then have "a AND 0xFFF = of_nat (x mod 4096)" unfolding r by (rule sym)
    then have "page_at (n + x div 4096) + (a AND 0xFFF) =
        page_at n + (of_nat (x div 4096) * 0x1000 + of_nat (x mod 4096))"
      by (simp add: page_at_def algebra_simps)
    also have "of_nat (x div 4096) * 0x1000 + of_nat (x mod 4096) = (of_nat x :: u32)"
      by (metis div_mult_mod_eq of_nat_add of_nat_mult of_nat_numeral)
    finally show ?thesis using ax by simp
  qed
  moreover have "n + x div 4096 < 1048576" using nb xl by simp
  moreover have "fill_entries n 0 16 (\<lambda>_. zero_page) j = (if j < 16 then frame_page (n + j) else zero_page)" for j
    by (auto simp: fill_entries_def)
  ultimately show ?thesis
    by (simp add: translate_def i j t(2,5) table_entry[OF p] Let_def n_def[symmetric] c frame_address)
qed

lemma translate_elsewhere:
  assumes b: "bare v" and a: "table_index a \<noteq> 0" "table_index a \<noteq> 52"
  shows "translate (booted v) a = None"
proof -
  have "unat a < 2 ^ LENGTH(32)" by (rule unsigned_less)
  then have "table_index a < 1024" by (simp add: table_index_eq div_less_iff_less_mult)
  then show ?thesis using booted_tables(3)[OF b _ a] by (simp add: translate_def Let_def)
qed

section \<open>Properties\<close>

text \<open>Property C11. \<open>vm_init\<close> always ends when the kernel lies in the first 4 MB and memory is
  zeroed; then the first pages, which hold the kernel and all tables, are mapped to
  themselves except for page 0, the 64 KB of the heap are mapped to the frames behind them,
  and every other address, NULL among them, is a page fault. The frames that are marked as
  used are exactly the mapped ones and frame 0, and the heap begins empty.\<close>

theorem vm_init_maps:
  assumes "bare v"
  shows "\<exists>v'. vm_init v = Inr v' \<and> paging v' \<and> heap_is_initialized v' \<and> heap_addr v' = heap_addr v \<and>
    frames v' = bitmap (mapped v + 16) \<and> unat (phys_alloc_addr v') \<le> mapped v * 4096 \<and>
    (\<forall>a. translate v' a =
       (if 4096 \<le> unat a \<and> unat a < mapped v * 4096 then Some a
        else if 0xD000000 \<le> unat a \<and> unat a < 0xD010000 then Some (page_at (mapped v) + (a - 0xD000000))
        else None))"
proof (intro exI conjI allI)
  note nb = mapped_bounds[OF assms]
  show "vm_init v = Inr (booted v)" by (rule vm_init_booted[OF assms])
  show "paging (booted v)" "heap_is_initialized (booted v)" "heap_addr (booted v) = heap_addr v"
    "frames (booted v) = bitmap (mapped v + 16)"
    by (simp_all add: booted_def Let_def)
  show "unat (phys_alloc_addr (booted v)) \<le> mapped v * 4096"
    using nb by (simp add: booted_def Let_def unat_page_at)
  fix a
  consider "unat a < 4194304" | "0xD000000 \<le> unat a" "unat a < 0xD400000"
    | "table_index a \<noteq> 0" "table_index a \<noteq> 52" "4194304 \<le> unat a" "\<not> (0xD000000 \<le> unat a \<and> unat a < 0xD010000)"
    using dividend_less_div_times[of 4194304 "unat a"] by (fastforce simp: table_index_eq)
  then show "translate (booted v) a =
       (if 4096 \<le> unat a \<and> unat a < mapped v * 4096 then Some a
        else if 0xD000000 \<le> unat a \<and> unat a < 0xD010000 then Some (page_at (mapped v) + (a - 0xD000000))
        else None)"
    using nb translate_low[OF assms, of a] translate_heap[OF assms, of a] translate_elsewhere[OF assms, of a] by cases auto
qed

end
