(* ===== verification/Boot.thy ===== *)
theory Boot
  imports Tables VmInit Traps
begin

text \<open>
  Booting, \<open>kmain\<close> of \<^verbatim>\<open>kernel/kmain.c\<close>: the devices and tables are set up, the command
  handler and the idle process are created, and the software interrupt hands the processor
  to the first of them.

  \<open>board\<close> is the tables of the processor with the state of the kernel. \<open>kmain_start\<close> is
  \<open>kmain\<close> up to its \<open>int 0x60\<close>, which is a \<open>trap\<close> with the registers at this point;
  \<open>kmain_end\<close> is what it does when a later trap comes back to it.
\<close>

record board =
  bcpu :: cpu
  bkern :: kernel

record symbols =
  isr_addr :: "isr \<Rightarrow> u32"
  comhand_addr :: addr
  idle_addr :: addr

section \<open>kmain\<close>

definition klogv :: "port \<Rightarrow> string \<Rightarrow> io \<Rightarrow> io c" where
  "klogv dev msg s =
     (let prefix = lit ''klogv: '' in
      bindE (strlen prefix) (\<lambda>n. bindE (serial_out dev prefix n s) (\<lambda>(_, s).
      bindE (strlen (lit msg)) (\<lambda>n. bindE (serial_out dev (lit msg) n s) (\<lambda>(_, s).
      bindE (serial_out dev (lit (CR # [LF])) 2 s) (\<lambda>(_, s). Inr s))))))"

definition blog :: "string \<Rightarrow> board \<Rightarrow> board c" where
  "blog msg b = bindE (klogv COM1 msg (kio (bkern b))) (\<lambda>s. Inr (b\<lparr>bkern := (bkern b)\<lparr>kio := s\<rparr>\<rparr>))"

definition on_devices :: "(hw \<Rightarrow> hw) \<Rightarrow> board \<Rightarrow> board" where
  "on_devices f b = b\<lparr>bkern := (bkern b)\<lparr>kio := (kio (bkern b))\<lparr>devices := f (devices (kio (bkern b)))\<rparr>\<rparr>\<rparr>"

definition on_cpu :: "(cpu \<Rightarrow> cpu) \<Rightarrow> board \<Rightarrow> board" where
  "on_cpu f b = b\<lparr>bcpu := f (bcpu b)\<rparr>"

definition new_process :: "string \<Rightarrow> int \<Rightarrow> addr \<Rightarrow> kernel \<Rightarrow> kernel c" where
  "new_process nm pr f k =
     bindE (pcb_setup (Some (lit nm)) CLASS_SYSTEM pr f k) (\<lambda>(p, k). k_insert p k)"

definition kmain_hardware :: "symbols \<Rightarrow> board \<Rightarrow> board c" where
  "kmain_hardware sy b =
     (let b = b\<lparr>bkern := (bkern b)\<lparr>kio := snd (serial_init COM1 (kio (bkern b)))\<rparr>\<rparr>
      in bindE (blog ''Initialized serial I/O on COM1 device...'' b) (\<lambda>b.
         bindE (blog ''Initializing Global Descriptor Table...'' b) (\<lambda>b.
         bindE (blog ''Initializing Interrupt Descriptor Table...'' (on_cpu gdt_init b)) (\<lambda>b.
         bindE (blog ''Disabling interrupts...'' (on_cpu idt_init b)) (\<lambda>b.
         bindE (blog ''Initializing Interrupt Request routines...'' (on_devices cli b)) (\<lambda>b.
         bindE (irq_init (isr_addr sy) (bcpu b)) (\<lambda>c.
         bindE (blog ''Initializing Programmable Interrupt Controller...'' (b\<lparr>bcpu := c\<rparr>)) (\<lambda>b.
         bindE (blog ''Enabling Interrupts...'' (on_devices pic_init b)) (\<lambda>b.
         bindE (blog ''Initializing Virtual Memory...'' (on_devices sti b)) (\<lambda>b.
         bindE (vm_init (kvm (bkern b))) (\<lambda>v.
         Inr (b\<lparr>bkern := (bkern b)\<lparr>kvm := v\<rparr>\<rparr>))))))))))))"

definition kmain_modules :: "symbols \<Rightarrow> board \<Rightarrow> board c" where
  "kmain_modules sy b =
     bindE (blog ''Initializing MPX modules...'' b) (\<lambda>b.
     bindE (blog ''Transferring control to commhand...'' b) (\<lambda>b.
     bindE (new_process ''commhand'' 0 (comhand_addr sy) (bkern b)) (\<lambda>k.
     bindE (new_process ''idle'' 9 (idle_addr sy) k) (\<lambda>k.
     Inr (b\<lparr>bkern := k\<rparr>)))))"

definition kmain_start :: "symbols \<Rightarrow> board \<Rightarrow> board c" where
  "kmain_start sy b = bindE (kmain_hardware sy b) (kmain_modules sy)"

text \<open>The software interrupt to the dispatcher, with \<open>IDLE\<close> in eax.\<close>

definition kmain_trap :: "cpu_context \<Rightarrow> board \<Rightarrow> (cpu_context \<times> board) c" where
  "kmain_trap regs b =
     bindE (trap (regs\<lparr>reg_eax := IDLE\<rparr>) (bkern b)) (\<lambda>(regs', k). Inr (regs', b\<lparr>bkern := k\<rparr>))"

definition kmain_end :: "board \<Rightarrow> board c" where
  "kmain_end b =
     bindE (blog ''Starting system shutdown procedure...'' b) (blog ''Halting CPU...'')"

section \<open>The log\<close>

lemma klogv_online:
  assumes "online dev s" and "NUL \<notin> set msg"
  shows "klogv dev msg s =
    Inr (set_line dev (sent dev s @ ''klogv: '' @ msg @ [CR, LF]) (pending dev s) s)"
proof -
  have out: "online dev s' \<Longrightarrow> NUL \<notin> set m \<Longrightarrow> n \<le> length m \<Longrightarrow> serial_out dev (lit m) n s' =
      Inr (int n, set_line dev (sent dev s' @ take n m) (pending dev s') s')" for m n s'
    using serial_out_online[of dev s' n "lit m"] by (simp add: lit_def)
  show ?thesis using assms by (simp add: klogv_def Let_def out text_of_lit del: lit_def)
qed

definition logged :: "string \<Rightarrow> string" where
  "logged msg = ''klogv: '' @ msg @ [CR, LF]"

lemma blog_online:
  "online COM1 (kio (bkern b)) \<Longrightarrow> NUL \<notin> set msg \<Longrightarrow>
   blog msg b = Inr (b\<lparr>bkern := emit (logged msg) (bkern b)\<rparr>)"
  by (simp add: blog_def klogv_online emit_def logged_def)

section \<open>The first processes\<close>

lemma new_process_ok:
  fixes f :: addr
  assumes wf: "wf k A" and room: "room 1076 (kvm k)"
    and nm: "NUL \<notin> set nm" "length nm < 16" and pr: "0 \<le> pr" "pr \<le> 9"
    and new: "\<forall>a. queued A a \<longrightarrow> name_of (pcbq k) a \<noteq> nm"
  defines "a \<equiv> heap_addr (kvm k)" and "k1 \<equiv> add_process nm CLASS_SYSTEM pr f k"
  obtains s where "new_process nm pr f k = Inr (k1\<lparr>pcbq := s\<rparr>)" "same_pcbs (pcbq k1) s"
    "wf (k1\<lparr>pcbq := s\<rparr>) (A(ReadyQ := ins_ready (prio_of s) a (A ReadyQ)))"
proof -
  have st: "pcb_setup (Some (lit nm)) CLASS_SYSTEM pr f k = Inr (a, k1)"
    using pcb_setup_ok[OF wf room, of "lit nm"] nm pr new by (simp add: text_of_lit a_def k1_def)
  have wf1: "wf k1 A" unfolding k1_def by (rule wf_add_process[OF wf room nm pr])
  have p: "pcbs (pcbq k1) a = Some (setup_pcb nm CLASS_SYSTEM pr a)" by (simp add: k1_def add_process_def a_def Let_def)
  have nq: "\<not> queued A a" unfolding a_def by (rule heap_addr_fresh[OF wf])
  have home: "home_of (pcbq k1) a = Some ReadyQ"
    by (simp add: home_of_def p select_queue_def setup_pcb_def fresh_pcb_def zero_pcb_def)
  have fr: "live k1 (contextPtr q)" if "pcbs (pcbq k1) a = Some q" for q
  proof -
    have "unat (a + 1016) = unat a + 1016"
      unfolding a_def using heap_offset[OF wfD(2)[OF wf] room, of 1016] by simp
    then have "frame_of a \<noteq> NULL" by (auto simp: frame_of_def)
    moreover have "contextPtr q = frame_of a" using that p by (auto simp: setup_pcb_def fresh_pcb_def)
    ultimately show ?thesis by (simp add: live_def k1_def add_process_def a_def Let_def)
  qed
  obtain s where s: "k_insert a k1 = Inr (k1\<lparr>pcbq := s\<rparr>)" "same_pcbs (pcbq k1) s"
    "wf (k1\<lparr>pcbq := s\<rparr>) (A(ReadyQ := place (pcbq k1) a ReadyQ (A ReadyQ)))"
    by (rule k_insert_detached[OF wf1 nq home fr])
  have "prio_of s = prio_of (pcbq k1)" by (rule same_pcbs_prio_of[OF s(2)])
  then show ?thesis using that[of s] s st by (simp add: new_process_def place_def)
qed

section \<open>The hardware\<close>

lemma blog_step [simp]:
  "online COM1 (kio (bkern b)) \<Longrightarrow> NUL \<notin> set msg \<Longrightarrow>
   bindE (blog msg b) f = f (b\<lparr>bkern := emit (logged msg) (bkern b)\<rparr>)"
  by (simp add: blog_online)

text \<open>What no device routine but the serial driver changes.\<close>

definition same_line :: "(hw \<Rightarrow> hw) \<Rightarrow> bool" where
  "same_line f \<longleftrightarrow> (\<forall>m. uarts (f m) = uarts m)"

lemma same_line_devices [simp]: "same_line cli" "same_line sti" "same_line pic_init"
proof -
  show "same_line pic_init" unfolding same_line_def
    using pic_init_log(1) by (metis hw.ext_inject hw.surjective hw.update_convs(5))
qed (simp_all add: same_line_def cli_def sti_def)

lemma on_devices_sel [simp]:
  "bcpu (on_devices f b) = bcpu b" "pcbq (bkern (on_devices f b)) = pcbq (bkern b)"
  "contexts (bkern (on_devices f b)) = contexts (bkern b)" "curProc (bkern (on_devices f b)) = curProc (bkern b)"
  "kvm (bkern (on_devices f b)) = kvm (bkern b)"
  "devices (kio (bkern (on_devices f b))) = f (devices (kio (bkern b)))"
  by (simp_all add: on_devices_def)

lemma on_devices_line [simp]:
  assumes "same_line f"
  shows "online COM1 (kio (bkern (on_devices f b))) = online COM1 (kio (bkern b))"
    "console (bkern (on_devices f b)) = console (bkern b)"
    "pending COM1 (kio (bkern (on_devices f b))) = pending COM1 (kio (bkern b))"
  using assms by (simp_all add: same_line_def online_def console_def sent_def pending_def on_devices_def)

lemma on_cpu_sel [simp]: "bcpu (on_cpu f b) = f (bcpu b)" "bkern (on_cpu f b) = bkern b"
  by (simp_all add: on_cpu_def)

lemma emit_devices [simp]:
  "interrupts_on (devices (kio (emit str k))) = interrupts_on (devices (kio k))"
  "port_log (devices (kio (emit str k))) = port_log (devices (kio k))"
  by (simp_all add: emit_def set_line_def)

lemma console_kvm [simp]: "console (k\<lparr>kvm := v\<rparr>) = console k"
  by (simp add: console_def)

definition hardware_log :: string where
  "hardware_log = concat (map logged
     [''Initialized serial I/O on COM1 device...'', ''Initializing Global Descriptor Table...'',
      ''Initializing Interrupt Descriptor Table...'', ''Disabling interrupts...'',
      ''Initializing Interrupt Request routines...'', ''Initializing Programmable Interrupt Controller...'',
      ''Enabling Interrupts...'', ''Initializing Virtual Memory...''])"

text \<open>The machine when \<open>kmain\<close> begins: the loader has zeroed the memory of the kernel, the
  heap begins at its start, and no device has been programmed.\<close>

definition powered :: "board \<Rightarrow> bool" where
  "powered b \<longleftrightarrow> bare (kvm (bkern b)) \<and> heap_addr (kvm (bkern b)) = 0xD000000 \<and>
     pcbq (bkern b) = init_pcb_state \<and> curProc (bkern b) = NULL \<and>
     \<not> dlab (uarts (devices (kio (bkern b))) COM1) \<and> port_log (devices (kio (bkern b))) = [] \<and>
     idt_entries (bcpu b) = replicate 256 no_entry"

text \<open>What the hardware part leaves.\<close>

definition hardware_up :: "symbols \<Rightarrow> board \<Rightarrow> board \<Rightarrow> bool" where
  "hardware_up sy b b' \<longleftrightarrow>
     pcbq (bkern b') = pcbq (bkern b) \<and> contexts (bkern b') = contexts (bkern b) \<and>
     curProc (bkern b') = curProc (bkern b) \<and> kvm (bkern b') = booted (kvm (bkern b)) \<and>
     online COM1 (kio (bkern b')) \<and> interrupts_on (devices (kio (bkern b'))) \<and>
     pending COM1 (kio (bkern b')) = stl (pending COM1 (kio (bkern b))) \<and>
     console (bkern b') = console (bkern b) @ hardware_log \<and>
     gdt (bcpu b') = gdt_table \<and> seg_ss (bcpu b') = 0x10 \<and> idt_loaded (bcpu b') \<and>
     gate (bcpu b') 0x60 = Some (isr_addr sy Sys_call_isr)"

lemma kmain_hardware_ok:
  assumes p: "powered b"
  obtains b' where "kmain_hardware sy b = Inr b'" "hardware_up sy b b'"
proof -
  have d: "serial_devno COM1 \<noteq> -1" "\<not> dlab (uarts (devices (kio (bkern b))) COM1)"
    using p by (simp_all add: powered_def serial_devno_def)
  note cfg = serial_init_configures[OF d]
  have on: "online COM1 (snd (serial_init COM1 (kio (bkern b))))"
    and con: "console ((bkern b)\<lparr>kio := snd (serial_init COM1 (kio (bkern b)))\<rparr>) = console (bkern b)"
    using cfg(2,3) by (simp_all add: console_def sent_def)
  have pd: "pending COM1 (snd (serial_init COM1 (kio (bkern b)))) = stl (pending COM1 (kio (bkern b)))"
    using cfg(3) by (simp add: pending_def)
  have v: "vm_init (kvm (bkern b)) = Inr (booted (kvm (bkern b)))"
    using p by (intro vm_init_booted) (simp add: powered_def)
  let ?c = "idt_init (gdt_init (bcpu b))"
  have "length (idt_entries ?c) = 256" using p by (simp add: powered_def idt_init_def gdt_init_def)
  then obtain c where c: "irq_init (isr_addr sy) ?c = Inr c" "gate c 0x60 = Some (isr_addr sy Sys_call_isr)"
    "c = ?c\<lparr>idt_entries := idt_entries c\<rparr>"
    using irq_init_ok[of ?c "isr_addr sy"] by auto
  have cpu: "gdt c = gdt_table" "seg_ss c = 0x10" "idt_loaded c"
    by (subst c(3), simp add: idt_init_def gdt_init_def)+
  have "\<exists>b'. kmain_hardware sy b = Inr b' \<and> hardware_up sy b b'"
    unfolding kmain_hardware_def Let_def
    by (simp add: on c(1) v) (simp add: hardware_up_def on con pd v cpu c(2) hardware_log_def sti_def logged_def)
  then show ?thesis using that by blast
qed

section \<open>The first processes stand in the ready queue\<close>

text \<open>\<open>pcb_at k a p\<close>: the PCB at \<open>a\<close> is \<open>p\<close>, but for its links.\<close>

definition pcb_at :: "kernel \<Rightarrow> addr \<Rightarrow> pcb \<Rightarrow> bool" where
  "pcb_at k a p \<longleftrightarrow> map_option unlinked (pcbs (pcbq k) a) = Some (unlinked p)"

lemma pcb_atD:
  assumes "pcb_at k a p"
  obtains p' where "pcbs (pcbq k) a = Some p'" "contextPtr p' = contextPtr p" "priority p' = priority p"
    "pname p' = pname p" "process_class p' = process_class p"
proof -
  obtain p' where p': "pcbs (pcbq k) a = Some p'" "unlinked p' = unlinked p" using assms by (auto simp: pcb_at_def)
  show ?thesis by (rule that[OF p'(1)]) (use unlinked_fields[OF p'(2)] in simp_all)
qed

lemma pcb_at_same: "same_pcbs (pcbq k) (pcbq k') \<Longrightarrow> pcb_at k' a p = pcb_at k a p"
  by (simp add: pcb_at_def same_pcbs_def)

lemma pcb_at_setup:
  assumes "pcb_at k a (setup_pcb s c pr b)"
  shows "NUL \<notin> set s \<Longrightarrow> length s < 16 \<Longrightarrow> name_of (pcbq k) a = s" "prio_of (pcbq k) a = pr"
proof -
  obtain p' where p': "pcbs (pcbq k) a = Some p'" "pname p' = s @ replicate (16 - length s) NUL" "priority p' = pr"
    using assms by (rule pcb_atD) (simp add: setup_pcb_def)
  show "prio_of (pcbq k) a = pr" using p' by (simp add: prio_of_def)
  assume "NUL \<notin> set s" "length s < 16"
  moreover from this(2) have "16 - length s = Suc (15 - length s)" by simp
  ultimately show "name_of (pcbq k) a = s" using p'(1,2) by (simp add: name_of_def text_of_append_NUL)
qed

abbreviation (input) com_pcb :: addr where "com_pcb \<equiv> 0xD000000"
abbreviation (input) idle_pcb :: addr where "idle_pcb \<equiv> 0xD000434"

definition boot_pcbs :: "kernel \<Rightarrow> bool" where
  "boot_pcbs k \<longleftrightarrow>
     pcb_at k com_pcb (setup_pcb ''commhand'' CLASS_SYSTEM 0 com_pcb) \<and>
     pcb_at k idle_pcb (setup_pcb ''idle'' CLASS_SYSTEM 9 idle_pcb) \<and>
     (\<forall>a. a \<noteq> com_pcb \<longrightarrow> a \<noteq> idle_pcb \<longrightarrow> pcbs (pcbq k) a = None)"

definition ready_only :: "addr list \<Rightarrow> qid \<Rightarrow> addr list" where
  "ready_only xs q = (if q = ReadyQ then xs else [])"

lemma ready_only_simps [simp]: "ready_only xs ReadyQ = xs" "(ready_only xs)(ReadyQ := ys) = ready_only ys"
  "queued (ready_only xs) a = (a \<in> set xs)"
  by (auto simp: ready_only_def queued_def fun_eq_iff)

lemma kmain_processes_ok:
  fixes f g :: addr
  assumes k: "pcbq k = init_pcb_state" "heap_wf (kvm k)" "heap_addr (kvm k) = com_pcb" "online COM1 (kio k)"
  obtains k1 k2 where "new_process ''commhand'' 0 f k = Inr k1" "new_process ''idle'' 9 g k1 = Inr k2"
    "wf k2 (ready_only [com_pcb, idle_pcb])" "boot_pcbs k2" "curProc k2 = curProc k" "kio k2 = kio k"
    "kvm k2 = (kvm k)\<lparr>heap_addr := 0xD000868\<rparr>"
    "contexts k2 = (contexts k)(frame_of com_pcb \<mapsto> initial_frame f (frame_of com_pcb) zero_context,
       frame_of idle_pcb \<mapsto> initial_frame g (frame_of idle_pcb) zero_context)"
proof -
  have "wf k (ready_only [])" using k rep_init
    by (simp add: wf_def frames_ok_def init_pcb_state_def ready_only_def[abs_def])
  moreover have "room 1076 (kvm k)" using k(3) by (simp add: room_def)
  ultimately obtain s1 where s1: "new_process ''commhand'' 0 f k = Inr ((add_process ''commhand'' CLASS_SYSTEM 0 f k)\<lparr>pcbq := s1\<rparr>)"
    "same_pcbs (pcbq (add_process ''commhand'' CLASS_SYSTEM 0 f k)) s1"
    "wf ((add_process ''commhand'' CLASS_SYSTEM 0 f k)\<lparr>pcbq := s1\<rparr>) (ready_only [com_pcb])"
    by (rule new_process_ok[of k "ready_only []" "''commhand''" 0 f]) (simp_all add: k ins_ready_def)
  let ?k1 = "(add_process ''commhand'' CLASS_SYSTEM 0 f k)\<lparr>pcbq := s1\<rparr>"
  have u: "map_option unlinked (pcbs s1 a) =
      (if a = com_pcb then Some (unlinked (setup_pcb ''commhand'' CLASS_SYSTEM 0 com_pcb)) else None)" for a
    using s1(2) by (simp add: same_pcbs_def add_process_def Let_def k init_pcb_state_def)
  have c: "pcb_at ?k1 com_pcb (setup_pcb ''commhand'' CLASS_SYSTEM 0 com_pcb)"
    using u[of com_pcb] by (simp add: pcb_at_def)
  have h1: "heap_addr (kvm (add_process ''commhand'' CLASS_SYSTEM 0 f k)) = idle_pcb" by (simp add: add_process_def Let_def k)
  have nm: "name_of s1 com_pcb = ''commhand''" using pcb_at_setup(1)[OF c] by simp
  have "room 1076 (kvm ?k1)" by (simp add: room_def h1)
  then obtain s2 where s2: "new_process ''idle'' 9 g ?k1 = Inr ((add_process ''idle'' CLASS_SYSTEM 9 g ?k1)\<lparr>pcbq := s2\<rparr>)"
    "same_pcbs (pcbq (add_process ''idle'' CLASS_SYSTEM 9 g ?k1)) s2"
    "wf ((add_process ''idle'' CLASS_SYSTEM 9 g ?k1)\<lparr>pcbq := s2\<rparr>)
       ((ready_only [com_pcb])(ReadyQ := ins_ready (prio_of s2) idle_pcb [com_pcb]))"
    by (rule new_process_ok[OF s1(3), of "''idle''" 9 g]) (simp_all add: h1 nm)
  let ?k2 = "(add_process ''idle'' CLASS_SYSTEM 9 g ?k1)\<lparr>pcbq := s2\<rparr>"
  have "map_option unlinked (pcbs s2 a) =
      (if a = idle_pcb then Some (unlinked (setup_pcb ''idle'' CLASS_SYSTEM 9 idle_pcb)) else map_option unlinked (pcbs s1 a))" for a
    using s2(2) by (simp add: same_pcbs_def add_process_def Let_def k(3))
  then have U: "map_option unlinked (pcbs s2 a) =
      (if a = idle_pcb then Some (unlinked (setup_pcb ''idle'' CLASS_SYSTEM 9 idle_pcb))
       else if a = com_pcb then Some (unlinked (setup_pcb ''commhand'' CLASS_SYSTEM 0 com_pcb)) else None)" for a
    using u by simp
  have none: "pcbs s2 a = None" if "a \<noteq> com_pcb" "a \<noteq> idle_pcb" for a using U[of a] that by simp
  have b: "boot_pcbs ?k2"
    unfolding boot_pcbs_def pcb_at_def using U[of com_pcb] U[of idle_pcb] none by simp
  then have "prio_of s2 com_pcb = 0" "prio_of s2 idle_pcb = 9"
    using pcb_at_setup(2)[of ?k2] unfolding boot_pcbs_def by fastforce+
  then have "wf ?k2 (ready_only [com_pcb, idle_pcb])" using s2(3) by (simp add: ins_ready_def)
  then show ?thesis
    by (rule that[OF s1(1) s2(1) _ b]) (simp_all add: add_process_def Let_def k with_pcb_def)
qed

lemma boot_isolated:
  assumes b: "boot_pcbs k" and c: "curProc k = NULL"
  shows "isolated k"
proof -
  have p: "a = com_pcb \<and> contextPtr p = frame_of com_pcb \<or> a = idle_pcb \<and> contextPtr p = frame_of idle_pcb"
    if "pcbs (pcbq k) a = Some p" for a p
  proof -
    have "a = com_pcb \<or> a = idle_pcb" using b that by (fastforce simp: boot_pcbs_def)
    moreover have "contextPtr p = frame_of x" if "pcb_at k x (setup_pcb s cl q x)" "a = x" for s cl q x
      using that \<open>pcbs (pcbq k) a = Some p\<close> by (auto elim!: pcb_atD simp: setup_pcb_def fresh_pcb_def)
    ultimately show ?thesis using b by (auto simp: boot_pcbs_def)
  qed
  have "0xD000000 \<le> unat a \<and> unat a + 1076 \<le> 0xD010000 \<and> frame_in a (contextPtr p)"
    if "pcbs (pcbq k) a = Some p" for a p
    using p[OF that] by (auto simp: frame_in_def frame_of_def)
  moreover have "unat a + 1076 \<le> unat a' \<or> unat a' + 1076 \<le> unat a"
    if a: "pcbs (pcbq k) a \<noteq> None" "pcbs (pcbq k) a' \<noteq> None" "a \<noteq> a'" for a a'
  proof -
    have "a = com_pcb \<or> a = idle_pcb" "a' = com_pcb \<or> a' = idle_pcb" using a(1,2) p by auto
    then show ?thesis using a(3) by auto
  qed
  ultimately show ?thesis using c unfolding isolated_def by blast
qed

section \<open>The first dispatch\<close>

lemma trap_first:
  assumes wf: "wf_run k A" and iso: "isolated k" and own: "own_stack k regs"
    and op: "reg_eax regs = IDLE" and c: "curProc k = NULL" and q: "A ReadyQ = h # t"
  obtains regs' k' where "trap regs k = Inr (regs', k')" "saved_regs k h = Some regs'"
    "\<And>b. saved_regs k' b = saved_regs k b" "curProc k' = h" "wf_run k' (A(ReadyQ := t))" "isolated k'"
    "same_pcbs (pcbq k) (pcbq k')" "kvm k' = kvm k" "kio k' = kio k"
proof -
  obtain ctx k1 where "pushed A regs k ctx k1" by (rule push_frame_ok[OF wf iso own])
  note k1 = pushedD[OF this] and sel = pushed_sel[OF this] and keep = pushed_keep[OF this]
  have c1: "curProc k1 = NULL" and op1: "reg_eax (regs\<lparr>reg_esp := reg_esp regs - 12\<rparr>) = IDLE"
    using c op sel by simp_all
  define x where "x = regs\<lparr>reg_esp := reg_esp regs - 12, reg_eax := -1\<rparr>"
  obtain s p where s: "pcbs (pcbq k) h = Some p" "same_pcbs (pcbq k) s"
    "sys_call ctx k1 = Inr (contextPtr p, k1\<lparr>sysStackPtr := ctx, pcbq := s, curProc := h,
       contexts := (contexts k1)(ctx \<mapsto> x)\<rparr>)"
    "wf_run (k1\<lparr>sysStackPtr := ctx, pcbq := s, curProc := h, contexts := (contexts k1)(ctx \<mapsto> x)\<rparr>) (A(ReadyQ := t))"
    using sys_call_idle_first[OF k1(6,3,5) op1 c1 q] unfolding sel x_def by auto
  let ?k' = "k1\<lparr>sysStackPtr := ctx, pcbq := s, curProc := h, contexts := (contexts k1)(ctx \<mapsto> x)\<rparr>"
  have np: "pcbs (pcbq k) NULL = None" using wf repD(5)[OF wfD(1)] by (auto simp: wf_run_def)
  then have kf: "contextPtr pb \<noteq> ctx \<and> contexts ?k' (contextPtr pb) = contexts k (contextPtr pb)"
    if "pcbs (pcbq k) b = Some pb" for b pb
    using keep[OF _ that] that c by (cases "b = NULL") auto
  have same: "same_pcbs (pcbq k) (pcbq ?k')" using s(2) by simp
  obtain y where y: "contexts k (contextPtr p) = Some y" "contextPtr p \<noteq> NULL"
    using wf_frame[OF _ head_queued[where A = A, OF q] s(1)] wf by (auto simp: live_def wf_run_def)
  have "contexts k1 (contextPtr p) = Some y" "contextPtr p \<noteq> ctx" using kf[OF s(1)] y by (auto split: if_splits)
  then have tr: "trap regs k = Inr (y\<lparr>reg_esp := contextPtr p + 60\<rparr>, ?k')"
    using s(3) y(2) by (simp add: trap_def k1(1) pop_frame_live)
  have sv: "saved_regs k h = Some (y\<lparr>reg_esp := contextPtr p + 60\<rparr>)" using s(1) y by (simp add: saved_regs_def)
  have svo: "saved_regs ?k' b = saved_regs k b" for b
    by (rule saved_regs_kept[OF same refl]) (use kf in blast)
  have iso': "isolated ?k'"
  proof (rule isolated_kept[OF iso disjI1[OF same]])
    show "system_frame (sysStackPtr ?k')" using own c by (simp add: own_stack_def k1(2))
    show "frame_in (curProc k) ctx" if "curProc k \<noteq> NULL" using that c by simp
  qed (rule np)
  show ?thesis by (rule that[OF tr sv svo _ s(4) iso' same]) (simp_all add: sel)
qed

lemma kmain_modules_ok:
  assumes p: "powered b" and up: "hardware_up sy b b1"
  obtains b2 where "kmain_modules sy b1 = Inr b2" "bcpu b2 = bcpu b1" "interrupts_on (devices (kio (bkern b2)))"
    "wf_run (bkern b2) (ready_only [com_pcb, idle_pcb])" "isolated (bkern b2)" "boot_pcbs (bkern b2)"
    "curProc (bkern b2) = NULL" "kvm (bkern b2) = (booted (kvm (bkern b)))\<lparr>heap_addr := 0xD000868\<rparr>"
    "console (bkern b2) = console (bkern b) @ hardware_log @
       logged ''Initializing MPX modules...'' @ logged ''Transferring control to commhand...''"
    "contexts (bkern b2) (frame_of com_pcb) = Some (initial_frame (comhand_addr sy) (frame_of com_pcb) zero_context)"
    "contexts (bkern b2) (frame_of idle_pcb) = Some (initial_frame (idle_addr sy) (frame_of idle_pcb) zero_context)"
    "pending COM1 (kio (bkern b2)) = stl (pending COM1 (kio (bkern b)))"
proof -
  let ?msg = "logged ''Initializing MPX modules...'' @ logged ''Transferring control to commhand...''"
  let ?k = "emit ?msg (bkern b1)"
  have bt: "heap_is_initialized (booted v)" "heap_addr (booted v) = heap_addr v" for v
    by (simp_all add: booted_def Let_def)
  have k: "pcbq ?k = init_pcb_state" "heap_wf (kvm ?k)" "heap_addr (kvm ?k) = com_pcb" "online COM1 (kio ?k)"
    using p up by (simp_all add: powered_def hardware_up_def heap_wf_def bt)
  obtain k1 k2 where n: "new_process ''commhand'' 0 (comhand_addr sy) ?k = Inr k1"
    "new_process ''idle'' 9 (idle_addr sy) k1 = Inr k2" "wf k2 (ready_only [com_pcb, idle_pcb])" "boot_pcbs k2"
    "curProc k2 = curProc ?k" "kio k2 = kio ?k" "kvm k2 = (kvm ?k)\<lparr>heap_addr := 0xD000868\<rparr>"
    "contexts k2 = (contexts ?k)(frame_of com_pcb \<mapsto> initial_frame (comhand_addr sy) (frame_of com_pcb) zero_context,
       frame_of idle_pcb \<mapsto> initial_frame (idle_addr sy) (frame_of idle_pcb) zero_context)"
    by (rule kmain_processes_ok[OF k])
  have c: "curProc k2 = NULL" using n(5) p up by (simp add: powered_def hardware_up_def)
  have "kmain_modules sy b1 = Inr (b1\<lparr>bkern := k2\<rparr>)"
    using up n(1,2) by (simp add: kmain_modules_def hardware_up_def)
  moreover have "wf_run k2 (ready_only [com_pcb, idle_pcb])" using n(3) c by (simp add: wf_run_def running_ok_def)
  moreover have "console k2 = console (bkern b) @ hardware_log @ ?msg"
    using n(6) up by (simp add: console_def hardware_up_def emit_simps(9)[unfolded console_def])
  moreover have "interrupts_on (devices (kio k2))" "kvm k2 = (booted (kvm (bkern b)))\<lparr>heap_addr := 0xD000868\<rparr>"
    using n(6,7) up by (simp_all add: hardware_up_def)
  moreover have "pending COM1 (kio k2) = stl (pending COM1 (kio (bkern b)))"
    using n(6) up by (simp add: hardware_up_def)
  moreover have "frame_of com_pcb \<noteq> frame_of idle_pcb" by (simp add: frame_of_def)
  ultimately show ?thesis using that[of "b1\<lparr>bkern := k2\<rparr>"] boot_isolated[OF n(4) c] n(4,8) c by simp
qed

section \<open>Booting\<close>

lemma kmain_boot_ok:
  assumes "powered b" and "system_frame (reg_esp regs - 60)"
  shows "\<exists>b1 regs' b2. kmain_start sy b = Inr b1 \<and> kmain_trap regs b1 = Inr (regs', b2) \<and>
    paging (kvm (bkern b1)) \<and> gate (bcpu b1) 0x60 = Some (isr_addr sy Sys_call_isr) \<and>
    interrupts_on (devices (kio (bkern b1))) \<and>
    console (bkern b1) = console (bkern b) @ hardware_log @
      logged ''Initializing MPX modules...'' @ logged ''Transferring control to commhand...'' \<and>
    wf_run (bkern b1) (ready_only [com_pcb, idle_pcb]) \<and> isolated (bkern b1) \<and> boot_pcbs (bkern b1) \<and>
    regs' = (initial_frame (comhand_addr sy) (frame_of com_pcb) zero_context) \<and>
    curProc (bkern b2) = com_pcb \<and> wf_run (bkern b2) (ready_only [idle_pcb]) \<and> isolated (bkern b2) \<and>
    boot_pcbs (bkern b2) \<and>
    kvm (bkern b2) = (booted (kvm (bkern b)))\<lparr>heap_addr := 0xD000868\<rparr> \<and>
    console (bkern b2) = console (bkern b1) \<and>
    pending COM1 (kio (bkern b2)) = stl (pending COM1 (kio (bkern b))) \<and>
    saved_regs (bkern b2) idle_pcb = Some (initial_frame (idle_addr sy) (frame_of idle_pcb) zero_context)"
proof -
  obtain b0 where b0: "kmain_hardware sy b = Inr b0" "hardware_up sy b b0" by (rule kmain_hardware_ok[OF assms(1)])
  obtain b1 where b1: "kmain_modules sy b0 = Inr b1" "bcpu b1 = bcpu b0" "interrupts_on (devices (kio (bkern b1)))"
    "wf_run (bkern b1) (ready_only [com_pcb, idle_pcb])" "isolated (bkern b1)" "boot_pcbs (bkern b1)"
    "curProc (bkern b1) = NULL" "kvm (bkern b1) = (booted (kvm (bkern b)))\<lparr>heap_addr := 0xD000868\<rparr>"
    "console (bkern b1) = console (bkern b) @ hardware_log @
       logged ''Initializing MPX modules...'' @ logged ''Transferring control to commhand...''"
    "contexts (bkern b1) (frame_of com_pcb) = Some (initial_frame (comhand_addr sy) (frame_of com_pcb) zero_context)"
    "contexts (bkern b1) (frame_of idle_pcb) = Some (initial_frame (idle_addr sy) (frame_of idle_pcb) zero_context)"
    "pending COM1 (kio (bkern b1)) = stl (pending COM1 (kio (bkern b)))"
    by (rule kmain_modules_ok[OF assms(1) b0(2)])
  have own: "own_stack (bkern b1) (regs\<lparr>reg_eax := IDLE\<rparr>)" using assms(2) b1(7) by (simp add: own_stack_def)
  obtain regs' k where t: "trap (regs\<lparr>reg_eax := IDLE\<rparr>) (bkern b1) = Inr (regs', k)"
    "saved_regs (bkern b1) com_pcb = Some regs'" "\<And>a. saved_regs k a = saved_regs (bkern b1) a" "curProc k = com_pcb"
    "wf_run k ((ready_only [com_pcb, idle_pcb])(ReadyQ := [idle_pcb]))" "isolated k" "same_pcbs (pcbq (bkern b1)) (pcbq k)" "kvm k = kvm (bkern b1)" "kio k = kio (bkern b1)"
    by (rule trap_first[OF b1(4,5) own _ b1(7), of com_pcb "[idle_pcb]"]) simp_all
  have sr: "saved_regs (bkern b1) a = Some (initial_frame f (frame_of a) zero_context)"
    if pa: "pcb_at (bkern b1) a (setup_pcb s cl q a)" and ca: "contexts (bkern b1) (frame_of a) = Some (initial_frame f (frame_of a) zero_context)"
    for a s cl q f
  proof -
    obtain p' where "pcbs (pcbq (bkern b1)) a = Some p'" "contextPtr p' = contextPtr (setup_pcb s cl q a)"
      by (rule pcb_atD[OF pa])
    then show ?thesis using ca by (simp add: saved_regs_def initial_frame_def setup_pcb_def fresh_pcb_def)
  qed
  have "regs' = initial_frame (comhand_addr sy) (frame_of com_pcb) zero_context"
    "saved_regs k idle_pcb = Some (initial_frame (idle_addr sy) (frame_of idle_pcb) zero_context)"
    using t(2,3) sr[OF _ b1(10)] sr[OF _ b1(11)] b1(6) by (auto simp: boot_pcbs_def)
  moreover have "boot_pcbs k"
    using b1(6) same_pcbs_dom[OF t(7)] by (auto simp: boot_pcbs_def pcb_at_same[OF t(7)])
  moreover have "paging (kvm (bkern b1))" by (simp add: b1(8) booted_def Let_def)
  moreover have "kmain_start sy b = Inr b1" using b0(1) b1(1) by (simp add: kmain_start_def)
  moreover have "kmain_trap regs b1 = Inr (regs', b1\<lparr>bkern := k\<rparr>)" using t(1) by (simp add: kmain_trap_def)
  ultimately show ?thesis using b0(2) b1(2-6,8,9,12) t(4-6,8,9) by (intro exI[of _ b1] exI[of _ regs'] exI[of _ "b1\<lparr>bkern := k\<rparr>"])
    (simp add: hardware_up_def console_def)
qed

section \<open>Properties\<close>

text \<open>Property C8. Booting: on a machine that is \<open>powered\<close>, \<open>kmain\<close> comes to its software
  interrupt without an error, with paging on, vector 0x60 at the system call, interrupts
  enabled, the log on COM1, and the command handler (priority 0) and the idle process
  (priority 9) in the ready queue; all invariants of the dispatcher hold. The interrupt then
  starts \<open>comhand\<close> on its own stack, interrupts enabled, with the idle process ready and set
  to start at its function, and the invariants still hold.\<close>

theorem kmain_boots:
  assumes "powered b" and "system_frame (reg_esp regs - 60)"
  shows "\<exists>b1 regs' b2. kmain_start sy b = Inr b1 \<and> kmain_trap regs b1 = Inr (regs', b2) \<and>
    paging (kvm (bkern b1)) \<and> gate (bcpu b1) 0x60 = Some (isr_addr sy Sys_call_isr) \<and>
    interrupts_on (devices (kio (bkern b1))) \<and>
    console (bkern b1) = console (bkern b) @ hardware_log @
      logged ''Initializing MPX modules...'' @ logged ''Transferring control to commhand...'' \<and>
    wf_run (bkern b1) (ready_only [com_pcb, idle_pcb]) \<and> isolated (bkern b1) \<and> boot_pcbs (bkern b1) \<and>
    regs' = (initial_frame (comhand_addr sy) (frame_of com_pcb) zero_context) \<and>
    curProc (bkern b2) = com_pcb \<and> wf_run (bkern b2) (ready_only [idle_pcb]) \<and> isolated (bkern b2) \<and>
    boot_pcbs (bkern b2) \<and>
    saved_regs (bkern b2) idle_pcb = Some (initial_frame (idle_addr sy) (frame_of idle_pcb) zero_context)"
  using kmain_boot_ok[OF assms, of sy] by blast

end
