(* ===== verification/Machine.thy ===== *)
theory Machine
  imports Keeps Boot
begin

text \<open>
  The whole system: the kernel, the program of every process, and the processor.

  A \<open>prog\<close> is where a process goes on when it is dispatched; \<open>turn\<close> runs it up to its next
  \<open>sys_req(IDLE)\<close> or \<open>sys_req(EXIT)\<close>. A step of the machine is one turn of the running process
  and the trap it makes. A process that has not run yet starts at the function whose address
  its first frame holds. When the trap goes back to the frame of \<open>kmain\<close>, the system shuts
  down (\<open>halted\<close>).

  What the trap handler needs of a process is that its stack pointer is inside its stack when
  it makes a request (\<open>own_stack\<close>): the depth of the calls is not modelled. Everything else
  about the state in which a trap happens is proved: it is an invariant of the machine.
\<close>

section \<open>Programs\<close>

datatype prog =
    Comhand_Start
  | Comhand_Line cbuf
  | Comhand_Left
  | Idle_Loop
  | R3 nat r3_at
  | Alarm_Start
  | Alarm_Loop addr addr

definition next_line :: "system \<Rightarrow> (u32 \<times> prog \<times> system) c" where
  "next_line s = bindE (read_command s) (\<lambda>(buf, s). Inr (IDLE, Comhand_Line buf, s))"

text \<open>A command handler that returns has no caller: \<open>Inl BadPointer\<close>. A process that goes on
  behind an \<open>EXIT\<close> of the handler reads the next line.\<close>

definition turn :: "env \<Rightarrow> prog \<Rightarrow> system \<Rightarrow> (u32 \<times> prog \<times> system) c" where
  "turn env p s =
     (case p of
        Comhand_Start \<Rightarrow>
          bindE (on_kern (com_startup (junk env) (git env)) s) (\<lambda>s.
          next_line (s\<lparr>kern := correct_clock (kern s)\<rparr>))
      | Comhand_Line buf \<Rightarrow>
          bindE (run_command env buf s) (\<lambda>r.
          case r of Go_On s \<Rightarrow> next_line s
                  | Exit_Request s \<Rightarrow> Inr (EXIT, Comhand_Left, s)
                  | Return s \<Rightarrow> Inl BadPointer)
      | Comhand_Left \<Rightarrow> next_line s
      | Idle_Loop \<Rightarrow> bindE (idle_turn (kern s)) (\<lambda>(req, k). Inr (req, Idle_Loop, s\<lparr>kern := k\<rparr>))
      | R3 n at \<Rightarrow>
          bindE (proc_turn (junk env) n at (kern s)) (\<lambda>(req, at, k). Inr (req, R3 n at, s\<lparr>kern := k\<rparr>))
      | Alarm_Start \<Rightarrow>
          bindE (alarm_start s) (\<lambda>r.
          case r of None \<Rightarrow> Inr (EXIT, Alarm_Start, s)
                  | Some (me, data) \<Rightarrow> bindE (alarm_turn me data s) (\<lambda>(req, s). Inr (req, Alarm_Loop me data, s)))
      | Alarm_Loop me data \<Rightarrow>
          bindE (alarm_turn me data s) (\<lambda>(req, s). Inr (req, Alarm_Loop me data, s)))"

text \<open>The functions a process can start at.\<close>

definition start_at :: "symbols \<Rightarrow> env \<Rightarrow> addr \<Rightarrow> prog option" where
  "start_at sy env f =
     (if f = comhand_addr sy then Some Comhand_Start
      else if f = idle_addr sy then Some Idle_Loop
      else if f = alarm_entry env then Some Alarm_Start
      else map_option (\<lambda>n. R3 n R3_Start) (find (\<lambda>n. proc_entry env n = f) [1..<6]))"

section \<open>Steps\<close>

record machine =
  msys :: system
  progs :: "addr \<Rightarrow> prog option"
  regs :: cpu_context
  halted :: bool

text \<open>Where the processor is after a trap that gave it \<open>r\<close>.\<close>

definition go_to :: "symbols \<Rightarrow> env \<Rightarrow> system \<Rightarrow> (addr \<Rightarrow> prog option) \<Rightarrow> cpu_context \<Rightarrow> machine" where
  "go_to sy env s ps r =
     (let c = curProc (kern s); back = (reg_esp r = sysStackPtr (kern s) + 60)
      in \<lparr>msys = s, progs = (if back \<or> ps c \<noteq> None then ps else ps(c := start_at sy env (reg_eip r))),
          regs = r, halted = back\<rparr>)"

inductive mstep :: "symbols \<Rightarrow> env \<Rightarrow> machine \<Rightarrow> machine \<Rightarrow> bool" where
  "\<not> halted m \<Longrightarrow> progs m (curProc (kern (msys m))) = Some p \<Longrightarrow>
   turn env p (msys m) = Inr (req, p', s) \<Longrightarrow>
   own_stack (kern s) r \<Longrightarrow> reg_eax r = req \<Longrightarrow> trap r (kern s) = Inr (r', k) \<Longrightarrow>
   mstep sy env m (go_to sy env (s\<lparr>kern := k\<rparr>) ((progs m)(curProc (kern s) \<mapsto> p')) r')"

inductive mreach :: "symbols \<Rightarrow> env \<Rightarrow> machine \<Rightarrow> bool" for sy env where
  boot: "powered b \<Longrightarrow> system_frame (reg_esp r - 60) \<Longrightarrow> kmain_start sy b = Inr b1 \<Longrightarrow>
    kmain_trap r b1 = Inr (r', b2) \<Longrightarrow>
    mreach sy env (go_to sy env \<lparr>kern = bkern b2, alarms = (\<lambda>_. None), alarm_counter = 1\<rparr> (\<lambda>_. None) r')"
| step: "mreach sy env m \<Longrightarrow> mstep sy env m m' \<Longrightarrow> mreach sy env m'"

section \<open>A trap in full\<close>

lemma saved_regs_at: "pcbs (pcbq k) b = Some p \<Longrightarrow>
    saved_regs k b = map_option (\<lambda>x. x\<lparr>reg_esp := contextPtr p + 60\<rparr>) (contexts k (contextPtr p))"
  by (simp add: saved_regs_def)

lemma eax_only_esp: "eax_only x (Some y) \<Longrightarrow>
    eax_only (map_option (\<lambda>r. r\<lparr>reg_esp := e\<rparr>) x) (Some (y\<lparr>reg_esp := e\<rparr>))"
  by (cases x; cases "the x"; cases y) (simp_all add: eax_only_def)

text \<open>What a trap leaves, in terms of the frame at \<open>t\<close> that it goes on with.\<close>

definition went_on :: "kernel \<Rightarrow> addr \<Rightarrow> addr \<Rightarrow> cpu_context \<Rightarrow> kernel \<Rightarrow> bool" where
  "went_on k ctx t x k' \<longleftrightarrow>
     (same_pcbs (pcbq k) (pcbq k') \<or> same_pcbs (saved k (curProc k) ctx) (pcbq k')) \<and>
     isolated k' \<and> kvm k' = kvm k \<and> system_frame (sysStackPtr k') \<and>
     (\<forall>b p. b \<noteq> curProc k \<longrightarrow> pcbs (pcbq k) b = Some p \<longrightarrow>
        (contextPtr p \<noteq> t \<longrightarrow> contexts k' (contextPtr p) = contexts k (contextPtr p)) \<and>
        (contextPtr p = t \<longrightarrow> eax_only (contexts k (contextPtr p)) (Some x))) \<and>
     (if curProc k' \<noteq> curProc k \<and> curProc k' \<noteq> NULL
      then \<exists>p. pcbs (pcbq k) (curProc k') = Some p \<and> t = contextPtr p else t = sysStackPtr k')"

lemma saved_dom: "pcbs (saved k c ctx) a = None \<longleftrightarrow> pcbs (pcbq k) a = None"
  by (auto simp: saved_def split: option.split)

lemma trap_goes_on:
  assumes wf: "wf_run k A" and iso: "isolated k" and own: "own_stack k r"
    and op: "reg_eax r = IDLE \<or> reg_eax r = EXIT"
  obtains ctx t x k' B where "trap r k = Inr (x\<lparr>reg_esp := t + 60\<rparr>, k')" "wf_run k' B"
    "(running k', B ReadyQ) = sched (prio k) (request_of (reg_eax r)) (running k, A ReadyQ)" "went_on k ctx t x k'"
proof -
  obtain ctx k1 where "pushed A r k ctx k1" by (rule push_frame_ok[OF wf iso own])
  note k1 = pushedD[OF this] and sel = pushed_sel[OF this] and keep = pushed_keep[OF this]
  define rq where "rq = request_of (reg_eax r)"
  have rq: "rq \<noteq> Transfer" using op by (auto simp: rq_def request_of_def)
  obtain k' B where k': "sys_call ctx k1 = Inr (target k1 ctx k' rq, k')" "wf_run k' B"
    "(running k', B ReadyQ) = sched (prio k1) rq (running k1, A ReadyQ)" "frames_kept k1 ctx k' (target k1 ctx k' rq)"
    using sys_call_simulates[OF k1(6,3,5)] by (auto simp: rq_def)
  let ?t = "target k1 ctx k' rq"
  obtain x where x: "contexts k' ?t = Some x" "?t \<noteq> NULL" using k'(4) by (auto simp: frames_kept_def)
  have tr: "trap r k = Inr (x\<lparr>reg_esp := ?t + 60\<rparr>, k')"
    using k'(1) pop_frame_live[OF x(2,1)] by (simp add: trap_def k1(1))
  have same: "same_pcbs (pcbq k) (pcbq k') \<or> same_pcbs (saved k (curProc k) ctx) (pcbq k')"
    using k'(4) unfolding frames_kept_def saved_def sel by blast
  have sys: "system_frame (sysStackPtr k')"
    using k'(4) own iso by (auto simp: frames_kept_def entered_def sel own_stack_def k1(2) isolated_def)
  have iso': "isolated k'"
  proof (rule isolated_kept[OF iso same _ sys])
    show "frame_in (curProc k) ctx" if "curProc k \<noteq> NULL" using own that by (simp add: own_stack_def k1(2))
    show "pcbs (pcbq k) NULL = None" using wf repD(5)[OF wfD(1)] by (auto simp: wf_run_def)
  qed
  have tgt: "if curProc k' \<noteq> curProc k \<and> curProc k' \<noteq> NULL
      then \<exists>p. pcbs (pcbq k) (curProc k') = Some p \<and> ?t = contextPtr p else ?t = sysStackPtr k'"
  proof (cases "curProc k' \<noteq> curProc k \<and> curProc k' \<noteq> NULL")
    case True
    then have "pcbs (pcbq k') (curProc k') \<noteq> None" using k'(2) by (auto simp: wf_run_def running_ok_def home_of_def)
    then have "pcbs (pcbq k) (curProc k') \<noteq> None" using same same_pcbs_dom saved_dom by (metis domIff)
    then obtain p where p: "pcbs (pcbq k) (curProc k') = Some p" by blast
    then have "pcbs (saved k (curProc k) ctx) (curProc k') = Some p" using True by (simp add: saved_def split: option.split)
    then have "map_option contextPtr (pcbs (pcbq k') (curProc k')) = Some (contextPtr p)"
      using same p same_pcbs_contextPtr by (metis option.simps(9))
    then show ?thesis using True rq p by (auto simp: target_def sel)
  next
    case False
    then show ?thesis using rq unfolding target_def sel by (simp only: if_False)
  qed
  have "(contextPtr p \<noteq> ?t \<longrightarrow> contexts k' (contextPtr p) = contexts k (contextPtr p)) \<and>
      (contextPtr p = ?t \<longrightarrow> eax_only (contexts k (contextPtr p)) (Some x))"
    if "b \<noteq> curProc k" "pcbs (pcbq k) b = Some p" for b p
    using keep[OF that] k'(4) x(1) unfolding frames_kept_def by metis
  moreover have "kvm k' = kvm k" using k'(4) by (simp add: frames_kept_def sel)
  ultimately have "went_on k ctx ?t x k'" using same iso' sys tgt unfolding went_on_def by blast
  moreover have "prio k1 = prio k" "running k1 = running k" by (simp_all add: prio_eq running_def sel)
  ultimately show ?thesis using that[OF tr k'(2)] k'(3) by (simp add: rq_def)
qed

lemma went_on_saved:
  assumes w: "went_on k ctx t x k'" and iso: "isolated k" and b: "b \<noteq> curProc k" "b \<noteq> curProc k'"
  shows "saved_regs k' b = saved_regs k b"
proof (cases "pcbs (pcbq k) b")
  case None
  then have "pcbs (pcbq k') b = None" using w same_pcbs_dom saved_dom unfolding went_on_def by (metis domIff)
  then show ?thesis using None by (simp add: saved_regs_def)
next
  case (Some p)
  then have "pcbs (saved k (curProc k) ctx) b = Some p" using b(1) by (simp add: saved_def split: option.split)
  then obtain p' where p': "pcbs (pcbq k') b = Some p'" "contextPtr p' = contextPtr p"
    using w Some same_pcbs_contextPtr unfolding went_on_def by metis
  have "contextPtr p \<noteq> t"
  proof (cases "curProc k' \<noteq> curProc k \<and> curProc k' \<noteq> NULL")
    case True
    then obtain q where q: "pcbs (pcbq k) (curProc k') = Some q" "t = contextPtr q" using w by (auto simp: went_on_def)
    then have "frame_in (curProc k') t" using iso by (simp add: isolated_def)
    then show ?thesis using isolated_frames_apart[OF iso Some, of "curProc k'" t] q(1) b(2) by auto
  next
    case False
    then have "t = sysStackPtr k'" "system_frame (sysStackPtr k')" using w by (auto simp: went_on_def)
    then show ?thesis using isolated_frames_apart[OF iso Some, of _ t] by auto
  qed
  then have "contexts k' (contextPtr p) = contexts k (contextPtr p)" using w b(1) Some by (simp add: went_on_def)
  then show ?thesis using Some p' by (simp add: saved_regs_def)
qed

lemma went_on_regs:
  assumes w: "went_on k ctx t x k'" and iso: "isolated k"
  shows "if curProc k' \<noteq> curProc k \<and> curProc k' \<noteq> NULL
     then eax_only (saved_regs k (curProc k')) (Some (x\<lparr>reg_esp := t + 60\<rparr>)) \<and> t \<noteq> sysStackPtr k'
     else t = sysStackPtr k'"
proof (cases "curProc k' \<noteq> curProc k \<and> curProc k' \<noteq> NULL")
  case True
  then obtain q where q: "pcbs (pcbq k) (curProc k') = Some q" "t = contextPtr q" using w by (auto simp: went_on_def)
  then have "eax_only (contexts k (contextPtr q)) (Some x)" using w True by (auto simp: went_on_def)
  then have "eax_only (saved_regs k (curProc k')) (Some (x\<lparr>reg_esp := t + 60\<rparr>))"
    unfolding saved_regs_at[OF q(1)] q(2) by (rule eax_only_esp)
  moreover have "t \<noteq> sysStackPtr k'"
    using isolated_frames_apart[OF iso q(1), of _ "sysStackPtr k'"] w q(2) by (auto simp: went_on_def)
  ultimately show ?thesis using True by simp
next
  case False
  then show ?thesis using w by (auto simp: went_on_def)
qed

text \<open>Beyond what the scheduler of lists says: the heap stays, nobody's saved registers change
  but those of the process that traps and of the one that goes on, and that one goes on with
  the registers it saved, but for the result in eax.\<close>

lemma trap_full:
  assumes wf: "wf_run k A" and iso: "isolated k" and own: "own_stack k r"
    and op: "reg_eax r = IDLE \<or> reg_eax r = EXIT"
  shows "\<exists>r' k' B. trap r k = Inr (r', k') \<and> wf_run k' B \<and> isolated k' \<and>
    (running k', B ReadyQ) = sched (prio k) (request_of (reg_eax r)) (running k, A ReadyQ) \<and>
    kvm k' = kvm k \<and> (\<forall>a. pcbs (pcbq k') a = None \<longleftrightarrow> pcbs (pcbq k) a = None) \<and>
    (\<forall>b. b \<noteq> curProc k \<longrightarrow> b \<noteq> curProc k' \<longrightarrow> saved_regs k' b = saved_regs k b) \<and>
    (if curProc k' \<noteq> curProc k \<and> curProc k' \<noteq> NULL
     then eax_only (saved_regs k (curProc k')) (Some r') \<and> reg_esp r' \<noteq> sysStackPtr k' + 60
     else reg_esp r' = sysStackPtr k' + 60)"
proof -
  obtain ctx t x k' B where k': "trap r k = Inr (x\<lparr>reg_esp := t + 60\<rparr>, k')" "wf_run k' B"
    "(running k', B ReadyQ) = sched (prio k) (request_of (reg_eax r)) (running k, A ReadyQ)" and w: "went_on k ctx t x k'"
    by (rule trap_goes_on[OF assms])
  have "\<forall>a. pcbs (pcbq k') a = None \<longleftrightarrow> pcbs (pcbq k) a = None"
    using w same_pcbs_dom saved_dom unfolding went_on_def by (metis domIff)
  moreover have "\<forall>b. b \<noteq> curProc k \<longrightarrow> b \<noteq> curProc k' \<longrightarrow> saved_regs k' b = saved_regs k b"
    using went_on_saved[OF w iso] by blast
  moreover have "isolated k'" "kvm k' = kvm k" using w by (simp_all add: went_on_def)
  ultimately show ?thesis using k' went_on_regs[OF w iso]
    by (intro exI[of _ "x\<lparr>reg_esp := t + 60\<rparr>"] exI[of _ k'] exI[of _ B]) (auto split: if_splits)
qed

section \<open>A turn\<close>

lemma returns_conj: "returns m P \<Longrightarrow> returns m Q \<Longrightarrow> returns m (\<lambda>x. P x \<and> Q x)"
  by (simp add: returns_def)

abbreviation (input) gives_up :: "u32 \<Rightarrow> bool" where
  "gives_up req \<equiv> req = IDLE \<or> req = EXIT"

lemma r3_yields: "returns (r3_turn mem n nm at k) (\<lambda>(req, _, _). gives_up req)"
proof -
  have "returns (r3_loop n nm i b k) (\<lambda>(req, _, _). gives_up req)" for i b
    unfolding r3_loop_def by (intro returns_if returns_any) simp_all
  then show ?thesis unfolding r3_turn_def by (cases at) (auto intro!: returns_any)
qed

lemma alarm_yields: "returns (alarm_turn me d s) (\<lambda>(req, _). gives_up req)"
  unfolding alarm_turn_def Let_def by (cases "get_time (devices (kio (kern s)))") (auto intro!: returns_any)

lemma idle_yields: "returns (idle_turn k) (\<lambda>(req, _). gives_up req)"
  unfolding idle_turn_def by (rule returns_any) simp

text \<open>An alarm knows its own process.\<close>

definition own_prog :: "addr \<Rightarrow> prog \<Rightarrow> bool" where
  "own_prog a p \<longleftrightarrow> (\<forall>me data. p = Alarm_Loop me data \<longrightarrow> me = a)"

lemma own_prog_simps [simp]:
  "own_prog a Comhand_Start" "own_prog a (Comhand_Line buf)" "own_prog a Comhand_Left" "own_prog a Idle_Loop"
  "own_prog a (R3 n at)" "own_prog a Alarm_Start" "own_prog a (Alarm_Loop me data) \<longleftrightarrow> me = a"
  by (auto simp: own_prog_def)

fun turned :: "env \<Rightarrow> system \<Rightarrow> u32 \<times> prog \<times> system \<Rightarrow> bool" where
  "turned env s (req, p, s') \<longleftrightarrow> gives_up req \<and> own_prog (curProc (kern s)) p \<and> safe (entries env) (kern s) (kern s')"

lemma turn_next_line:
  assumes "safe (entries env) (kern s) (kern s')"
  shows "returns (next_line s') (turned env s)"
  unfolding next_line_def
  by (rule returns_bind, rule returns_mono[OF keep_read_command[OF safe_sound[OF assms]]]) (auto intro: safe_trans[OF assms])

lemma keep_startup: "sound k \<Longrightarrow> returns (com_startup mem g k) (safe E k)"
  by (rule keep_shell(3))

lemma turn_alarm:
  assumes "sound (kern s)" and "me = curProc (kern s)"
  shows "returns (bindE (alarm_turn me data s) (\<lambda>(req, s). Inr (req, Alarm_Loop me data, s))) (turned env s)"
  by (rule returns_bind, rule returns_mono[OF returns_conj[OF keep_alarm_turn[OF assms] alarm_yields]]) (auto simp: assms)

theorem turn_keeps:
  assumes s: "sound (kern s)" and own: "own_prog (curProc (kern s)) p"
  shows "returns (turn env p s) (turned env s)"
proof (cases p)
  case Comhand_Start
  have "returns (bindE (on_kern (com_startup (junk env) (git env)) s) (\<lambda>s. next_line (s\<lparr>kern := correct_clock (kern s)\<rparr>)))
      (turned env s)"
  proof (rule returns_bind, rule returns_mono)
    show "returns (on_kern (com_startup (junk env) (git env)) s) (kept (entries env) (kern s))"
      by (intro sys_kern[OF refl] keep_startup s)
    fix s1 :: system assume k: "safe (entries env) (kern s) (kern s1)"
    show "returns (next_line (s1\<lparr>kern := correct_clock (kern s1)\<rparr>)) (turned env s)"
      by (rule turn_next_line) (simp add: safe_trans[OF k keep_correct_clock[OF safe_sound[OF k]]])
  qed
  then show ?thesis by (simp add: turn_def Comhand_Start)
next
  case (Comhand_Line buf)
  have "returns (bindE (run_command env buf s) (\<lambda>r. case r of Go_On s \<Rightarrow> next_line s
      | Exit_Request s \<Rightarrow> Inr (EXIT, Comhand_Left, s) | Return s \<Rightarrow> Inl BadPointer)) (turned env s)"
    by (rule returns_bind, rule returns_mono[OF keep_run_command[OF s]]) (auto split: after.splits intro: turn_next_line)
  then show ?thesis by (simp add: turn_def Comhand_Line)
next
  case Alarm_Start
  have "returns (alarm_start s) (\<lambda>r. \<forall>me data. r = Some (me, data) \<longrightarrow> me = curProc (kern s))"
    unfolding alarm_start_def Let_def sys_get_current_process_def by (intro returns_if returns_any) simp_all
  then have "returns (bindE (alarm_start s) (\<lambda>r. case r of None \<Rightarrow> Inr (EXIT, Alarm_Start, s)
      | Some (me, data) \<Rightarrow> bindE (alarm_turn me data s) (\<lambda>(req, s). Inr (req, Alarm_Loop me data, s)))) (turned env s)"
    by (intro returns_bind, elim returns_mono) (auto simp: s split: option.split intro: turn_alarm)
  then show ?thesis by (simp add: turn_def Alarm_Start)
next
  case (Alarm_Loop me data)
  then show ?thesis using turn_alarm[OF s] own by (simp add: turn_def)
next
  case Comhand_Left
  then show ?thesis using turn_next_line[of env s s] s by (simp add: turn_def)
next
  case Idle_Loop
  have "returns (bindE (idle_turn (kern s)) (\<lambda>(req, k). Inr (req, Idle_Loop, s\<lparr>kern := k\<rparr>))) (turned env s)"
    by (rule returns_bind, rule returns_mono[OF returns_conj[OF keep_idle[OF s] idle_yields]]) auto
  then show ?thesis by (simp add: turn_def Idle_Loop)
next
  case (R3 n at)
  have "returns (bindE (proc_turn (junk env) n at (kern s)) (\<lambda>(req, at, k). Inr (req, R3 n at, s\<lparr>kern := k\<rparr>))) (turned env s)"
    unfolding proc_turn_def
    by (rule returns_bind, rule returns_mono[OF returns_conj[OF keep_r3[OF s] r3_yields]]) auto
  then show ?thesis by (simp add: turn_def R3)
qed

section \<open>The invariant of the machine\<close>

text \<open>A process that has not run yet will start at a function of the program.\<close>

definition unstarted :: "symbols \<Rightarrow> env \<Rightarrow> kernel \<Rightarrow> addr \<Rightarrow> bool" where
  "unstarted sy env k a \<longleftrightarrow> (\<exists>f. saved_regs k a = Some (first_frame f a) \<and> start_at sy env f \<noteq> None)"

text \<open>Every process but \<open>c\<close> has a program or is unstarted.\<close>

definition programmed :: "symbols \<Rightarrow> env \<Rightarrow> kernel \<Rightarrow> (addr \<Rightarrow> prog option) \<Rightarrow> addr \<Rightarrow> bool" where
  "programmed sy env k ps c \<longleftrightarrow>
     (\<forall>a p. ps a = Some p \<longrightarrow> pcbs (pcbq k) a \<noteq> None \<and> own_prog a p) \<and>
     (\<forall>a. a \<noteq> c \<longrightarrow> ps a = None \<longrightarrow> pcbs (pcbq k) a \<noteq> None \<longrightarrow> unstarted sy env k a)"

definition minv :: "symbols \<Rightarrow> env \<Rightarrow> machine \<Rightarrow> bool" where
  "minv sy env m \<longleftrightarrow>
     sound (kern (msys m)) \<and> programmed sy env (kern (msys m)) (progs m) NULL \<and>
     (\<not> halted m \<longrightarrow> curProc (kern (msys m)) \<noteq> NULL \<and> progs m (curProc (kern (msys m))) \<noteq> None)"

lemma start_at_entries: "f \<in> entries env \<Longrightarrow> start_at sy env f \<noteq> None"
proof -
  have "find (\<lambda>n. proc_entry env n = f) [1..<6] \<noteq> None" if "f \<in> proc_entry env ` {1..<6}"
    unfolding find_None_iff using that by auto
  then show "f \<in> entries env \<Longrightarrow> start_at sy env f \<noteq> None" by (auto simp: start_at_def entries_def)
qed

lemma own_prog_start: "start_at sy env f = Some p \<Longrightarrow> own_prog a p"
  by (auto simp: start_at_def split: if_splits)

lemma first_frame_eip [simp]: "reg_eip (first_frame f a) = f"
  by (simp add: first_frame_def initial_frame_def)

lemma eax_only_eip: "eax_only (Some x) (Some y) \<Longrightarrow> reg_eip x = reg_eip y"
  by (cases x; cases y) (simp add: eax_only_def)

lemma own_progD: "programmed sy env k ps c \<Longrightarrow> ps a = Some p \<Longrightarrow> own_prog a p"
  by (simp add: programmed_def)

lemma sound_running: "sound k \<Longrightarrow> curProc k \<noteq> NULL \<Longrightarrow> pcbs (pcbq k) (curProc k) \<noteq> None"
  by (auto simp: sound_def steady_def wf_run_def running_ok_def home_of_def)

lemma sound_no_NULL: "sound k \<Longrightarrow> pcbs (pcbq k) NULL = None"
  using repD(5)[OF wfD(1)] by (auto simp: sound_def steady_def wf_run_def)

lemma programmed_safe:
  assumes pr: "programmed sy env k ps c" and sf: "safe (entries env) k k'"
  shows "programmed sy env k' ps c"
  unfolding programmed_def
proof (intro conjI allI impI)
  have sf: "if pcbs (pcbq k) a \<noteq> None then pcbs (pcbq k') a \<noteq> None \<and> saved_regs k' a = saved_regs k a
      else pcbs (pcbq k') a \<noteq> None \<longrightarrow> (\<exists>f\<in>entries env. saved_regs k' a = Some (first_frame f a))" for a
    using sf by (simp add: safe_def)
  {
    fix a p assume "ps a = Some p"
    then show "pcbs (pcbq k') a \<noteq> None" "own_prog a p" using pr sf[of a] by (auto simp: programmed_def)
  next
    fix a assume a: "a \<noteq> c" "ps a = None" "pcbs (pcbq k') a \<noteq> None"
    show "unstarted sy env k' a"
    proof (cases "pcbs (pcbq k) a = None")
      case True
      then show ?thesis using sf[of a] a start_at_entries by (auto simp: unstarted_def)
    next
      case False
      then show ?thesis using sf[of a] a pr by (simp add: programmed_def unstarted_def)
    qed
  }
qed

lemma trap_safe:
  assumes s: "sound k" and own: "own_stack k r" and op: "gives_up (reg_eax r)"
  obtains r' k' where "trap r k = Inr (r', k')" "sound k'"
    "\<And>a. pcbs (pcbq k') a = None \<longleftrightarrow> pcbs (pcbq k) a = None"
    "\<And>b. b \<noteq> curProc k \<Longrightarrow> b \<noteq> curProc k' \<Longrightarrow> saved_regs k' b = saved_regs k b"
    "if curProc k' \<noteq> curProc k \<and> curProc k' \<noteq> NULL
     then eax_only (saved_regs k (curProc k')) (Some r') \<and> reg_esp r' \<noteq> sysStackPtr k' + 60
     else reg_esp r' = sysStackPtr k' + 60"
proof -
  obtain A where A: "wf_run k A" "isolated k" "below k" using s by (auto simp: sound_def steady_def)
  obtain r' k' B where t: "trap r k = Inr (r', k')" "wf_run k' B" "isolated k'" "kvm k' = kvm k"
    "\<forall>a. pcbs (pcbq k') a = None \<longleftrightarrow> pcbs (pcbq k) a = None"
    "\<forall>b. b \<noteq> curProc k \<longrightarrow> b \<noteq> curProc k' \<longrightarrow> saved_regs k' b = saved_regs k b"
    "if curProc k' \<noteq> curProc k \<and> curProc k' \<noteq> NULL
     then eax_only (saved_regs k (curProc k')) (Some r') \<and> reg_esp r' \<noteq> sysStackPtr k' + 60
     else reg_esp r' = sysStackPtr k' + 60"
    using trap_full[OF A(1,2) own op] by blast
  have "sound k'" using t(2-5) A(3) unfolding sound_def steady_def below_def by (intro exI[of _ B]) simp
  then show ?thesis using that t by blast
qed

lemma programmed_NULL: "sound k \<Longrightarrow> programmed sy env k ps c \<Longrightarrow> c = NULL \<or> ps c \<noteq> None \<Longrightarrow> programmed sy env k ps d"
  unfolding programmed_def using sound_no_NULL[of k] by metis

lemma minv_go_to:
  assumes s: "sound (kern s)" and pr: "programmed sy env (kern s) ps (curProc (kern s))"
    and run: "if reg_esp r = sysStackPtr (kern s) + 60 then curProc (kern s) = NULL \<or> ps (curProc (kern s)) \<noteq> None
      else curProc (kern s) \<noteq> NULL \<and> (ps (curProc (kern s)) = None \<longrightarrow> start_at sy env (reg_eip r) \<noteq> None)"
  shows "minv sy env (go_to sy env s ps r)"
proof -
  let ?c = "curProc (kern s)"
  show ?thesis
  proof (cases "reg_esp r = sysStackPtr (kern s) + 60 \<or> ps ?c \<noteq> None")
    case True
    then have "programmed sy env (kern s) ps NULL"
      by (intro programmed_NULL[OF s pr]) (use run in \<open>auto split: if_splits\<close>)
    then show ?thesis using True s run by (auto simp: go_to_def minv_def Let_def split: if_splits)
  next
    case False
    then obtain p where p: "start_at sy env (reg_eip r) = Some p" "?c \<noteq> NULL" using run by auto
    have "programmed sy env (kern s) (ps(?c \<mapsto> p)) NULL"
      using pr own_prog_start[OF p(1)] sound_running[OF s p(2)] by (simp add: programmed_def)
    then show ?thesis using False s p by (simp add: go_to_def minv_def Let_def)
  qed
qed

lemma minv_trap:
  assumes s: "sound (kern s)" and pr: "programmed sy env (kern s) ps NULL" and t: "trap r (kern s) = Inr (r', k)"
    and own: "own_stack (kern s) r" and op: "gives_up (reg_eax r)"
    and c: "curProc (kern s) = NULL \<or> ps (curProc (kern s)) \<noteq> None"
  shows "minv sy env (go_to sy env (s\<lparr>kern := k\<rparr>) ps r')"
proof -
  let ?c = "curProc k"
  have k: "sound k" "\<And>a. pcbs (pcbq k) a = None \<longleftrightarrow> pcbs (pcbq (kern s)) a = None"
    "\<And>b. b \<noteq> curProc (kern s) \<Longrightarrow> b \<noteq> ?c \<Longrightarrow> saved_regs k b = saved_regs (kern s) b"
    "if ?c \<noteq> curProc (kern s) \<and> ?c \<noteq> NULL
     then eax_only (saved_regs (kern s) ?c) (Some r') \<and> reg_esp r' \<noteq> sysStackPtr k + 60
     else reg_esp r' = sysStackPtr k + 60"
    using trap_safe[OF s own op] t by (metis Inr_inject prod.inject)+
  have pr': "programmed sy env k ps ?c"
    unfolding programmed_def
  proof (intro conjI allI impI)
    show "pcbs (pcbq k) a \<noteq> None" "own_prog a p" if "ps a = Some p" for a p
      using pr that k(2) by (auto simp: programmed_def)
    fix a assume a: "a \<noteq> ?c" "ps a = None" "pcbs (pcbq k) a \<noteq> None"
    then have "a \<noteq> curProc (kern s)" "a \<noteq> NULL" using c sound_no_NULL[OF k(1)] by auto
    then show "unstarted sy env k a" using pr a k(2) k(3)[OF _ a(1)] by (simp add: programmed_def unstarted_def)
  qed
  have st: "start_at sy env (reg_eip r') \<noteq> None" if "ps ?c = None" "reg_esp r' \<noteq> sysStackPtr k + 60"
  proof -
    have d: "?c \<noteq> NULL" "eax_only (saved_regs (kern s) ?c) (Some r')" using k(4) that(2) by (auto split: if_splits)
    have "unstarted sy env (kern s) ?c" using pr that(1) sound_running[OF k(1) d(1)] k(2) d(1) by (simp add: programmed_def)
    then show ?thesis using d(2) by (auto simp: unstarted_def dest!: eax_only_eip)
  qed
  show ?thesis
    by (rule minv_go_to) (use k(1,4) pr' st c in \<open>auto split: if_splits\<close>)
qed

lemma minv_turn:
  assumes inv: "minv sy env m" and go: "\<not> halted m" "progs m (curProc (kern (msys m))) = Some p"
    and t: "turn env p (msys m) = Inr (req, p', s)"
  shows "gives_up req" "curProc (kern s) = curProc (kern (msys m))" "curProc (kern s) \<noteq> NULL" "sound (kern s)"
    "programmed sy env (kern s) ((progs m)(curProc (kern s) \<mapsto> p')) NULL"
proof -
  let ?c = "curProc (kern (msys m))"
  have i: "sound (kern (msys m))" "programmed sy env (kern (msys m)) (progs m) NULL" "?c \<noteq> NULL"
    using inv go by (auto simp: minv_def)
  have "turned env (msys m) (req, p', s)"
    by (rule returnsD[OF turn_keeps[OF i(1) own_progD[OF i(2) go(2)]] t])
  then have s: "gives_up req" "own_prog ?c p'" "safe (entries env) (kern (msys m)) (kern s)" by simp_all
  then show "gives_up req" and c: "curProc (kern s) = ?c" and snd: "sound (kern s)" by (simp_all add: safe_def)
  then show "curProc (kern s) \<noteq> NULL" using i(3) by simp
  have "programmed sy env (kern s) (progs m) NULL" by (rule programmed_safe[OF i(2) s(3)])
  then show "programmed sy env (kern s) ((progs m)(curProc (kern s) \<mapsto> p')) NULL"
    using sound_running[OF snd] c i(3) s(2) by (simp add: programmed_def)
qed

lemma minv_step: "mstep sy env m m' \<Longrightarrow> minv sy env m \<Longrightarrow> minv sy env m'"
proof (induction rule: mstep.induct)
  case (1 m p env req p' s r r' k sy)
  note t = minv_turn[OF 1(7,1,2,3)]
  show ?case by (rule minv_trap[OF t(4,5) 1(6,4)]) (use t(1) 1(5) in auto)
qed

lemma boot_state:
  assumes b: "powered b" "system_frame (reg_esp r - 60)" "kmain_start sy b = Inr b1" "kmain_trap r b1 = Inr (r', b2)"
  shows "steady (bkern b2) (ready_only [idle_pcb])" "curProc (bkern b2) = com_pcb" "boot_pcbs (bkern b2)"
    "reg_eip r' = comhand_addr sy" "reg_esp r' \<noteq> sysStackPtr (bkern b2) + 60"
    "saved_regs (bkern b2) idle_pcb = Some (first_frame (idle_addr sy) idle_pcb)"
    "pcbs (pcbq (bkern b2)) a \<noteq> None \<Longrightarrow> a = com_pcb \<or> a = idle_pcb"
proof -
  let ?k = "bkern b2"
  have k: "r' = first_frame (comhand_addr sy) com_pcb" "curProc ?k = com_pcb" "wf_run ?k (ready_only [idle_pcb])"
    "isolated ?k" "boot_pcbs ?k" "heap_addr (kvm ?k) = 0xD000868"
    "saved_regs ?k idle_pcb = Some (first_frame (idle_addr sy) idle_pcb)"
    using kmain_boot_ok[OF b(1,2), of sy] b(3,4) by (auto simp: first_frame_def)
  have two: "a = com_pcb \<or> a = idle_pcb" if "pcbs (pcbq ?k) a \<noteq> None" for a
    using k(5) that by (fastforce simp: boot_pcbs_def)
  have "below ?k" unfolding below_def k(6) using two by fastforce
  then show "steady ?k (ready_only [idle_pcb])" using k(3,4) by (simp add: steady_def)
  show "reg_esp r' \<noteq> sysStackPtr ?k + 60"
  proof
    assume "reg_esp r' = sysStackPtr ?k + 60"
    then have "sysStackPtr ?k = frame_of com_pcb" by (simp add: k(1) first_frame_def initial_frame_def)
    moreover have "system_frame (sysStackPtr ?k)" using k(2,4) by (simp add: isolated_def)
    ultimately show False by (simp add: system_frame_def frame_of_def)
  qed
  show "pcbs (pcbq ?k) a \<noteq> None \<Longrightarrow> a = com_pcb \<or> a = idle_pcb" by (rule two)
  show "curProc ?k = com_pcb" "boot_pcbs ?k" "reg_eip r' = comhand_addr sy"
    "saved_regs ?k idle_pcb = Some (first_frame (idle_addr sy) idle_pcb)" by (simp_all add: k)
qed

lemma minv_boot:
  assumes "powered b" "system_frame (reg_esp r - 60)" "kmain_start sy b = Inr b1" "kmain_trap r b1 = Inr (r', b2)"
  shows "minv sy env (go_to sy env \<lparr>kern = bkern b2, alarms = al, alarm_counter = n\<rparr> (\<lambda>_. None) r')"
proof -
  note b = boot_state[OF assms]
  have "start_at sy env (idle_addr sy) \<noteq> None" "start_at sy env (comhand_addr sy) \<noteq> None" by (simp_all add: start_at_def)
  moreover from this have "programmed sy env (bkern b2) (\<lambda>_. None) com_pcb"
    using b(6,7) by (fastforce simp: programmed_def unstarted_def)
  moreover have "sound (bkern b2)" using b(1) by (auto simp: sound_def)
  ultimately show ?thesis using b(2,4,5) by (intro minv_go_to) simp_all
qed

lemma minv_reach: "mreach sy env m \<Longrightarrow> minv sy env m"
  by (induction rule: mreach.induct) (auto intro: minv_boot minv_step)

section \<open>Steps exist\<close>

lemma mstep_exists:
  assumes inv: "minv sy env m" and go: "\<not> halted m" "progs m (curProc (kern (msys m))) = Some p"
    and t: "turn env p (msys m) = Inr (req, p', s)" and r: "own_stack (kern s) r" "reg_eax r = req"
  shows "\<exists>r' k. trap r (kern s) = Inr (r', k) \<and>
    mstep sy env m (go_to sy env (s\<lparr>kern := k\<rparr>) ((progs m)(curProc (kern s) \<mapsto> p')) r') \<and>
    (\<forall>b. b \<noteq> curProc (kern s) \<longrightarrow> b \<noteq> curProc k \<longrightarrow> saved_regs k b = saved_regs (kern s) b) \<and>
    (if curProc k \<noteq> curProc (kern s) \<and> curProc k \<noteq> NULL
     then eax_only (saved_regs (kern s) (curProc k)) (Some r') else reg_esp r' = sysStackPtr k + 60)"
proof -
  note i = minv_turn[OF inv go t]
  obtain r' k where k: "trap r (kern s) = Inr (r', k)"
    "\<And>b. b \<noteq> curProc (kern s) \<Longrightarrow> b \<noteq> curProc k \<Longrightarrow> saved_regs k b = saved_regs (kern s) b"
    "if curProc k \<noteq> curProc (kern s) \<and> curProc k \<noteq> NULL
     then eax_only (saved_regs (kern s) (curProc k)) (Some r') \<and> reg_esp r' \<noteq> sysStackPtr k + 60
     else reg_esp r' = sysStackPtr k + 60"
    using trap_safe[OF i(4) r(1)] i(1) r(2) by metis
  have "curProc (kern (msys m)) = curProc (kern s)" using i(2) by simp
  then have "mstep sy env m (go_to sy env (s\<lparr>kern := k\<rparr>) ((progs m)(curProc (kern s) \<mapsto> p')) r')"
    using mstep.intros[OF go t r(1,2) k(1), of sy] by simp
  then show ?thesis using k by (intro exI[of _ r'] exI[of _ k]) (simp split: if_splits)
qed

section \<open>Properties\<close>

text \<open>Property C6. Any command the user types, whatever its arguments, keeps the state of the
  kernel sound when it returns: the queues, the frames, the stacks apart from each other and
  the heap above them. It runs in the command handler, which stays the running process; the
  registers every other process has saved are untouched; and every new process is set to start
  at one of the entry points, with its first frame.\<close>

theorem command_keeps:
  assumes "sound (kern s)" and "run_command env buf s = Inr r"
  shows "sound (kern (state_after r)) \<and> curProc (kern (state_after r)) = curProc (kern s) \<and>
    (\<forall>a. pcbs (pcbq (kern s)) a \<noteq> None \<longrightarrow>
       pcbs (pcbq (kern (state_after r))) a \<noteq> None \<and> saved_regs (kern (state_after r)) a = saved_regs (kern s) a) \<and>
    (\<forall>a. pcbs (pcbq (kern s)) a = None \<longrightarrow> pcbs (pcbq (kern (state_after r))) a \<noteq> None \<longrightarrow>
       (\<exists>f\<in>entries env. saved_regs (kern (state_after r)) a = Some (first_frame f a)))"
  using returnsD[OF keep_run_command[OF assms(1)] assms(2)] unfolding safe_def by meson

text \<open>Property C4. The invariant of the whole system: in every state that is reached from
  \<open>kmain\<close> by turns of the processes and traps, whatever is typed and whatever the registers of
  the processes are, the state of the kernel is sound; the running process exists and has a
  program; and every process that has not run yet will start at a function of the program,
  with its first frame.\<close>

theorem machine_invariant:
  assumes "mreach sy env m"
  shows "sound (kern (msys m)) \<and>
    (\<not> halted m \<longrightarrow> pcbs (pcbq (kern (msys m))) (curProc (kern (msys m))) \<noteq> None \<and>
       progs m (curProc (kern (msys m))) \<noteq> None) \<and>
    (\<forall>a. pcbs (pcbq (kern (msys m))) a \<noteq> None \<longrightarrow> progs m a = None \<longrightarrow>
       (\<exists>f. saved_regs (kern (msys m)) a = Some (first_frame f a) \<and> start_at sy env f \<noteq> None))"
proof -
  note i = minv_reach[OF assms]
  have "a \<noteq> NULL" if "pcbs (pcbq (kern (msys m))) a \<noteq> None" for a
    using i sound_no_NULL that by (auto simp: minv_def)
  then show ?thesis using i sound_running[of "kern (msys m)"]
    unfolding minv_def programmed_def unstarted_def by metis
qed

text \<open>Property C9. The bounds of the memory: in every reachable state each process lies, with
  its stack, in the part of the heap that has been handed out, apart from every other process;
  its saved frame lies in its own stack; its priority is 0 to 9 and its name a C string of at
  most 15 characters.\<close>

theorem machine_bounds:
  assumes "mreach sy env m" and "pcbs (pcbq (kern (msys m))) a = Some p"
  shows "0xD000000 \<le> unat a \<and> unat a + 1076 \<le> unat (heap_addr (kvm (kern (msys m)))) \<and>
    unat (heap_addr (kvm (kern (msys m)))) \<le> 0xD010000 \<and>
    (\<forall>b. pcbs (pcbq (kern (msys m))) b \<noteq> None \<longrightarrow> b \<noteq> a \<longrightarrow> unat a + 1076 \<le> unat b \<or> unat b + 1076 \<le> unat a) \<and>
    frame_in a (contextPtr p) \<and> 0 \<le> priority p \<and> priority p \<le> 9 \<and>
    terminated (pname p) \<and> length (text_of (pname p)) \<le> 15"
proof -
  let ?k = "kern (msys m)"
  obtain A where A: "wf ?k A" "isolated ?k" "below ?k"
    using minv_reach[OF assms(1)] by (auto simp: minv_def sound_def steady_def wf_run_def)
  have "wf_pcb ?k a p" by (rule wf_pcbD[OF A(1) assms(2)])
  then have "0 \<le> priority p \<and> priority p \<le> 9 \<and> terminated (pname p) \<and> length (text_of (pname p)) \<le> 15"
    using length_text_of[of "pname p"] by (simp add: wf_pcb_def)
  moreover have "unat (heap_addr (kvm ?k)) \<le> 0xD010000" using wfD(2)[OF A(1)] by (simp add: heap_wf_def)
  moreover have "0xD000000 \<le> unat a \<and> frame_in a (contextPtr p)" using A(2) assms(2) by (simp add: isolated_def)
  moreover have "\<forall>b. pcbs (pcbq ?k) b \<noteq> None \<longrightarrow> b \<noteq> a \<longrightarrow> unat a + 1076 \<le> unat b \<or> unat b + 1076 \<le> unat a"
    using A(2) assms(2) unfolding isolated_def by (metis option.discI)
  moreover have "unat a + 1076 \<le> unat (heap_addr (kvm ?k))" using A(3) assms(2) by (simp add: below_def)
  ultimately show ?thesis by blast
qed

text \<open>Property C5. Nothing but the code of a process can fail: when a process of a reachable
  state comes to its next request, with its stack pointer inside its stack, the trap does not
  stop, so the system takes a step. It leaves the saved registers of the processes that neither
  trapped nor go on alone, and the one that goes on has the registers it saved, but for eax;
  without one, control goes back to the frame of \<open>kmain\<close>.\<close>

theorem machine_progress:
  assumes "mreach sy env m" and "\<not> halted m" and "progs m (curProc (kern (msys m))) = Some p"
    and "turn env p (msys m) = Inr (req, p', s)" and "own_stack (kern s) r" and "reg_eax r = req"
  shows "\<exists>r' k. trap r (kern s) = Inr (r', k) \<and>
    mstep sy env m (go_to sy env (s\<lparr>kern := k\<rparr>) ((progs m)(curProc (kern s) \<mapsto> p')) r') \<and>
    (\<forall>b. b \<noteq> curProc (kern s) \<longrightarrow> b \<noteq> curProc k \<longrightarrow> saved_regs k b = saved_regs (kern s) b) \<and>
    (if curProc k \<noteq> curProc (kern s) \<and> curProc k \<noteq> NULL
     then eax_only (saved_regs (kern s) (curProc k)) (Some r') else reg_esp r' = sysStackPtr k + 60)"
  by (rule mstep_exists[OF minv_reach[OF assms(1)] assms(2-6)])

end
