(* ===== verification/Banner.thy ===== *)
theory Banner
  imports Shell
begin

text \<open>
  The text of the version (\<^verbatim>\<open>user/version.c\<close>) and the greeting of the command handler. The
  version holds the git description of the build, in an array of 128 bytes.
\<close>

section \<open>The version\<close>

definition version_text :: "git_info \<Rightarrow> string" where
  "version_text g = ''R4 '' @ GIT_DATE g @ '' '' @ GIT_HASH g @ '' ('' @ GIT_DIRTY g @ '')'' @ CR # [LF]"

lemma put_chars_append: "put_chars (s @ t) w = bindE (put_chars s w) (put_chars t)"
  by (simp add: put_chars_def foldE_append)

lemma put_chars_fits:
  "n + length s \<le> length b \<Longrightarrow> put_chars s (b, n) = Inr (take n b @ s @ drop (n + length s) b, n + length s)"
proof (induction s arbitrary: b n)
  case Nil
  then show ?case by (simp add: put_chars_def)
next
  case (Cons x s)
  then have "put_chars s (b[n := x], n + 1) =
      Inr (take (n + 1) (b[n := x]) @ s @ drop (n + 1 + length s) (b[n := x]), n + 1 + length s)" by simp
  moreover have "take (n + 1) (b[n := x]) = take n b @ [x]" using Cons(2) by (simp add: take_Suc_conv_app_nth)
  ultimately show ?case using Cons(2) by (simp add: put_chars_def put_def drop_update_cancel)
qed

lemma put_chars_overflow: "n \<le> length b \<Longrightarrow> length b < n + length s \<Longrightarrow> put_chars s (b, n) = Inl OutOfBounds"
proof (induction s arbitrary: b n)
  case (Cons x s)
  then show ?case using Cons.IH[of "n + 1" "b[n := x]"] by (cases "n < length b") (simp_all add: put_chars_def put_def)
qed simp

lemma version_latest_eq:
  "version_latest mem g k = bindE (put_chars (version_text g) (local_array mem 128, 0)) (\<lambda>(buffer, n).
     bindE (put buffer n NUL) (\<lambda>buffer. kwrite buffer n k))"
proof -
  have t: "version_text g = ''R4 '' @ GIT_DATE g @ '' '' @ GIT_HASH g @ '' '' @ ''('' @ GIT_DIRTY g @ ('')'' @ CR # [LF])"
    by (simp add: version_text_def)
  show ?thesis unfolding version_latest_def t put_chars_append bindE_assoc ..
qed

lemma version_latest_ok:
  assumes "online COM1 (kio k)"
  shows "version_latest mem g k =
    (if length (version_text g) \<le> 127 then Inr (emit (version_text g) k) else Inl OutOfBounds)"
proof (cases "length (version_text g) \<le> 128")
  case True
  let ?n = "length (version_text g)"
  have "put_chars (version_text g) (local_array mem 128, 0) =
      Inr (version_text g @ drop ?n (local_array mem 128), ?n)"
    using put_chars_fits[of 0 "version_text g" "local_array mem 128"] True by simp
  then show ?thesis using assms True by (auto simp: version_latest_eq put_def kwrite_online)
next
  case False
  then show ?thesis using put_chars_overflow[of 0 "local_array mem 128" "version_text g"] by (simp add: version_latest_eq)
qed

section \<open>The greeting\<close>

definition startup_text :: "git_info \<Rightarrow> string" where
  "startup_text g = lit rule_text @ lit (CR # [LF]) @ banner1_text @ version_text g @ banner2_text"

lemma com_startup_ok:
  assumes "online COM1 (kio k)" and "length (version_text g) \<le> 127"
  shows "com_startup mem g k = Inr (emit (startup_text g) k)"
proof -
  have "length rule_text = 79" "NUL \<notin> set banner1_text" "NUL \<notin> set banner2_text"
    by (simp_all add: rule_text_def banner1_text_def banner2_text_def)
  then show ?thesis using assms
    by (simp add: com_startup_def kwrite_online say_lit version_latest_ok startup_text_def) 
qed

section \<open>Properties\<close>

text \<open>\<open>version\<close>: the text of the version, with the git description of the build,
  is written when it has at most 127 characters; a longer one is written behind the array.\<close>

theorem version_fits:
  assumes "online COM1 (kio k)"
  shows "version_latest mem g k =
    (if length (version_text g) \<le> 127 then Inr (emit (version_text g) k) else Inl OutOfBounds)"
  by (rule version_latest_ok[OF assms])

end
