(* ===== verification/Session.thy ===== *)
theory Session
  imports Machine Banner
begin

text \<open>
  The first session: from the first dispatch the command handler greets the user, reads a line
  and yields; the idle process runs; the command handler goes on with the line.
\<close>

section \<open>Input and output under the scheduler\<close>

lemma trap_kio:
  assumes "trap r k = Inr (r', k')"
  shows "kio k' = kio k"
  using assms
  by (auto simp: trap_def push_frame_def sys_call_def pop_frame_def return_context_def k_insert_def k_remove_def
      on_pcbs_def set_eax_def modify_context_def modify_pcb_def pcb_free_def Let_def bindE_eq_Inr
      split: if_splits prod.splits)

definition with_io :: "io \<Rightarrow> system \<Rightarrow> system" where
  "with_io i s = s\<lparr>kern := (kern s)\<lparr>kio := i\<rparr>\<rparr>"

lemma steady_io: "steady k A \<Longrightarrow> online COM1 i \<Longrightarrow> steady (k\<lparr>kio := i\<rparr>) A"
  by (auto simp: steady_def wf_run_def wf_def running_ok_def wf_pcb_def frames_ok_def live_def isolated_def below_def)

lemma correct_clock_io:
  "correct_clock k = k\<lparr>kio := kio (correct_clock k)\<rparr>" "online COM1 (kio (correct_clock k)) = online COM1 (kio k)"
  "sent COM1 (kio (correct_clock k)) = sent COM1 (kio k)" "pending COM1 (kio (correct_clock k)) = pending COM1 (kio k)"
  by (simp_all add: correct_clock_def online_def dlab_def sent_def pending_def)

lemma idle_turn_ok:
  "online COM1 (kio k) \<Longrightarrow> idle_turn k = Inr (IDLE, emit (''IDLE PROCESS EXECUTING.'' @ [CR, LF]) k)"
  by (simp add: idle_turn_def say_lit)

lemma first_turn:
  assumes on: "online COM1 (kio (kern s))" and pend: "pending COM1 (kio (kern s)) = cs @- ch ## rest"
    and l: "ch = CR \<or> ch = LF" "\<forall>c\<in>set cs. ordinary c" "fits 99 [] cs" and g: "length (version_text (git env)) \<le> 127"
  shows "\<exists>buf i. turn env Comhand_Start s = Inr (IDLE, Comhand_Line buf, with_io i s) \<and>
    terminated buf \<and> text_of buf = foldl edit [] cs \<and> online COM1 i \<and> pending COM1 i = rest \<and>
    sent COM1 i = console (kern s) @ startup_text (git env) @ prompt @ echoes [] cs @ [ch, CR, LF]"
proof -
  let ?k1 = "emit (startup_text (git env)) (kern s)"
  let ?s2 = "s\<lparr>kern := correct_clock ?k1\<rparr>"
  note cc = correct_clock_io[of ?k1]
  have s2: "online COM1 (kio (kern ?s2))" "pending COM1 (kio (kern ?s2)) = cs @- ch ## rest"
    using on pend cc(2,4) by simp_all
  obtain buf where buf: "terminated buf" "text_of buf = foldl edit [] cs" "read_command ?s2 = Inr (buf, line_read cs ch rest ?s2)"
    using read_command_line[OF s2 l] by blast
  let ?i = "kio (kern (line_read cs ch rest ?s2))"
  have "kern (line_read cs ch rest ?s2) = (kern s)\<lparr>kio := ?i\<rparr>"
    unfolding line_read_def by (subst cc(1)) (simp add: emit_def)
  then have "line_read cs ch rest ?s2 = with_io ?i s" by (simp add: with_io_def line_read_def)
  moreover have "turn env Comhand_Start s = Inr (IDLE, Comhand_Line buf, line_read cs ch rest ?s2)"
    by (simp add: turn_def on_kern_def com_startup_ok[OF on g] next_line_def buf(3))
  moreover have "online COM1 ?i" "pending COM1 ?i = rest"
    "sent COM1 ?i = console (kern s) @ startup_text (git env) @ prompt @ echoes [] cs @ [ch, CR, LF]"
    using s2(1) cc(3) emit_simps(9)[of "startup_text (git env)" "kern s"] by (simp_all add: line_read_def console_def)
  ultimately show ?thesis using buf(1,2) by metis
qed

section \<open>Two steps\<close>

text \<open>A turn that yields while somebody is ready, as a step.\<close>

lemma yield_step:
  assumes go: "\<not> halted m" "progs m (curProc (kern (msys m))) = Some p" and t: "turn env p (msys m) = Inr (IDLE, p', s)"
    and c: "curProc (kern s) = curProc (kern (msys m))" "curProc (kern s) \<noteq> NULL"
    and A: "steady (kern s) A" "A ReadyQ = h # hs" and r: "own_stack (kern s) r" "reg_eax r = IDLE"
  obtains r' k B where
    "mstep sy env m (go_to sy env (s\<lparr>kern := k\<rparr>) ((progs m)(curProc (kern s) \<mapsto> p')) r')"
    "steady k B" "curProc k = h" "B ReadyQ = ins_ready (prio (kern s)) (curProc (kern s)) hs" "kio k = kio (kern s)"
    "eax_only (saved_regs (kern s) h) (Some r')" "reg_esp r' \<noteq> sysStackPtr k + 60"
proof -
  have w: "wf_run (kern s) A" "isolated (kern s)" "below (kern s)" using A(1) by (auto simp: steady_def)
  obtain r' k B where k: "trap r (kern s) = Inr (r', k)" "wf_run k B" "isolated k"
    "(running k, B ReadyQ) = sched (prio (kern s)) (request_of (reg_eax r)) (running (kern s), A ReadyQ)"
    "kvm k = kvm (kern s)" "\<forall>a. pcbs (pcbq k) a = None \<longleftrightarrow> pcbs (pcbq (kern s)) a = None"
    "if curProc k \<noteq> curProc (kern s) \<and> curProc k \<noteq> NULL
     then eax_only (saved_regs (kern s) (curProc k)) (Some r') \<and> reg_esp r' \<noteq> sysStackPtr k + 60
     else reg_esp r' = sysStackPtr k + 60"
    using trap_full[OF w(1,2) r(1)] r(2) by blast
  have q: "queued A h" using A(2) by (auto simp: queued_def intro!: exI[of _ ReadyQ])
  have h: "h \<noteq> curProc (kern s)" by (rule not_running(1)[OF A(1) q])
  have s1: "curProc k = h" "B ReadyQ = ins_ready (prio (kern s)) (curProc (kern s)) hs" "h \<noteq> NULL"
    using k(4) r(2) c(2) A(2) by (auto simp: request_of_def running_def split: if_splits)
  have "steady k B" using k(2,3,5,6) w(3) by (simp add: steady_def below_def)
  moreover have "mstep sy env m (go_to sy env (s\<lparr>kern := k\<rparr>) ((progs m)(curProc (kern s) \<mapsto> p')) r')"
    using mstep.intros[OF go t r k(1), of sy] c(1) by simp
  moreover have "eax_only (saved_regs (kern s) h) (Some r') \<and> reg_esp r' \<noteq> sysStackPtr k + 60"
    using k(7) s1(1,3) h by simp
  ultimately show ?thesis using that[of k r' B] s1 trap_kio[OF k(1)] by simp
qed

lemma go_to_simps:
  "msys (go_to sy env s ps r) = s"
  "reg_esp r \<noteq> sysStackPtr (kern s) + 60 \<Longrightarrow> \<not> halted (go_to sy env s ps r)"
  "ps (curProc (kern s)) = Some p \<Longrightarrow> progs (go_to sy env s ps r) = ps"
  "reg_esp r \<noteq> sysStackPtr (kern s) + 60 \<Longrightarrow> ps (curProc (kern s)) = None \<Longrightarrow>
     progs (go_to sy env s ps r) = ps(curProc (kern s) := start_at sy env (reg_eip r))"
  by (simp_all add: go_to_def Let_def)

definition session_text :: "env \<Rightarrow> string \<Rightarrow> char \<Rightarrow> string" where
  "session_text env cs ch = startup_text (git env) @ prompt @ echoes [] cs @ [ch, CR, LF] @
     ''IDLE PROCESS EXECUTING.'' @ [CR, LF]"

definition booted_machine :: "symbols \<Rightarrow> env \<Rightarrow> board \<Rightarrow> cpu_context \<Rightarrow> machine" where
  "booted_machine sy env b r =
     go_to sy env \<lparr>kern = bkern b, alarms = (\<lambda>_. None), alarm_counter = 1\<rparr> (\<lambda>_. None) r"

text \<open>The first step: the command handler reads a line and the idle process goes on.\<close>

lemma first_step:
  fixes r1 :: cpu_context
  assumes boot: "powered b" "system_frame (reg_esp r - 60)" "kmain_start sy b = Inr b1" "kmain_trap r b1 = Inr (r0, b2)"
    and pend: "pending COM1 (kio (bkern b2)) = cs @- ch ## rest"
    and l: "ch = CR \<or> ch = LF" "\<forall>c\<in>set cs. ordinary c" "fits 99 [] cs" and g: "length (version_text (git env)) \<le> 127"
    and sy: "idle_addr sy \<noteq> comhand_addr sy" and r1: "frame_in com_pcb (reg_esp r1 - 60)" "reg_eax r1 = IDLE"
  obtains m1 buf i A where "mstep sy env (booted_machine sy env b2 r0) m1" "\<not> halted m1"
    "progs m1 = [com_pcb \<mapsto> Comhand_Line buf, idle_pcb \<mapsto> Idle_Loop]" "text_of buf = foldl edit [] cs"
    "steady (kern (msys m1)) A" "A ReadyQ = [com_pcb]" "curProc (kern (msys m1)) = idle_pcb"
    "kio (kern (msys m1)) = i" "online COM1 i" "pending COM1 i = rest"
    "sent COM1 i = console (bkern b2) @ startup_text (git env) @ prompt @ echoes [] cs @ [ch, CR, LF]"
proof -
  let ?m = "booted_machine sy env b2 r0"
  let ?s = "\<lparr>kern = bkern b2, alarms = (\<lambda>_. None), alarm_counter = 1\<rparr>"
  note b = boot_state[OF boot]
  have on: "online COM1 (kio (kern ?s))" using wfD(3)[OF steady_wf[OF b(1)]] by simp
  have m: "msys ?m = ?s" "\<not> halted ?m" "progs ?m = [com_pcb \<mapsto> Comhand_Start]"
    using b(2,4,5) by (simp_all add: booted_machine_def go_to_def start_at_def Let_def)
  obtain buf i where t: "turn env Comhand_Start ?s = Inr (IDLE, Comhand_Line buf, with_io i ?s)"
    "text_of buf = foldl edit [] cs" "online COM1 i" "pending COM1 i = rest"
    "sent COM1 i = console (bkern b2) @ startup_text (git env) @ prompt @ echoes [] cs @ [ch, CR, LF]"
    using first_turn[OF on _ l g] pend by (metis system.select_convs(1))
  let ?s1 = "with_io i ?s"
  have s1: "kern ?s1 = (bkern b2)\<lparr>kio := i\<rparr>" by (simp add: with_io_def)
  have st: "steady (kern ?s1) (ready_only [idle_pcb])" unfolding s1 by (rule steady_io[OF b(1) t(3)])
  have own: "own_stack (kern ?s1) r1" using r1(1) b(2) by (simp add: s1 own_stack_def)
  obtain r' k B where k: "mstep sy env ?m (go_to sy env (?s1\<lparr>kern := k\<rparr>) ((progs ?m)(curProc (kern ?s1) \<mapsto> Comhand_Line buf)) r')"
    "steady k B" "curProc k = idle_pcb" "B ReadyQ = ins_ready (prio (kern ?s1)) (curProc (kern ?s1)) []" "kio k = kio (kern ?s1)"
    "eax_only (saved_regs (kern ?s1) idle_pcb) (Some r')" "reg_esp r' \<noteq> sysStackPtr k + 60"
    by (rule yield_step[of ?m Comhand_Start env "Comhand_Line buf" ?s1 "ready_only [idle_pcb]" idle_pcb "[]" r1 sy])
       (use m t(1) b(2) st own r1(2) in \<open>simp_all add: s1\<close>)
  have eip: "reg_eip r' = idle_addr sy"
  proof -
    have "saved_regs (kern ?s1) idle_pcb = Some (first_frame (idle_addr sy) idle_pcb)" using b(6) by (simp add: s1)
    then show ?thesis using k(6) by (auto dest: eax_only_eip)
  qed
  have si: "start_at sy env (idle_addr sy) = Some Idle_Loop" using sy by (simp add: start_at_def)
  let ?m1 = "go_to sy env (?s1\<lparr>kern := k\<rparr>) ((progs ?m)(curProc (kern ?s1) \<mapsto> Comhand_Line buf)) r'"
  have "progs ?m1 = [com_pcb \<mapsto> Comhand_Line buf, idle_pcb \<mapsto> Idle_Loop]"
    using k(3,7) eip si b(2) m(3) by (simp add: go_to_def s1 Let_def)
  moreover have "\<not> halted ?m1" using k(7) by (simp add: go_to_def Let_def)
  moreover have "msys ?m1 = ?s1\<lparr>kern := k\<rparr>" by (simp add: go_to_simps)
  ultimately show ?thesis
    using that[of ?m1 buf B i] k(1-5) t(2-5) b(2) by (simp add: s1 ins_ready_def)
qed

lemma session_steps:
  fixes r1 r2 :: cpu_context
  assumes "powered b" and "system_frame (reg_esp r - 60)" and "kmain_start sy b = Inr b1"
    and "kmain_trap r b1 = Inr (r0, b2)" and "pending COM1 (kio (bkern b2)) = cs @- ch ## rest"
    and "ch = CR \<or> ch = LF" and "\<forall>c\<in>set cs. ordinary c" and "fits 99 [] cs"
    and "length (version_text (git env)) \<le> 127" and "idle_addr sy \<noteq> comhand_addr sy"
    and "frame_in com_pcb (reg_esp r1 - 60)" and "reg_eax r1 = IDLE"
    and "frame_in idle_pcb (reg_esp r2 - 60)" and "reg_eax r2 = IDLE"
  shows "\<exists>m1 m2 buf. mstep sy env (booted_machine sy env b2 r0) m1 \<and> mstep sy env m1 m2 \<and> \<not> halted m2 \<and>
    curProc (kern (msys m1)) = idle_pcb \<and> curProc (kern (msys m2)) = com_pcb \<and>
    progs m2 = [com_pcb \<mapsto> Comhand_Line buf, idle_pcb \<mapsto> Idle_Loop] \<and> text_of buf = foldl edit [] cs \<and>
    console (kern (msys m2)) = console (bkern b2) @ session_text env cs ch \<and>
    pending COM1 (kio (kern (msys m2))) = rest"
proof -
  obtain m1 buf i A where m1: "mstep sy env (booted_machine sy env b2 r0) m1" "\<not> halted m1"
    "progs m1 = [com_pcb \<mapsto> Comhand_Line buf, idle_pcb \<mapsto> Idle_Loop]" "text_of buf = foldl edit [] cs"
    "steady (kern (msys m1)) A" "A ReadyQ = [com_pcb]" "curProc (kern (msys m1)) = idle_pcb"
    "kio (kern (msys m1)) = i" "online COM1 i" "pending COM1 i = rest"
    "sent COM1 i = console (bkern b2) @ startup_text (git env) @ prompt @ echoes [] cs @ [ch, CR, LF]"
    by (rule first_step[OF assms(1-12)])
  let ?k1 = "emit (''IDLE PROCESS EXECUTING.'' @ [CR, LF]) (kern (msys m1))"
  let ?s = "(msys m1)\<lparr>kern := ?k1\<rparr>"
  have t: "turn env Idle_Loop (msys m1) = Inr (IDLE, Idle_Loop, ?s)"
    using idle_turn_ok[of "kern (msys m1)"] m1(8,9) by (simp add: turn_def)
  have st: "steady ?k1 A" unfolding emit_def by (rule steady_io[OF m1(5)]) (simp add: m1(8,9))
  have own: "own_stack ?k1 r2" using assms(13) m1(7) by (simp add: own_stack_def)
  obtain r' k B where k: "mstep sy env m1 (go_to sy env (?s\<lparr>kern := k\<rparr>) ((progs m1)(curProc (kern ?s) \<mapsto> Idle_Loop)) r')"
    "curProc k = com_pcb" "kio k = kio ?k1" "reg_esp r' \<noteq> sysStackPtr k + 60"
    by (rule yield_step[of m1 Idle_Loop env Idle_Loop ?s A com_pcb "[]" r2 sy])
       (use m1 t st own assms(14) in simp_all)
  let ?m2 = "go_to sy env (?s\<lparr>kern := k\<rparr>) ((progs m1)(curProc (kern ?s) \<mapsto> Idle_Loop)) r'"
  have "progs ?m2 = [com_pcb \<mapsto> Comhand_Line buf, idle_pcb \<mapsto> Idle_Loop]"
    using m1(3,7) k(2) by (simp add: go_to_def Let_def fun_upd_idem)
  moreover have "\<not> halted ?m2" "msys ?m2 = ?s\<lparr>kern := k\<rparr>" using k(4) by (simp_all add: go_to_def Let_def)
  moreover have "console k = console (bkern b2) @ session_text env cs ch" "pending COM1 (kio k) = rest"
  proof -
    have "console k = console ?k1" using k(3) by (simp add: console_def)
    then show "console k = console (bkern b2) @ session_text env cs ch"
      using m1(8,11) by (simp add: console_def[of "kern (msys m1)"] session_text_def)
    show "pending COM1 (kio k) = rest" using k(3) m1(8,10) by simp
  qed
  ultimately show ?thesis using m1(1,4,7) k(1,2) by (intro exI[of _ m1] exI[of _ ?m2] exI[of _ buf]) simp
qed

section \<open>Properties\<close>

definition boot_text :: string where
  "boot_text = hardware_log @
     logged ''Initializing MPX modules...'' @ logged ''Transferring control to commhand...''"

text \<open>Property C7. The first session: on a machine that is \<open>powered\<close>, with \<open>cs\<close> and the end of a
  line \<open>ch\<close> typed behind one byte that the driver drops, \<open>kmain\<close> comes to its interrupt without
  an error; the command handler greets the user, prompts for and echoes the line and yields; the
  idle process runs and yields; and the command handler goes on with the edited line as the
  command it will run. The console shows exactly the log of \<open>kmain\<close>, the greeting, the prompt
  with the echo and the line of the idle process. The two yields may be made with any registers
  whose stack pointer is inside the stack of the process.\<close>

theorem first_session:
  fixes r1 r2 :: cpu_context
  assumes "powered b" and "system_frame (reg_esp r - 60)"
    and "stl (pending COM1 (kio (bkern b))) = cs @- ch ## rest"
    and "ch = CR \<or> ch = LF" and "\<forall>c\<in>set cs. ordinary c" and "fits 99 [] cs"
    and "length (version_text (git env)) \<le> 127" and "idle_addr sy \<noteq> comhand_addr sy"
    and "frame_in com_pcb (reg_esp r1 - 60)" and "reg_eax r1 = IDLE"
    and "frame_in idle_pcb (reg_esp r2 - 60)" and "reg_eax r2 = IDLE"
  shows "\<exists>b1 r0 b2 m1 m2 buf. kmain_start sy b = Inr b1 \<and> kmain_trap r b1 = Inr (r0, b2) \<and>
    mstep sy env (booted_machine sy env b2 r0) m1 \<and> mstep sy env m1 m2 \<and> \<not> halted m2 \<and>
    curProc (kern (msys m1)) = idle_pcb \<and> curProc (kern (msys m2)) = com_pcb \<and>
    progs m2 = [com_pcb \<mapsto> Comhand_Line buf, idle_pcb \<mapsto> Idle_Loop] \<and> text_of buf = foldl edit [] cs \<and>
    console (kern (msys m2)) = console (bkern b) @ boot_text @ session_text env cs ch \<and>
    pending COM1 (kio (kern (msys m2))) = rest"
proof -
  obtain b1 r0 b2 where b: "kmain_start sy b = Inr b1" "kmain_trap r b1 = Inr (r0, b2)"
    "console (bkern b2) = console (bkern b) @ boot_text" "pending COM1 (kio (bkern b2)) = cs @- ch ## rest"
    using kmain_boot_ok[OF assms(1,2), of sy] assms(3) by (auto simp: boot_text_def)
  then show ?thesis
    using session_steps[OF assms(1,2) b(1,2,4) assms(4-12)] unfolding b(3) append_assoc by blast
qed

end
