(* ===== verification/SysReq.thy ===== *)
theory SysReq
  imports Keeps
begin

text \<open>
  \<open>sys_req\<close> of \<^verbatim>\<open>user/core.c\<close>. Every request is a trap, also \<open>READ\<close> and \<open>WRITE\<close>: the
  dispatcher answers -1 to them, and then the driver runs in the caller. The commands of the
  other theories use the driver directly (\<open>sys_req_READ\<close>, \<open>sys_req_WRITE\<close>). Here is why they
  may: the trap of such a request comes back to the caller with all its registers but eax, and
  changes nothing but the dead frame below the caller's stack pointer.
\<close>

text \<open>The result is the value returned, the buffer, the registers and the state. For \<open>IDLE\<close> and
  \<open>EXIT\<close> these are the registers of whoever goes on.\<close>

definition sys_req :: "u32 \<Rightarrow> port \<Rightarrow> cbuf \<Rightarrow> nat \<Rightarrow> cpu_context \<Rightarrow> kernel \<Rightarrow>
    (int \<times> cbuf \<times> cpu_context \<times> kernel) c" where
  "sys_req op dev buffer len regs k =
     bindE (trap (regs\<lparr>reg_eax := op\<rparr>) k) (\<lambda>(regs, k).
     let ret = sint (reg_eax regs)
     in if ret = -1 \<and> (op = READ \<or> op = WRITE)
        then if op = READ
             then bindE (serial_poll dev buffer len (kio k)) (\<lambda>(n, buffer, s). Inr (n, buffer, regs, k\<lparr>kio := s\<rparr>))
             else bindE (serial_out dev buffer len (kio k)) (\<lambda>(n, s). Inr (n, buffer, regs, k\<lparr>kio := s\<rparr>))
        else Inr (ret, buffer, regs, k))"

lemma saved_regs_frames:
  assumes "pcbs (pcbq k) b = Some p" and "c (contextPtr p) = contexts k (contextPtr p)"
  shows "saved_regs (k\<lparr>contexts := c\<rparr>) b = saved_regs k b"
  using assms by (simp add: saved_regs_def)

lemma transfer_back:
  assumes s: "sound k" and c: "curProc k \<noteq> NULL" and own: "own_stack k regs"
    and op: "reg_eax regs \<noteq> IDLE" "reg_eax regs \<noteq> EXIT"
  obtains cs where "trap regs k = Inr (regs\<lparr>reg_eax := -1\<rparr>, k\<lparr>contexts := cs\<rparr>)" "sound (k\<lparr>contexts := cs\<rparr>)"
    "\<And>b. b \<noteq> curProc k \<Longrightarrow> saved_regs (k\<lparr>contexts := cs\<rparr>) b = saved_regs k b"
proof -
  obtain A where A: "wf_run k A" "isolated k" "below k" using s by (auto simp: sound_def steady_def)
  let ?x = "regs\<lparr>reg_esp := reg_esp regs - 12\<rparr>"
  obtain ctx k1 where "pushed A regs k ctx k1" by (rule push_frame_ok[OF A(1,2) own])
  note k1 = pushedD[OF this] and sel = pushed_sel[OF this] and keep = pushed_keep[OF this]
  define cs where "cs = (contexts k1)(ctx \<mapsto> ?x\<lparr>reg_eax := -1\<rparr>)"
  have k2: "k1\<lparr>contexts := cs\<rparr> = k\<lparr>contexts := cs\<rparr>" by (subst k1(4)) simp
  have "sys_call ctx k1 = Inr (ctx, k1\<lparr>sysStackPtr := sysStackPtr k1, contexts := cs\<rparr>)"
    using sys_call_other[OF k1(3,5)] op c by (simp add: sel cs_def)
  then have "sys_call ctx k1 = Inr (ctx, k\<lparr>contexts := cs\<rparr>)" using k2 by simp
  moreover have "pop_frame ctx (k\<lparr>contexts := cs\<rparr>) = Inr (regs\<lparr>reg_eax := -1\<rparr>)"
    using pop_frame_live[of ctx "k\<lparr>contexts := cs\<rparr>" "?x\<lparr>reg_eax := -1\<rparr>"] k1(2,3) by (simp add: cs_def)
  ultimately have t: "trap regs k = Inr (regs\<lparr>reg_eax := -1\<rparr>, k\<lparr>contexts := cs\<rparr>)" by (simp add: trap_def k1(1))
  have "wf_run (k1\<lparr>contexts := cs\<rparr>) A"
    using wf_run_set_eax[OF k1(6), of ctx "?x\<lparr>reg_eax := -1\<rparr>"] by (simp add: cs_def)
  then have "sound (k\<lparr>contexts := cs\<rparr>)"
    using A unfolding k2 by (auto simp: sound_def steady_def isolated_def below_def)
  moreover have "saved_regs (k\<lparr>contexts := cs\<rparr>) b = saved_regs k b" if "b \<noteq> curProc k" for b
  proof (cases "pcbs (pcbq k) b")
    case None
    then show ?thesis by (simp add: saved_regs_def)
  next
    case (Some p)
    then show ?thesis using keep[OF that Some] by (intro saved_regs_frames[OF Some]) (simp add: cs_def)
  qed
  ultimately show ?thesis using that t by blast
qed

section \<open>Properties\<close>

text \<open>Property C10. \<open>READ\<close> and \<open>WRITE\<close>: the request comes back to the process that made it, with
  all its registers but eax, on a sound state that differs in frames of its own stack only, and
  its result is what the serial driver gives on the devices as they were.\<close>

theorem sys_req_is_driver:
  assumes "sound k" and "curProc k \<noteq> NULL" and "own_stack k regs" and "op = READ \<or> op = WRITE"
  shows "\<exists>cs. sound (k\<lparr>contexts := cs\<rparr>) \<and>
    (\<forall>b. b \<noteq> curProc k \<longrightarrow> saved_regs (k\<lparr>contexts := cs\<rparr>) b = saved_regs k b) \<and>
    sys_req op dev buffer len regs k =
      (if op = READ
       then bindE (sys_req_READ dev buffer len (kio k)) (\<lambda>(n, buffer, s).
            Inr (n, buffer, regs\<lparr>reg_eax := -1\<rparr>, k\<lparr>contexts := cs, kio := s\<rparr>))
       else bindE (serial_out dev buffer len (kio k)) (\<lambda>(n, s).
            Inr (n, buffer, regs\<lparr>reg_eax := -1\<rparr>, k\<lparr>contexts := cs, kio := s\<rparr>)))"
proof -
  have own: "own_stack k (regs\<lparr>reg_eax := op\<rparr>)" using assms(3) by (simp add: own_stack_def)
  obtain cs where "trap (regs\<lparr>reg_eax := op\<rparr>) k = Inr (regs\<lparr>reg_eax := op, reg_eax := -1\<rparr>, k\<lparr>contexts := cs\<rparr>)"
    "sound (k\<lparr>contexts := cs\<rparr>)" "\<And>b. b \<noteq> curProc k \<Longrightarrow> saved_regs (k\<lparr>contexts := cs\<rparr>) b = saved_regs k b"
    by (rule transfer_back[OF assms(1,2) own]) (use assms(4) in auto)
  then show ?thesis using assms(4)
    by (intro exI[of _ cs]) (auto simp: sys_req_def sys_req_READ_def Let_def)
qed

end
