(* ===== verification/ResumeAll.thy ===== *)
theory ResumeAll
  imports ShowPcb Load
begin

text \<open>
  The loop of \<open>resume all\<close> (\<^verbatim>\<open>user/pcb/ready.c\<close>). It walks the suspended-ready queue, takes each
  process out of it and looks it up by its name. The link to the next process is read before
  the process is moved, so the walk ends at the end of the queue; with distinct names every
  process on it is resumed.
\<close>

section \<open>The abstract result\<close>

text \<open>The suspended-ready processes enter the ready queue one after the other.\<close>

definition resumed :: "kernel \<Rightarrow> (qid \<Rightarrow> addr list) \<Rightarrow> qid \<Rightarrow> addr list" where
  "resumed k A = A(SuspReadyQ := [],
     ReadyQ := fold (ins_ready (prio_of (pcbq k))) (A SuspReadyQ) (A ReadyQ))"

definition activated :: "addr set \<Rightarrow> pcb_state \<Rightarrow> pcb_state" where
  "activated X s = s\<lparr>pcbs := (\<lambda>a. if a \<in> X then map_option (\<lambda>p. p\<lparr>dispatch_state := DISPATCH_ACTIVE\<rparr>) (pcbs s a)
                                 else pcbs s a)\<rparr>"

definition all_resumed :: "kernel \<Rightarrow> (qid \<Rightarrow> addr list) \<Rightarrow> kernel \<Rightarrow> bool" where
  "all_resumed k A k' \<longleftrightarrow>
     (\<exists>s. k' = k\<lparr>pcbq := s\<rparr> \<and> wf k' (resumed k A) \<and> same_pcbs (activated (set (A SuspReadyQ)) (pcbq k)) s)"

definition all_named :: "kernel \<Rightarrow> (qid \<Rightarrow> addr list) \<Rightarrow> bool" where
  "all_named k A \<longleftrightarrow> (\<forall>a. queued A a \<longrightarrow> name_of (pcbq k) a \<noteq> [])"

lemma same_pcbs_activated: "same_pcbs s t \<Longrightarrow> same_pcbs (activated X s) (activated X t)"
  unfolding same_pcbs_def
proof
  fix a assume "\<forall>a. map_option unlinked (pcbs t a) = map_option unlinked (pcbs s a)"
  then have "map_option unlinked (pcbs t a) = map_option unlinked (pcbs s a)" by blast
  then show "map_option unlinked (pcbs (activated X t) a) = map_option unlinked (pcbs (activated X s) a)"
    by (cases "pcbs s a"; cases "pcbs t a") (auto simp: activated_def unlinked_eq_iff)
qed

lemma activated_Cons:
  assumes "pcbs s x = Some p" and "x \<notin> X"
  shows "activated X (with_changed x (p\<lparr>dispatch_state := DISPATCH_ACTIVE\<rparr>) s) = activated (insert x X) s"
  using assms by (auto simp: activated_def with_changed_def fun_eq_iff)

lemma with_changed_same:
  assumes "pcbs s x = Some p"
  shows "pname r = pname p \<Longrightarrow> name_of (with_changed x r s) = name_of s"
    "priority r = priority p \<Longrightarrow> prio_of (with_changed x r s) = prio_of s"
  using assms by (auto simp: with_changed_def name_of_def prio_of_def fun_eq_iff)

lemma queued_4: "queued A a \<longleftrightarrow> a \<in> set (A ReadyQ) \<or> a \<in> set (A BlockedQ) \<or> a \<in> set (A SuspReadyQ) \<or> a \<in> set (A SuspBlockedQ)"
  unfolding queued_def by (metis qid.exhaust)

lemma queued_resume:
  "A SuspReadyQ = x # xs \<Longrightarrow> queued (A(SuspReadyQ := xs, ReadyQ := ins_ready pr x (A ReadyQ))) = queued A"
  by (auto simp: queued_4 fun_eq_iff)

section \<open>The loop\<close>

lemma resume_step:
  assumes wf: "wf k A" and d: "names_distinct k A" and n: "all_named k A" and q: "A SuspReadyQ = x # xs"
  obtains p s where "pcbs (pcbq k) x = Some p" "resume_pcb (Some (pname p)) k = Inr (0, k\<lparr>pcbq := s\<rparr>)"
    "wf (k\<lparr>pcbq := s\<rparr>) (A(SuspReadyQ := xs, ReadyQ := ins_ready (prio_of (pcbq k)) x (A ReadyQ)))"
    "same_pcbs (with_changed x (p\<lparr>dispatch_state := DISPATCH_ACTIVE\<rparr>) (pcbq k)) s"
proof -
  have x: "x \<in> set (A SuspReadyQ)" "queued A x" using q by (simp_all add: queued_4)
  obtain p where p: "pcbs (pcbq k) x = Some p" "select_queue p = SuspReadyQ" using rep_home[OF wfD(1)[OF wf] x(1)] by blast
  have nm: "name_of (pcbq k) x = text_of (pname p)" using p by (simp add: name_of_def)
  have "process_named k A (pname p) SuspReadyQ x p"
    using wf wf_pcbD[OF wf p(1)] x p(1) nm n d unfolding process_named_def names_distinct_def inj_on_def all_named_def wf_pcb_def
    by fastforce
  moreover have ds: "dispatch_state p = DISPATCH_SUSPENDED" "execution_state p \<noteq> STATE_BLOCKED"
    using p(2) by (auto simp: select_queue_def split: if_splits)
  ultimately obtain k' where k': "moves k A SuspReadyQ x (p\<lparr>dispatch_state := DISPATCH_ACTIVE\<rparr>) k'"
    "resume_pcb (Some (pname p)) k = Inr (0, k')" using resume_pcb_cases(2) by blast
  have "requeued k A SuspReadyQ x (p\<lparr>dispatch_state := DISPATCH_ACTIVE\<rparr>) =
      A(SuspReadyQ := xs, ReadyQ := ins_ready (prio_of (pcbq k)) x (A ReadyQ))"
    using q ds with_changed_same(2)[OF p(1)] by (simp add: requeued_def select_queue_def place_def Let_def)
  then show ?thesis using that[OF p(1)] k' by (auto simp: moves_def)
qed

lemma resume_loop_all:
  assumes "wf k A" and "names_distinct k A" and "all_named k A"
  shows "\<exists>k'. resume_loop (first_or NULL (A SuspReadyQ)) k = Some (Inr k') \<and> all_resumed k A k'"
  using assms
proof (induction "A SuspReadyQ" arbitrary: k A)
  case Nil
  then have "A(SuspReadyQ := [], ReadyQ := A ReadyQ) = A" by (metis fun_upd_triv fun_upd_twist)
  then have "all_resumed k A k"
    using Nil by (auto simp: all_resumed_def resumed_def activated_def intro!: exI[of _ "pcbq k"])
  then show ?case using Nil(1)[symmetric] by (simp add: resume_loop.simps)
next
  case (Cons x xs)
  note q = Cons(2)[symmetric]
  obtain p s where p: "pcbs (pcbq k) x = Some p" "resume_pcb (Some (pname p)) k = Inr (0, k\<lparr>pcbq := s\<rparr>)"
    "wf (k\<lparr>pcbq := s\<rparr>) (A(SuspReadyQ := xs, ReadyQ := ins_ready (prio_of (pcbq k)) x (A ReadyQ)))"
    "same_pcbs (with_changed x (p\<lparr>dispatch_state := DISPATCH_ACTIVE\<rparr>) (pcbq k)) s"
    by (rule resume_step[OF Cons(3-5) q])
  let ?k = "k\<lparr>pcbq := s\<rparr>" let ?A = "A(SuspReadyQ := xs, ReadyQ := ins_ready (prio_of (pcbq k)) x (A ReadyQ))"
  have nx: "name_of s = name_of (pcbq k)" "prio_of s = prio_of (pcbq k)"
    using same_pcbs_name[OF p(4)] same_pcbs_prio[OF p(4)] with_changed_same[OF p(1)] by simp_all
  have qd: "queued ?A = queued A" by (rule queued_resume[where A = A, OF q])
  have "names_distinct ?k ?A" "all_named ?k ?A"
    using Cons(4,5) by (simp_all add: names_distinct_def all_named_def nx qd)
  then obtain k' where k': "resume_loop (first_or NULL xs) ?k = Some (Inr k')" "all_resumed ?k ?A k'"
    using Cons(1)[of ?A ?k] p(3) by auto
  have sg: "seg (pcbs (pcbq k)) NULL (x # xs) NULL" and dist: "distinct (x # xs)"
    using repD(3,4)[OF wfD(1)[OF Cons(3)], of SuspReadyQ] q by simp_all
  then have l: "load x (pcbq k) = Inr p" "pnext p = first_or NULL xs" "x \<noteq> NULL"
    using p(1) by (auto simp: load_live)
  have "all_resumed k A k'"
  proof -
    obtain s' where s': "k' = k\<lparr>pcbq := s'\<rparr>" "wf k' (resumed ?k ?A)" "same_pcbs (activated (set xs) s) s'"
      using k'(2) by (auto simp: all_resumed_def)
    have "resumed ?k ?A = resumed k A" by (simp add: resumed_def nx q)
    moreover have "same_pcbs (activated (set (x # xs)) (pcbq k)) s'"
      using same_pcbs_trans[OF same_pcbs_activated[OF p(4)] s'(3)] activated_Cons[OF p(1)] dist by simp
    ultimately show ?thesis using s' by (auto simp: all_resumed_def q)
  qed
  then show ?case using k'(1) l p(2) q by (subst resume_loop.simps) (simp add: load_live)
qed

lemma resume_all_runs:
  assumes "wf k A" and "names_distinct k A" and "all_named k A"
  shows "if A SuspReadyQ = [] then resume_command (Some (lit ''all'')) k = Inr (emit none_suspended_text k)
    else \<exists>k'. resume_command (Some (lit ''all'')) k = Inr k' \<and> all_resumed (emit resuming_text k) A k'"
proof -
  note on = wfD(3)[OF assms(1)]
  have "terminated (lit ''all'')" "text_of (lit ''all'') = ''all''" by simp_all
  moreover have "A SuspReadyQ \<noteq> [] \<Longrightarrow> first_or NULL (A SuspReadyQ) \<noteq> NULL"
    using first_last_simps(1)[OF rep_no_NULL[OF wfD(1)[OF assms(1)]]] by simp
  moreover have "length none_suspended_text = 42" "NUL \<notin> set resuming_text"
    "take 42 (lit none_suspended_text) = none_suspended_text"
    by (simp_all add: none_suspended_text_def resuming_text_def lit_def)
  moreover obtain k' where "resume_loop (first_or NULL (A SuspReadyQ)) (emit resuming_text k) = Some (Inr k')"
    "all_resumed (emit resuming_text k) A k'"
    using resume_loop_all[of "emit resuming_text k" A] assms by (auto simp: names_distinct_def all_named_def)
  ultimately show ?thesis
    by (auto simp: resume_command_def Let_def no_args_text args_are_text repD(1)[OF wfD(1)[OF assms(1)]]
        kwrite_online[OF on] say_lit[OF on] loop_result_def simp del: lit_def)
qed

section \<open>Properties\<close>

text \<open>Property C20. \<open>resume all\<close> ends: with distinct names every process of the
  suspended-ready queue is active again and in the ready queue, entered there one after the
  other by priority, and nothing else has changed but the line written; without such a
  process only the message is written.\<close>

theorem resume_all_ends:
  assumes "wf k A" and "names_distinct k A" and "all_named k A"
  shows "if A SuspReadyQ = [] then resume_command (Some (lit ''all'')) k = Inr (emit none_suspended_text k)
    else \<exists>k'. resume_command (Some (lit ''all'')) k = Inr k' \<and> all_resumed (emit resuming_text k) A k'"
  by (rule resume_all_runs[OF assms])

end
