(* ===== verification/LoadSuspended.thy ===== *)
theory LoadSuspended
  imports ResumeAll
begin

text \<open>
  The command \<open>load suspended\<close> (\<^verbatim>\<open>user/loadR3.c\<close>), and \<open>resume all\<close> (\<^verbatim>\<open>user/pcb/ready.c\<close>)
  after it: together they do what \<open>load\<close> does.
\<close>

section \<open>Suspending the processes of a list\<close>

abbreviation suspend_all :: "string list \<Rightarrow> kernel \<Rightarrow> kernel c" where
  "suspend_all \<equiv> foldE (\<lambda>nm k. bindE (suspend_pcb (Some (lit nm)) k) (\<lambda>(_, k). Inr k))"

definition parked :: "addr set \<Rightarrow> pcb_state \<Rightarrow> pcb_state" where
  "parked X s = s\<lparr>pcbs := (\<lambda>a. if a \<in> X then map_option (\<lambda>p. p\<lparr>dispatch_state := DISPATCH_SUSPENDED\<rparr>) (pcbs s a)
                              else pcbs s a)\<rparr>"

lemma same_pcbs_parked: "same_pcbs s t \<Longrightarrow> same_pcbs (parked X s) (parked X t)"
  unfolding same_pcbs_def
proof
  fix a assume "\<forall>a. map_option unlinked (pcbs t a) = map_option unlinked (pcbs s a)"
  then have "map_option unlinked (pcbs t a) = map_option unlinked (pcbs s a)" by blast
  then show "map_option unlinked (pcbs (parked X t) a) = map_option unlinked (pcbs (parked X s) a)"
    by (cases "pcbs s a"; cases "pcbs t a") (auto simp: parked_def unlinked_eq_iff)
qed

lemma parked_Cons:
  assumes "pcbs s x = Some p" and "x \<notin> X"
  shows "parked X (with_changed x (p\<lparr>dispatch_state := DISPATCH_SUSPENDED\<rparr>) s) = parked (insert x X) s"
  using assms by (auto simp: parked_def with_changed_def fun_eq_iff)

text \<open>An active, ready user process of this name.\<close>

definition active_user :: "pcb_state \<Rightarrow> addr \<Rightarrow> string \<Rightarrow> bool" where
  "active_user s a nm \<longleftrightarrow> (\<exists>r. pcbs s a = Some r \<and> text_of (pname r) = nm \<and> process_class r = CLASS_USER \<and>
     execution_state r = STATE_READY \<and> dispatch_state r = DISPATCH_ACTIVE)"

lemma active_user_same: "same_pcbs s t \<Longrightarrow> active_user s a nm \<Longrightarrow> active_user t a nm"
  unfolding active_user_def by (metis same_pcbs_Some unlinked_fields(1,2,4,5))

text \<open>The queues while the processes move one by one from the middle of the ready queue to the end
  of the suspended-ready queue.\<close>

definition moving :: "(qid \<Rightarrow> addr list) \<Rightarrow> addr list \<Rightarrow> addr list \<Rightarrow> addr list \<Rightarrow> addr list \<Rightarrow> qid \<Rightarrow> addr list" where
  "moving A T xs D S = A(ReadyQ := T @ xs @ D, SuspReadyQ := S)"

lemma moving_simps [simp]:
  "moving A T xs D S ReadyQ = T @ xs @ D" "moving A T xs D S SuspReadyQ = S"
  "moving A T xs D S BlockedQ = A BlockedQ" "moving A T xs D S SuspBlockedQ = A SuspBlockedQ"
  by (simp_all add: moving_def)

lemma suspend_moves:
  assumes wf: "wf k (moving A T (a # xs) D S)" and a: "active_user (pcbq k) a nm" and nm: "nm \<noteq> []" "NUL \<notin> set nm"
    and others: "\<And>b. queued (moving A T xs D S) b \<Longrightarrow> name_of (pcbq k) b \<noteq> nm"
  obtains r s where "pcbs (pcbq k) a = Some r" "suspend_pcb (Some (lit nm)) k = Inr (0, k\<lparr>pcbq := s\<rparr>)"
    "wf (k\<lparr>pcbq := s\<rparr>) (moving A T xs D (S @ [a]))"
    "same_pcbs (with_changed a (r\<lparr>dispatch_state := DISPATCH_SUSPENDED\<rparr>) (pcbq k)) s"
proof -
  obtain r where r: "pcbs (pcbq k) a = Some r" "text_of (pname r) = nm" "process_class r = CLASS_USER"
    "execution_state r = STATE_READY" "dispatch_state r = DISPATCH_ACTIVE"
    using a by (auto simp: active_user_def)
  have "queued (moving A T (a # xs) D S) b \<longleftrightarrow> queued (moving A T xs D S) b \<or> b = a" for b
    by (auto simp: queued_4)
  then have "\<forall>b. queued (moving A T (a # xs) D S) b \<longrightarrow> name_of (pcbq k) b = nm \<longrightarrow> b = a"
    using others by blast
  then have n: "process_named k (moving A T (a # xs) D S) (lit nm) ReadyQ a r"
    using wf r nm by (simp add: process_named_def)
  obtain k' where k': "moves k (moving A T (a # xs) D S) ReadyQ a (r\<lparr>dispatch_state := DISPATCH_SUSPENDED\<rparr>) k'"
    "suspend_pcb (Some (lit nm)) k = Inr (0, k')"
    using suspend_pcb_cases(3)[OF n r(3,5)] by blast
  have "distinct (T @ (a # xs) @ D)" using repD(4)[OF wfD(1)[OF wf], of ReadyQ] by simp
  then have "requeued k (moving A T (a # xs) D S) ReadyQ a (r\<lparr>dispatch_state := DISPATCH_SUSPENDED\<rparr>) =
      moving A T xs D (S @ [a])"
    using r(4) by (simp add: requeued_def select_queue_def place_def Let_def remove1_append moving_def fun_upd_twist)
  then show ?thesis using that[OF r(1)] k' by (auto simp: moves_def)
qed

lemma suspend_all_ok:
  assumes "wf k (moving A T xs D S)" and "list_all2 (active_user (pcbq k)) xs nms" and "distinct nms"
    and "\<forall>b. queued (moving A T [] D S) b \<longrightarrow> name_of (pcbq k) b \<notin> set nms"
    and "\<forall>nm \<in> set nms. nm \<noteq> [] \<and> NUL \<notin> set nm"
  shows "\<exists>s. suspend_all nms k = Inr (k\<lparr>pcbq := s\<rparr>) \<and> wf (k\<lparr>pcbq := s\<rparr>) (moving A T [] D (S @ xs)) \<and>
    same_pcbs (parked (set xs) (pcbq k)) s"
  using assms
proof (induction nms arbitrary: xs S k)
  case Nil
  then show ?case by (intro exI[of _ "pcbq k"]) (simp add: parked_def)
next
  case (Cons nm nms)
  obtain a ys where xs: "xs = a # ys" and a: "active_user (pcbq k) a nm" and ys: "list_all2 (active_user (pcbq k)) ys nms"
    using Cons.prems(2) by (auto simp: list_all2_Cons2)
  have wf: "wf k (moving A T (a # ys) D S)" by (rule Cons.prems(1)[unfolded xs])
  have dist: "distinct (a # ys)" using repD(4)[OF wfD(1)[OF wf], of ReadyQ] by simp
  have ynames: "name_of (pcbq k) b \<in> set nms" if b: "b \<in> set ys" for b
  proof -
    obtain j where "j < length ys" "b = ys ! j" using b by (auto simp: in_set_conv_nth)
    then have "nms ! j \<in> set nms" "active_user (pcbq k) b (nms ! j)" using ys by (auto simp: list_all2_conv_all_nth)
    then show ?thesis by (auto simp: active_user_def name_of_def)
  qed
  have q: "queued (moving A T ys D S) b \<longleftrightarrow> queued (moving A T [] D S) b \<or> b \<in> set ys" for b
    by (auto simp: queued_4)
  have others: "name_of (pcbq k) b \<noteq> nm" if "queued (moving A T ys D S) b" for b
    using that Cons.prems(3,4) ynames[of b] unfolding q by auto
  have nm: "nm \<noteq> []" "NUL \<notin> set nm" using Cons.prems(5) by auto
  obtain r s where s: "pcbs (pcbq k) a = Some r" "suspend_pcb (Some (lit nm)) k = Inr (0, k\<lparr>pcbq := s\<rparr>)"
    "wf (k\<lparr>pcbq := s\<rparr>) (moving A T ys D (S @ [a]))"
    "same_pcbs (with_changed a (r\<lparr>dispatch_state := DISPATCH_SUSPENDED\<rparr>) (pcbq k)) s"
    by (rule suspend_moves[OF wf a nm others]) blast+
  let ?k = "k\<lparr>pcbq := s\<rparr>"
  have names: "name_of s = name_of (pcbq k)" using same_pcbs_name[OF s(4)] with_changed_same(1)[OF s(1)] by simp
  have "active_user s b n" if "active_user (pcbq k) b n" "b \<noteq> a" for b n
    by (rule active_user_same[OF s(4)]) (use that in \<open>simp add: active_user_def with_changed_def\<close>)
  then have l: "list_all2 (active_user (pcbq ?k)) ys nms"
    by (intro list.rel_mono_strong[OF ys]) (use dist in auto)
  have "queued (moving A T [] D (S @ [a])) b \<longleftrightarrow> queued (moving A T [] D S) b \<or> b = a" for b
    by (auto simp: queued_4)
  moreover have "name_of (pcbq k) a = nm" using a by (auto simp: active_user_def name_of_def)
  ultimately have oth: "\<forall>b. queued (moving A T [] D (S @ [a])) b \<longrightarrow> name_of (pcbq ?k) b \<notin> set nms"
    using Cons.prems(3,4) by (auto simp: names)
  have "distinct nms" "\<forall>nm \<in> set nms. nm \<noteq> [] \<and> NUL \<notin> set nm" using Cons.prems(3,5) by auto
  then obtain t where t: "suspend_all nms ?k = Inr (?k\<lparr>pcbq := t\<rparr>)" "wf (?k\<lparr>pcbq := t\<rparr>) (moving A T [] D ((S @ [a]) @ ys))"
    "same_pcbs (parked (set ys) (pcbq ?k)) t"
    using Cons.IH[OF s(3) l _ oth] by blast
  have "same_pcbs (parked (set xs) (pcbq k)) t"
    using same_pcbs_trans[OF same_pcbs_parked[OF s(4), of "set ys"], of t] t(3) parked_Cons[OF s(1), of "set ys"] dist
    by (simp add: xs)
  then show ?case using s(2) t(1,2) by (intro exI[of _ t]) (simp add: xs)
qed

section \<open>Suspending what was loaded\<close>

abbreviation r3_entries :: "(nat \<Rightarrow> addr) \<Rightarrow> (string \<times> addr) list" where
  "r3_entries entry \<equiv> map (\<lambda>(nm, i). (nm, entry i)) r3_procs"

abbreviation r3_slots :: "kernel \<Rightarrow> addr list" where
  "r3_slots k \<equiv> slots (heap_addr (kvm k)) 5"

lemma loadR3_new:
  assumes "wf k A" and "\<forall>nm \<in> set (map fst r3_procs). \<not> taken k A nm" and "room 5380 (kvm k)"
  obtains k1 where "loadR3 entry k = Inr k1" "loaded k A (r3_entries entry) k1" "console k1 = console k"
    "list_all2 (active_user (pcbq k1)) (r3_slots k) (map fst r3_procs)"
proof -
  obtain k1 where k1: "loadR3 entry k = Inr k1" "loaded k A (r3_entries entry) k1" "console k1 = console k"
    using load_all_ok[OF assms(1) r3_procs_names(1,2), of entry, unfolded unused_none_taken[OF assms(2)] r3_procs_names(4)] assms(3)
    by (auto simp: loadR3_all)
  have "list_all2 (\<lambda>a (nm, f). starts_at k1 a nm f) (r3_slots k) (r3_entries entry)"
    using k1(2) by (simp add: loaded_def Let_def r3_procs_names)
  then have "list_all2 (active_user (pcbq k1)) (r3_slots k) (map fst (r3_entries entry))"
    unfolding list_all2_map2 by (rule list_all2_mono) (auto simp: starts_at_def active_user_def)
  moreover have "map fst (r3_entries entry) = map fst r3_procs" by (simp add: r3_procs_def)
  ultimately show ?thesis using that[OF k1] by (simp only:)
qed

lemma loadR3_suspended_all:
  "loadR3_suspended entry k = bindE (loadR3 entry k) (suspend_all (map fst r3_procs))"
  by (simp add: loadR3_suspended_def r3_procs_def foldE_fun bindE_assoc case_prod_unfold)

lemma loaded_others:
  assumes wf: "wf k A" and room: "room 5380 (kvm k)" and l: "loaded k A (r3_entries entry) k1" and b: "queued A b"
  shows "map_option unlinked (pcbs (pcbq k1) b) = map_option unlinked (pcbs (pcbq k) b)"
proof -
  have "b \<notin> set (r3_slots k)" using queued_not_slot[OF wf _ b, of 5] room by simp
  then show ?thesis using l by (simp add: loaded_def Let_def r3_procs_names)
qed

lemma with_ready_moving:
  "with_ready k A xs = moving A (takeWhile (\<lambda>b. prio_of (pcbq k) b \<le> 1) (A ReadyQ)) xs
     (dropWhile (\<lambda>b. prio_of (pcbq k) b \<le> 1) (A ReadyQ)) (A SuspReadyQ)"
  by (auto simp: with_ready_def moving_def fun_eq_iff)

lemma moving_done:
  "moving A (takeWhile P (A ReadyQ)) [] (dropWhile P (A ReadyQ)) S = A(SuspReadyQ := S)"
  by (auto simp: moving_def fun_eq_iff)

lemma loadR3_suspended_new:
  assumes wf: "wf k A" and new: "\<forall>nm \<in> set (map fst r3_procs). \<not> taken k A nm" and room: "room 5380 (kvm k)"
  obtains k1 s where "loadR3 entry k = Inr k1" "loaded k A (r3_entries entry) k1" "console k1 = console k"
    "list_all2 (active_user (pcbq k1)) (r3_slots k) (map fst r3_procs)"
    "loadR3_suspended entry k = Inr (k1\<lparr>pcbq := s\<rparr>)"
    "wf (k1\<lparr>pcbq := s\<rparr>) (A(SuspReadyQ := A SuspReadyQ @ r3_slots k))"
    "same_pcbs (parked (set (r3_slots k)) (pcbq k1)) s"
proof -
  obtain k1 where k1: "loadR3 entry k = Inr k1" "loaded k A (r3_entries entry) k1" "console k1 = console k"
    "list_all2 (active_user (pcbq k1)) (r3_slots k) (map fst r3_procs)"
    by (rule loadR3_new[OF assms])
  let ?P = "\<lambda>b. prio_of (pcbq k) b \<le> 1"
  let ?T = "takeWhile ?P (A ReadyQ)" and ?D = "dropWhile ?P (A ReadyQ)"
  have wf1: "wf k1 (moving A ?T (r3_slots k) ?D (A SuspReadyQ))"
    using k1(2) by (simp add: loaded_def Let_def r3_procs_names with_ready_moving)
  have "moving A ?T [] ?D (A SuspReadyQ) = A" by (simp add: moving_done)
  moreover have "\<forall>b. queued A b \<longrightarrow> name_of (pcbq k1) b \<notin> set (map fst r3_procs)"
    using new unlinked_name[OF loaded_others[OF wf room k1(2)]] unfolding taken_def by metis
  ultimately have q: "\<forall>b. queued (moving A ?T [] ?D (A SuspReadyQ)) b \<longrightarrow> name_of (pcbq k1) b \<notin> set (map fst r3_procs)"
    by (simp only:)
  have "\<forall>nm \<in> set (map fst r3_procs). nm \<noteq> [] \<and> NUL \<notin> set nm" using r3_procs_names(3) by blast
  then show ?thesis
    using suspend_all_ok[OF wf1 k1(4) r3_procs_names(1) q] that[OF k1] k1(1)
    unfolding moving_done loadR3_suspended_all by auto
qed

section \<open>Resuming them\<close>

lemma fold_ins_ready_equal:
  "\<forall>x \<in> set xs. pr x = v \<Longrightarrow>
   fold (ins_ready pr) xs ys = takeWhile (\<lambda>b. pr b \<le> v) ys @ xs @ dropWhile (\<lambda>b. pr b \<le> v) ys"
proof (induction xs arbitrary: ys)
  case (Cons x xs)
  let ?P = "\<lambda>b. pr b \<le> v"
  let ?T = "takeWhile ?P ys" and ?D = "dropWhile ?P ys"
  have "takeWhile ?P ?D = []" "dropWhile ?P ?D = ?D" by (induction ys) simp_all
  moreover have "\<forall>b \<in> set (?T @ [x]). ?P b" using Cons.prems by (auto dest: set_takeWhileD)
  ultimately have "takeWhile ?P ((?T @ [x]) @ ?D) = ?T @ [x]" "dropWhile ?P ((?T @ [x]) @ ?D) = ?D"
    by (simp_all only: takeWhile_append2 dropWhile_append2 append_Nil2)
  moreover have "ins_ready pr x ys = (?T @ [x]) @ ?D" using Cons.prems by (simp add: ins_ready_def)
  ultimately show ?case using Cons.IH[of "(?T @ [x]) @ ?D"] Cons.prems by simp
qed simp

text \<open>What is suspended and activated again is as before.\<close>

lemma activated_parked:
  assumes "list_all2 (active_user s) xs nms"
  shows "activated (set xs) (parked (set xs) s) = s"
proof -
  have "map_option (\<lambda>p. p\<lparr>dispatch_state := DISPATCH_ACTIVE\<rparr>)
      (map_option (\<lambda>p. p\<lparr>dispatch_state := DISPATCH_SUSPENDED\<rparr>) (pcbs s a)) = pcbs s a" if a: "a \<in> set xs" for a
  proof -
    obtain j where "j < length xs" "a = xs ! j" using a by (auto simp: in_set_conv_nth)
    then obtain r where "pcbs s a = Some r" "dispatch_state r = DISPATCH_ACTIVE"
      using assms by (auto simp: list_all2_conv_all_nth active_user_def)
    then show ?thesis by (cases r) simp
  qed
  then have "(\<lambda>a. if a \<in> set xs then map_option (\<lambda>p. p\<lparr>dispatch_state := DISPATCH_ACTIVE\<rparr>) (pcbs (parked (set xs) s) a)
      else pcbs (parked (set xs) s) a) = pcbs s"
    by (auto simp: parked_def fun_eq_iff simp del: option.map_comp)
  then have "activated (set xs) (parked (set xs) s) = (parked (set xs) s)\<lparr>pcbs := pcbs s\<rparr>" by (simp add: activated_def)
  also have "\<dots> = s" by (simp add: parked_def)
  finally show ?thesis .
qed

lemma loaded_same:
  assumes l: "loaded k A ps k1" and s: "same_pcbs (pcbq k1) s"
    and wf: "wf (k1\<lparr>pcbq := s\<rparr>) (with_ready k A (slots (heap_addr (kvm k)) (length ps)))"
  shows "loaded k A ps (emit str (k1\<lparr>pcbq := s\<rparr>))"
proof -
  have st: "starts_at (k1\<lparr>pcbq := s\<rparr>) a nm f" if st: "starts_at k1 a nm f" for a nm f
  proof -
    obtain r where r: "pcbs (pcbq k1) a = Some r" using st by (auto simp: starts_at_def)
    obtain r' where "pcbs s a = Some r'" "unlinked r' = unlinked r" by (rule same_pcbs_Some[OF s r])
    then show ?thesis using st r unlinked_fields[of r' r] by (auto simp: starts_at_def)
  qed
  have "list_all2 (\<lambda>a (nm, f). starts_at k1 a nm f) (slots (heap_addr (kvm k)) (length ps)) ps"
    using l by (simp add: loaded_def Let_def)
  then have "list_all2 (\<lambda>a (nm, f). starts_at (k1\<lparr>pcbq := s\<rparr>) a nm f) (slots (heap_addr (kvm k)) (length ps)) ps"
    by (rule list_all2_mono) (auto simp: st)
  then show ?thesis using l wf s by (simp add: loaded_def Let_def same_pcbs_def starts_at_def)
qed

lemma loaded_prio:
  assumes wf: "wf k A" and room: "room 5380 (kvm k)" and l: "loaded k A (r3_entries entry) k1"
  shows "b \<in> set (r3_slots k) \<Longrightarrow> prio_of (pcbq k1) b = 1" and "queued A b \<Longrightarrow> prio_of (pcbq k1) b = prio_of (pcbq k) b"
proof -
  have "list_all2 (\<lambda>a (nm, f). starts_at k1 a nm f) (r3_slots k) (r3_entries entry)"
    using l by (simp add: loaded_def Let_def r3_procs_names)
  moreover assume "b \<in> set (r3_slots k)"
  ultimately show "prio_of (pcbq k1) b = 1"
    by (auto simp: list_all2_conv_all_nth in_set_conv_nth starts_at_def prio_of_def split: prod.splits)
       (metis option.simps(5) surj_pair)
next
  show "queued A b \<Longrightarrow> prio_of (pcbq k1) b = prio_of (pcbq k) b"
    by (rule unlinked_prio[OF loaded_others[OF wf room l]])
qed

section \<open>The representation is unique\<close>

lemma rep_unique:
  assumes s: "rep s A" and t: "rep t A" and same: "same_pcbs s t"
  shows "t = s"
proof -
  have "pcbs t a = pcbs s a" for a
  proof (cases "pcbs s a")
    case None
    then show ?thesis using same unfolding same_pcbs_def by (metis map_option_is_None)
  next
    case (Some p)
    obtain p' where p': "pcbs t a = Some p'" "unlinked p' = unlinked p" by (rule same_pcbs_Some[OF same Some])
    have "pnext p' = pnext p \<and> pprev p' = pprev p"
    proof (cases "queued A a")
      case True
      then obtain q xs ys where q: "A q = xs @ a # ys" by (auto simp: queued_def in_set_conv_decomp)
      obtain p1 where "pcbs s a = Some p1" "pprev p1 = last_or NULL xs" "pnext p1 = first_or NULL ys"
        using rep_around[OF s q] by metis
      moreover obtain p2 where "pcbs t a = Some p2" "pprev p2 = last_or NULL xs" "pnext p2 = first_or NULL ys"
        using rep_around[OF t q] by metis
      ultimately show ?thesis using Some p'(1) by simp
    next
      case False
      then show ?thesis using rep_detached[OF s Some] rep_detached[OF t p'(1)] by simp
    qed
    then show ?thesis using p' Some by (cases p; cases p') (simp add: unlinked_def)
  qed
  moreover have "queues t q = queues s q" for q
    using repD(1,2)[OF s, of q] repD(1,2)[OF t, of q] by (cases "queues s q"; cases "queues t q") simp
  ultimately show ?thesis by (cases s; cases t) (simp add: fun_eq_iff)
qed

section \<open>Loading suspended, then resuming\<close>

lemma parked_fields: "name_of (parked X s) = name_of s" "prio_of (parked X s) = prio_of s"
  by (auto simp: parked_def name_of_def prio_of_def fun_eq_iff split: option.splits)

lemma active_user_names: "list_all2 (active_user s) xs nms \<Longrightarrow> map (name_of s) xs = nms"
  by (induction rule: list_all2_induct) (auto simp: active_user_def name_of_def)

lemma loaded_distinct:
  assumes wf: "wf k A" and room: "room 5380 (kvm k)" and l: "loaded k A (r3_entries entry) k1"
    and act: "list_all2 (active_user (pcbq k1)) (r3_slots k) (map fst r3_procs)"
    and new: "\<forall>nm \<in> set (map fst r3_procs). \<not> taken k A nm"
    and d: "names_distinct k A" "all_named k A"
  shows "inj_on (name_of (pcbq k1)) ({a. queued A a} \<union> set (r3_slots k))"
    and "\<forall>a. queued A a \<or> a \<in> set (r3_slots k) \<longrightarrow> name_of (pcbq k1) a \<noteq> []"
proof -
  have m: "map (name_of (pcbq k1)) (r3_slots k) = map fst r3_procs" by (rule active_user_names[OF act])
  then have ms: "name_of (pcbq k1) ` set (r3_slots k) = set (map fst r3_procs)" by (metis list.set_map)
  have old: "name_of (pcbq k1) b = name_of (pcbq k) b" if "queued A b" for b
    by (rule unlinked_name[OF loaded_others[OF wf room l that]])
  have "inj_on (name_of (pcbq k1)) {a. queued A a}"
    using d(1) old unfolding names_distinct_def by (auto simp: inj_on_def)
  moreover have "inj_on (name_of (pcbq k1)) (set (r3_slots k))"
    using r3_procs_names(1) m by (metis distinct_map)
  moreover have "name_of (pcbq k1) ` {a. queued A a} \<inter> name_of (pcbq k1) ` set (r3_slots k) = {}"
    unfolding ms using new old by (auto simp: taken_def)
  ultimately show "inj_on (name_of (pcbq k1)) ({a. queued A a} \<union> set (r3_slots k))" by (simp add: inj_on_Un) blast
  show "\<forall>a. queued A a \<or> a \<in> set (r3_slots k) \<longrightarrow> name_of (pcbq k1) a \<noteq> []"
    using ms r3_procs_names(3) old d(2) unfolding all_named_def by (metis imageI)
qed

lemma resumed_loaded:
  assumes wf: "wf k A" and room: "room 5380 (kvm k)" and l: "loaded k A (r3_entries entry) k1"
    and pr: "prio_of (pcbq k2) = prio_of (pcbq k1)" and empty: "A SuspReadyQ = []"
  shows "resumed k2 (A(SuspReadyQ := r3_slots k)) = with_ready k A (r3_slots k)"
proof -
  let ?P = "\<lambda>b. prio_of (pcbq k) b \<le> 1" and ?Q = "\<lambda>b. prio_of (pcbq k1) b \<le> 1"
  have "prio_of (pcbq k1) b = prio_of (pcbq k) b" if "b \<in> set (A ReadyQ)" for b
    by (rule loaded_prio(2)[OF wf room l]) (use that in \<open>auto simp: queued_def\<close>)
  then have "takeWhile ?Q (A ReadyQ) = takeWhile ?P (A ReadyQ)" "dropWhile ?Q (A ReadyQ) = dropWhile ?P (A ReadyQ)"
    by (auto intro: takeWhile_cong dropWhile_cong)
  then have "fold (ins_ready (prio_of (pcbq k1))) (r3_slots k) (A ReadyQ) =
      takeWhile ?P (A ReadyQ) @ r3_slots k @ dropWhile ?P (A ReadyQ)"
    using fold_ins_ready_equal[of "r3_slots k" "prio_of (pcbq k1)" 1] loaded_prio(1)[OF wf room l] by simp
  then show ?thesis using empty by (auto simp: resumed_def with_ready_def pr fun_eq_iff)
qed

lemma load_suspended_runs:
  assumes wf: "wf k A" and d: "names_distinct k A" "all_named k A" and room: "room 5380 (kvm k)"
    and new: "\<forall>nm \<in> set (map fst r3_procs). \<not> taken k A nm" and empty: "A SuspReadyQ = []"
  obtains k1 k2 where "loadR3 entry k = Inr k2" "loaded k A (r3_entries entry) k2" "loadR3_suspended entry k = Inr k1"
    "wf k1 (A(SuspReadyQ := r3_slots k))" "console k1 = console k"
    "resume_command (Some (lit ''all'')) k1 = Inr (emit resuming_text k2)"
proof -
  obtain k2 s where k2: "loadR3 entry k = Inr k2" "loaded k A (r3_entries entry) k2" "console k2 = console k"
    "list_all2 (active_user (pcbq k2)) (r3_slots k) (map fst r3_procs)"
    and s: "loadR3_suspended entry k = Inr (k2\<lparr>pcbq := s\<rparr>)"
    "wf (k2\<lparr>pcbq := s\<rparr>) (A(SuspReadyQ := A SuspReadyQ @ r3_slots k))"
    "same_pcbs (parked (set (r3_slots k)) (pcbq k2)) s"
    by (rule loadR3_suspended_new[OF wf new room])
  let ?k1 = "k2\<lparr>pcbq := s\<rparr>" and ?B = "A(SuspReadyQ := r3_slots k)"
  have wf1: "wf ?k1 ?B" using s(2) by (simp add: empty)
  have f: "name_of s = name_of (pcbq k2)" "prio_of s = prio_of (pcbq k2)"
    using same_pcbs_name[OF s(3)] same_pcbs_prio[OF s(3)] parked_fields by simp_all
  have q: "queued ?B a \<longleftrightarrow> queued A a \<or> a \<in> set (r3_slots k)" for a by (auto simp: queued_4 empty)
  note ld = loaded_distinct[OF wf room k2(2,4) new d]
  have "{a. queued ?B a} = {a. queued A a} \<union> set (r3_slots k)" using q by blast
  then have "names_distinct ?k1 ?B" using ld(1) f(1) by (simp only: names_distinct_def) simp
  moreover have "all_named ?k1 ?B" using ld(2) by (simp only: all_named_def q) (simp add: f)
  moreover have "?B SuspReadyQ \<noteq> []" by (simp add: numeral_eq_Suc)
  ultimately obtain k' where k': "resume_command (Some (lit ''all'')) ?k1 = Inr k'" "all_resumed (emit resuming_text ?k1) ?B k'"
    using resume_all_runs[OF wf1] by (simp only: if_False) blast
  obtain t where t: "k' = (emit resuming_text ?k1)\<lparr>pcbq := t\<rparr>" "wf k' (resumed (emit resuming_text ?k1) ?B)"
    "same_pcbs (activated (set (?B SuspReadyQ)) s) t"
    using k'(2) by (auto simp: all_resumed_def)
  have r: "resumed (emit resuming_text ?k1) ?B = with_ready k A (r3_slots k)"
    by (rule resumed_loaded[OF wf room k2(2) _ empty]) (simp add: f)
  have "same_pcbs (pcbq k2) t"
    using same_pcbs_trans[OF same_pcbs_activated[OF s(3), of "set (r3_slots k)"], of t] t(3) activated_parked[OF k2(4)] by simp
  moreover have "rep t (with_ready k A (r3_slots k))" using wfD(1)[OF t(2)] by (simp add: t(1) r)
  moreover have "rep (pcbq k2) (with_ready k A (r3_slots k))"
    using wfD(1) k2(2) by (auto simp: loaded_def Let_def r3_procs_names)
  ultimately have "t = pcbq k2" by (intro rep_unique)
  then have "k' = emit resuming_text k2" by (simp add: t(1) emit_def)
  moreover have "console ?k1 = console k" using k2(3) by (simp add: console_def)
  ultimately show ?thesis using that[OF k2(1,2) s(1) wf1] k'(1) by simp
qed

section \<open>Properties\<close>

text \<open>Property C29. \<open>load suspended\<close> puts the five new processes into the suspended-ready queue, in
  order, and \<open>resume all\<close> then leaves exactly the state that \<open>load\<close> would have left at once (all
  links of the queues included), but for the line it prints: for a kernel with distinct names,
  no suspended-ready process and room in the heap.\<close>

theorem load_suspended_resume_all:
  assumes "wf k A" and "names_distinct k A" and "all_named k A" and "room 5380 (kvm k)"
    and "\<forall>nm \<in> set (map fst r3_procs). \<not> taken k A nm" and "A SuspReadyQ = []"
  shows "\<exists>k1 k2. load_command entry (Some (lit ''suspended'')) k = Inr k1 \<and>
    wf k1 (A(SuspReadyQ := slots (heap_addr (kvm k)) 5)) \<and> console k1 = console k \<and>
    load_command entry None k = Inr k2 \<and> resume_command (Some (lit ''all'')) k1 = Inr (emit resuming_text k2)"
proof -
  have "load_command entry (Some (lit ''suspended'')) k = loadR3_suspended entry k"
    by (simp add: load_command_def args_text)
  moreover have "load_command entry None k = loadR3 entry k" by (simp add: load_command_def no_args_def)
  ultimately show ?thesis using load_suspended_runs[OF assms, of entry] by metis
qed

end
