(* ===== verification/Strtok.thy ===== *)
theory Strtok
  imports CStrings
begin

text \<open>
  \<open>strtok\<close> of \<^verbatim>\<open>lib/string.c\<close>. The string is a buffer and the pointers into it, \<open>s1\<close> and the
  static variable \<open>tok_tmp\<close>, are indices; \<open>None\<close> is NULL. The function works on the buffer that
  the static pointer points into, so the state of the calls is the buffer with \<open>tok_tmp\<close>. The
  delimiters \<open>s2\<close> are not in that buffer (both are \<open>restrict\<close>).

  The specification is \<open>words_of\<close>, the maximal pieces without delimiter: the calls return them
  one after the other, each NUL-terminated in place and left alone by the later calls.
\<close>

section \<open>The code\<close>

text \<open>The first loop, with \<open>p\<close> the rest of the delimiters.\<close>

function skip_leading :: "cbuf \<Rightarrow> cbuf \<Rightarrow> nat \<Rightarrow> cbuf \<Rightarrow> nat c" where
  "skip_leading buf s2 s1 p =
     bindE (peek p 0) (\<lambda>d. if d = NUL then Inr s1 else
     bindE (peek buf s1) (\<lambda>ch. if ch = NUL then Inr s1
       else if ch = d then skip_leading buf s2 (s1 + 1) s2
       else skip_leading buf s2 s1 (tl p)))"
  by pat_completeness auto

termination
  by (relation "measures [\<lambda>(buf, s2, s1, p). length buf - s1, \<lambda>(buf, s2, s1, p). length p]")
     (auto simp: peek_def split: if_splits)

declare skip_leading.simps [simp del]

text \<open>The inner loop over the delimiters.\<close>

fun delimits :: "char \<Rightarrow> cbuf \<Rightarrow> bool c" where
  "delimits ch [] = Inl OutOfBounds"
| "delimits ch (d # p) = (if d = NUL then Inr False else if ch = d then Inr True else delimits ch p)"

text \<open>The second loop: the index of the delimiter behind the token, if there is one.\<close>

function find_end :: "cbuf \<Rightarrow> cbuf \<Rightarrow> nat \<Rightarrow> nat option c" where
  "find_end buf s2 tok_tmp =
     bindE (peek buf tok_tmp) (\<lambda>ch. if ch = NUL then Inr None else
     bindE (delimits ch s2) (\<lambda>found. if found then Inr (Some tok_tmp) else find_end buf s2 (tok_tmp + 1)))"
  by pat_completeness auto

termination
  by (relation "measure (\<lambda>(buf, s2, tok_tmp). length buf - tok_tmp)") (auto simp: peek_def split: if_splits)

declare find_end.simps [simp del]

definition strtok :: "nat option \<Rightarrow> cbuf \<Rightarrow> cbuf \<times> nat option \<Rightarrow> (nat option \<times> cbuf \<times> nat option) c" where
  "strtok s1 s2 st =
     (let (buf, tok_tmp) = st
      in case (case s1 of None \<Rightarrow> tok_tmp | Some i \<Rightarrow> Some i) of
           None \<Rightarrow> Inr (None, buf, tok_tmp)
         | Some i \<Rightarrow>
             bindE (skip_leading buf s2 i s2) (\<lambda>i.
             bindE (peek buf i) (\<lambda>ch.
             if ch = NUL then Inr (None, buf, None)
             else bindE (find_end buf s2 i) (\<lambda>e.
               case e of
                 None \<Rightarrow> Inr (Some i, buf, None)
               | Some j \<Rightarrow> bindE (put buf j NUL) (\<lambda>buf. Inr (Some i, buf, Some (j + 1)))))))"

section \<open>The words of a string\<close>

function words_of :: "char set \<Rightarrow> string \<Rightarrow> string list" where
  "words_of D [] = []"
| "words_of D (ch # s) =
     (if ch \<in> D then words_of D s
      else (ch # takeWhile (\<lambda>c. c \<notin> D) s) # words_of D (dropWhile (\<lambda>c. c \<notin> D) s))"
  by pat_completeness auto

termination
  by (relation "measure (\<lambda>(D, s). length s)") (auto simp: length_dropWhile_le le_imp_less_Suc)

section \<open>The loops\<close>

text \<open>\<open>at buf i\<close>: the string at index \<open>i\<close>.\<close>

definition str_at :: "cbuf \<Rightarrow> nat \<Rightarrow> string" where
  "str_at buf i = text_of (drop i buf)"

lemma str_at_cases:
  assumes "terminated (drop i buf)"
  shows "i < length buf" "str_at buf i = (if buf ! i = NUL then [] else buf ! i # str_at buf (i + 1))"
    "buf ! i \<noteq> NUL \<Longrightarrow> terminated (drop (i + 1) buf)"
proof -
  show i: "i < length buf" using assms by (cases "i < length buf") simp_all
  have d: "drop i buf = buf ! i # drop (i + 1) buf" using i by (simp add: Cons_nth_drop_Suc)
  show "str_at buf i = (if buf ! i = NUL then [] else buf ! i # str_at buf (i + 1))"
    unfolding str_at_def by (subst d) simp
  show "buf ! i \<noteq> NUL \<Longrightarrow> terminated (drop (i + 1) buf)" using assms unfolding d by simp
qed

lemma delimits_spec: "terminated p \<Longrightarrow> delimits ch p = Inr (ch \<in> set (text_of p))"
  by (induction p) auto

lemma skip_one:
  assumes "terminated p" and "i < length buf" and "buf ! i \<noteq> NUL"
  shows "skip_leading buf s2 i p =
    (if buf ! i \<in> set (text_of p) then skip_leading buf s2 (i + 1) s2 else Inr i)"
  using assms(1)
proof (induction p)
  case (Cons d p)
  then show ?case using assms(2,3)
    by (subst skip_leading.simps) (auto simp: peek_def)
qed simp

lemma skip_leading_spec:
  assumes "terminated s2" and "terminated (drop i buf)"
  defines "D \<equiv> set (text_of s2)"
  shows "skip_leading buf s2 i s2 = Inr (i + length (takeWhile (\<lambda>c. c \<in> D) (str_at buf i)))"
  using assms(2)
proof (induction "str_at buf i" arbitrary: i)
  case Nil
  then have z: "buf ! i = NUL" "i < length buf" using str_at_cases[OF Nil(2)] by (auto split: if_splits)
  obtain d p where s2: "s2 = d # p" using assms(1) by (cases s2) auto
  have "skip_leading buf s2 i s2 = Inr i"
    using z by (subst skip_leading.simps) (simp add: peek_def s2)
  then show ?case using Nil(1)[symmetric] by simp
next
  case (Cons ch s)
  note c = str_at_cases[OF Cons(3)]
  have ch: "buf ! i = ch" "buf ! i \<noteq> NUL" "str_at buf (i + 1) = s" using c(2) Cons(2) by (auto split: if_splits)
  have "skip_leading buf s2 (i + 1) s2 = Inr (i + 1 + length (takeWhile (\<lambda>c. c \<in> D) (str_at buf (i + 1))))"
    by (rule Cons(1)) (use ch c(3) in simp_all)
  then show ?case unfolding skip_one[OF assms(1) c(1) ch(2)]
    using Cons(2)[symmetric] ch by (simp add: D_def)
qed

lemma find_end_spec:
  assumes "terminated s2" and "terminated (drop i buf)"
  defines "D \<equiv> set (text_of s2)"
  shows "find_end buf s2 i =
    Inr (if dropWhile (\<lambda>c. c \<notin> D) (str_at buf i) = [] then None
         else Some (i + length (takeWhile (\<lambda>c. c \<notin> D) (str_at buf i))))"
  using assms(2)
proof (induction "str_at buf i" arbitrary: i)
  case Nil
  then have z: "buf ! i = NUL" "i < length buf" using str_at_cases[OF Nil(2)] by (auto split: if_splits)
  then show ?case using Nil(1)[symmetric] by (subst find_end.simps) (simp add: peek_def)
next
  case (Cons ch s)
  note c = str_at_cases[OF Cons(3)]
  have ch: "buf ! i = ch" "buf ! i \<noteq> NUL" "str_at buf (i + 1) = s" using c(2) Cons(2) by (auto split: if_splits)
  have IH: "find_end buf s2 (i + 1) = Inr (if dropWhile (\<lambda>c. c \<notin> D) s = [] then None
      else Some (i + 1 + length (takeWhile (\<lambda>c. c \<notin> D) s)))"
    using Cons(1)[of "i + 1"] ch c(3) by simp
  have "find_end buf s2 i = (if ch \<in> D then Inr (Some i) else find_end buf s2 (i + 1))"
    using ch(1,2) c(1) by (subst find_end.simps) (simp add: peek_def delimits_spec[OF assms(1)] D_def)
  then show ?case using IH Cons(2)[symmetric] by simp
qed

section \<open>One call\<close>

lemma str_at_add:
  assumes "terminated (drop i buf)" and "n \<le> length (str_at buf i)"
  shows "terminated (drop (i + n) buf)" "str_at buf (i + n) = drop n (str_at buf i)"
proof -
  obtain r where r: "drop i buf = str_at buf i @ NUL # r" using terminated_split[OF assms(1)] by (auto simp: str_at_def)
  have "drop (i + n) buf = drop n (drop i buf)" by (simp add: add.commute)
  then have d: "drop (i + n) buf = drop n (str_at buf i) @ NUL # r" using assms(2) by (subst (asm) r) simp
  show "terminated (drop (i + n) buf)" unfolding d by simp
  have "NUL \<notin> set (drop n (str_at buf i))" unfolding str_at_def by (meson NUL_notin_text in_set_dropD)
  then show "str_at buf (i + n) = drop n (str_at buf i)" unfolding str_at_def[of buf "i + n"] d by (rule text_of_append_NUL)
qed

lemma words_of_rest:
  "words_of D s = (case dropWhile (\<lambda>c. c \<in> D) s of [] \<Rightarrow> []
     | ch # t \<Rightarrow> takeWhile (\<lambda>c. c \<notin> D) (ch # t) # words_of D (dropWhile (\<lambda>c. c \<notin> D) (ch # t)))"
proof (induction s)
  case (Cons ch s)
  then show ?case by (cases "ch \<in> D") simp_all
qed simp

text \<open>\<open>mark buf e\<close>: the buffer with the token ended at \<open>e\<close>.\<close>

lemma str_at_mark:
  assumes "terminated (drop j buf)" and "n < length (str_at buf j)"
  shows "str_at (buf[j + n := NUL]) j = take n (str_at buf j)"
proof -
  obtain r where r: "drop j buf = str_at buf j @ NUL # r" using terminated_split[OF assms(1)] by (auto simp: str_at_def)
  have "drop j (buf[j + n := NUL]) = (drop j buf)[n := NUL]" by (simp add: drop_update_swap)
  also have "\<dots> = take n (str_at buf j) @ NUL # drop (n + 1) (str_at buf j) @ NUL # r"
    using assms(2) by (subst r) (simp add: list_update_append upd_conv_take_nth_drop)
  finally have "drop j (buf[j + n := NUL]) = take n (str_at buf j) @ NUL # drop (n + 1) (str_at buf j) @ NUL # r" .
  moreover have "NUL \<notin> set (take n (str_at buf j))" unfolding str_at_def by (meson NUL_notin_text in_set_takeD)
  ultimately show ?thesis unfolding str_at_def[of "buf[j + n := NUL]"] by (simp add: text_of_append_NUL)
qed

lemma drop_behind_mark: "drop (e + 1) (buf[e := NUL]) = drop (e + 1) buf"
  by simp

text \<open>A token at \<open>j\<close> in \<open>buf'\<close>, and where the next call begins.\<close>

definition token_cut :: "char set \<Rightarrow> cbuf \<Rightarrow> nat \<Rightarrow> string \<Rightarrow> string list \<Rightarrow> cbuf \<Rightarrow> nat option \<Rightarrow> bool" where
  "token_cut D buf j w ws buf' tok \<longleftrightarrow>
     terminated (drop j buf') \<and> str_at buf' j = w \<and> length buf' = length buf \<and> take j buf' = take j buf \<and>
     (case tok of None \<Rightarrow> ws = []
      | Some n \<Rightarrow> terminated (drop n buf') \<and> words_of D (str_at buf' n) = ws \<and> j + length w < n)"

text \<open>Writing NUL over the delimiter behind a token cuts the token off.\<close>

lemma token_cut_mark:
  assumes t: "terminated (drop j buf)" and s: "str_at buf j = w @ d # r" and "d \<in> D"
  defines "e \<equiv> j + length w"
  shows "e < length buf" "token_cut D buf j w (words_of D r) (buf[e := NUL]) (Some (e + 1))"
proof -
  have lt: "length w < length (str_at buf j)" by (simp add: s)
  have e: "terminated (drop (e + 1) buf)" "str_at buf (e + 1) = r"
    using str_at_add[OF t, of "length w + 1"] s by (simp_all add: e_def add.assoc)
  have "length (str_at buf j) < length (drop j buf)" using length_text_of[OF t] by (simp add: str_at_def)
  then show b: "e < length buf" using lt by (simp add: e_def)
  have "str_at (buf[e := NUL]) j = w" using str_at_mark[OF t lt] s by (simp add: e_def)
  moreover have "drop j (buf[e := NUL]) ! length w = NUL" "length w < length (drop j (buf[e := NUL]))"
    using b by (simp_all add: e_def)
  then have "terminated (drop j (buf[e := NUL]))" unfolding terminated_def by (metis nth_mem)
  moreover have "terminated (drop (e + 1) (buf[e := NUL]))" "str_at (buf[e := NUL]) (e + 1) = r"
    using e unfolding str_at_def drop_behind_mark .
  ultimately show "token_cut D buf j w (words_of D r) (buf[e := NUL]) (Some (e + 1))"
    by (simp add: token_cut_def e_def)
qed

lemma strtok_call:
  assumes s2: "terminated s2" and t: "terminated (drop i buf)" and s1: "s1 = Some i \<or> s1 = None \<and> tok = Some i"
  defines "D \<equiv> set (text_of s2)"
  shows "words_of D (str_at buf i) = [] \<Longrightarrow> strtok s1 s2 (buf, tok) = Inr (None, buf, None)"
    and "words_of D (str_at buf i) = w # ws \<Longrightarrow>
      \<exists>j buf' tok'. strtok s1 s2 (buf, tok) = Inr (Some j, buf', tok') \<and> i \<le> j \<and> token_cut D buf j w ws buf' tok'"
proof -
  let ?s = "str_at buf i"
  define n where "n = length (takeWhile (\<lambda>c. c \<in> D) ?s)"
  define j where "j = i + n"
  have n: "n \<le> length ?s" unfolding n_def by (rule length_takeWhile_le)
  have j: "terminated (drop j buf)" "str_at buf j = dropWhile (\<lambda>c. c \<in> D) ?s"
    using str_at_add[OF t n] by (simp_all add: j_def n_def dropWhile_eq_drop)
  note c = str_at_cases[OF j(1)]
  have go: "strtok s1 s2 (buf, tok) = bindE (peek buf j) (\<lambda>ch. if ch = NUL then Inr (None, buf, None)
      else bindE (find_end buf s2 j) (\<lambda>e. case e of None \<Rightarrow> Inr (Some j, buf, None)
        | Some e \<Rightarrow> bindE (put buf e NUL) (\<lambda>buf. Inr (Some j, buf, Some (e + 1)))))"
  proof -
    have "skip_leading buf s2 i s2 = Inr j" using skip_leading_spec[OF s2 t] by (simp add: D_def n_def j_def)
    then show ?thesis using s1 by (auto simp: strtok_def)
  qed
  show "strtok s1 s2 (buf, tok) = Inr (None, buf, None)" if "words_of D ?s = []"
  proof -
    have "str_at buf j = []" using trans[OF words_of_rest[symmetric] that] unfolding j(2)
      by (cases "dropWhile (\<lambda>c. c \<in> D) ?s") (simp_all only: list.case list.distinct)
    then show ?thesis using c(1,2) by (auto simp: go peek_def split: if_splits)
  qed
  assume w: "words_of D ?s = w # ws"
  let ?t = "str_at buf j"
  have ne: "?t \<noteq> []" and wd: "w = takeWhile (\<lambda>c. c \<notin> D) ?t" "ws = words_of D (dropWhile (\<lambda>c. c \<notin> D) ?t)"
    using trans[OF words_of_rest[symmetric] w] unfolding j(2)
    by (cases "dropWhile (\<lambda>c. c \<in> D) ?s"; simp only: list.case list.inject list.distinct not_False_eq_True)+
  have ch: "buf ! j \<noteq> NUL" using ne c(2) by auto
  have fe: "find_end buf s2 j = Inr (if dropWhile (\<lambda>c. c \<notin> D) ?t = [] then None else Some (j + length w))"
    using find_end_spec[OF s2 j(1)] by (simp add: D_def wd(1))
  show "\<exists>j buf' tok'. strtok s1 s2 (buf, tok) = Inr (Some j, buf', tok') \<and> i \<le> j \<and> token_cut D buf j w ws buf' tok'"
  proof (cases "dropWhile (\<lambda>c. c \<notin> D) ?t")
    case Nil
    then have "w = ?t" using wd(1) by (metis append_Nil2 takeWhile_dropWhile_id)
    moreover have "ws = []" using wd(2) unfolding Nil by simp
    ultimately show ?thesis using go fe Nil ch c(1) j(1)
      by (intro exI[of _ j] exI[of _ buf] exI[of _ None]) (simp add: peek_def token_cut_def j_def)
  next
    case (Cons d r)
    let ?e = "j + length w" let ?buf = "buf[j + length w := NUL]"
    have tw: "?t = w @ d # r" using Cons wd(1) by (metis takeWhile_dropWhile_id)
    have d: "d \<in> D" using Cons by (metis dropWhile_eq_Cons_conv)
    note b = token_cut_mark(1)[OF j(1) tw d]
    have "token_cut D buf j w ws ?buf (Some (?e + 1))"
      using token_cut_mark(2)[OF j(1) tw d] wd(2) d unfolding Cons by simp
    moreover have "find_end buf s2 j = Inr (Some ?e)" unfolding fe Cons by simp
    ultimately show ?thesis using go ch c(1) b
      by (intro exI[of _ j] exI[of _ ?buf] exI[of _ "Some (?e + 1)"]) (simp add: peek_def put_def j_def)
  qed
qed

section \<open>All calls\<close>

text \<open>The loop every client of \<open>strtok\<close> has: the first call with the string, the others with
  NULL, until it returns NULL; at most \<open>n\<close> calls.\<close>

fun strtok_calls :: "nat \<Rightarrow> nat option \<Rightarrow> cbuf \<Rightarrow> cbuf \<times> nat option \<Rightarrow> (nat list \<times> cbuf \<times> nat option) c" where
  "strtok_calls 0 s1 s2 st = Inr ([], st)"
| "strtok_calls (Suc n) s1 s2 st =
     bindE (strtok s1 s2 st) (\<lambda>(t, st).
     case t of None \<Rightarrow> Inr ([], st)
     | Some p \<Rightarrow> bindE (strtok_calls n None s2 st) (\<lambda>(ps, st). Inr (p # ps, st)))"

lemma str_at_prefix:
  assumes "take n buf' = take n buf" and "terminated (drop j buf)" and "j + length (str_at buf j) < n"
  shows "str_at buf' j = str_at buf j"
proof -
  obtain r where r: "drop j buf = str_at buf j @ NUL # r" using terminated_split[OF assms(2)] by (auto simp: str_at_def)
  have "str_at b j = text_of (drop j (take n b))" if "NUL \<in> set (drop j (take n b))" for b :: cbuf
  proof -
    have "drop j b = drop j (take n b) @ drop (max j n) b"
      using assms(3) by (metis append_take_drop_id drop_append drop_drop drop_take le_add1 le_less_trans less_imp_le_nat max.absorb2 take_drop trans_le_add1 le_add_diff_inverse2)
    then show ?thesis using that unfolding str_at_def by (metis text_of_append)
  qed
  moreover have "NUL \<in> set (drop j (take n buf))"
  proof -
    have "drop j (take n buf) = take (n - j) (str_at buf j @ NUL # r)" by (simp add: drop_take flip: r)
    then show ?thesis using assms(3) by (simp add: take_Cons')
  qed
  ultimately show ?thesis using assms(1) by metis
qed

lemma strtok_calls_words:
  assumes s2: "terminated s2"
  defines "D \<equiv> set (text_of s2)"
  shows "terminated (drop i buf) \<Longrightarrow> s1 = Some i \<or> s1 = None \<and> tok = Some i \<Longrightarrow>
    length (words_of D (str_at buf i)) < n \<Longrightarrow>
    \<exists>ps buf'. strtok_calls n s1 s2 (buf, tok) = Inr (ps, buf', None) \<and>
      map (str_at buf') ps = words_of D (str_at buf i) \<and> length buf' = length buf \<and> take i buf' = take i buf"
proof (induction n arbitrary: i buf s1 tok)
  case (Suc n)
  note call = strtok_call[OF s2 Suc.prems(1,2), folded D_def]
  show ?case
  proof (cases "words_of D (str_at buf i)")
    case Nil
    then show ?thesis using call(1) by simp
  next
    case (Cons w ws)
    obtain j buf1 tok1 where c: "strtok s1 s2 (buf, tok) = Inr (Some j, buf1, tok1)" "i \<le> j" "token_cut D buf j w ws buf1 tok1"
      using call(2)[OF Cons] by blast
    then have t: "terminated (drop j buf1)" "str_at buf1 j = w" "length buf1 = length buf" "take j buf1 = take j buf"
      by (simp_all add: token_cut_def)
    have ti: "take i buf1 = take i buf" using t(4) c(2) by (metis min.absorb1 take_take)
    show ?thesis
    proof (cases tok1)
      case None
      then have "ws = []" using c(3) by (simp add: token_cut_def)
      moreover have "strtok None s2 (buf1, None) = Inr (None, buf1, None)" by (simp add: strtok_def)
      moreover have "0 < n" using Suc.prems(3) Cons by simp
      ultimately show ?thesis using c(1) None t ti Cons by (cases n) simp_all
    next
      case (Some m)
      then have m: "terminated (drop m buf1)" "words_of D (str_at buf1 m) = ws" "j + length w < m"
        using c(3) by (simp_all add: token_cut_def)
      obtain ps buf2 where r: "strtok_calls n None s2 (buf1, tok1) = Inr (ps, buf2, None)" "map (str_at buf2) ps = ws"
        "length buf2 = length buf1" "take m buf2 = take m buf1"
        using Suc.IH[OF m(1), of None tok1] m(2) Some Suc.prems(3) Cons by auto
      have "str_at buf2 j = w" using str_at_prefix[OF r(4) t(1)] t(2) m(3) by simp
      moreover have "take i buf2 = take i buf" using r(4) ti c(2) m(3) by (metis le_trans less_imp_le min.absorb1 take_take le_add1)
      ultimately show ?thesis using c(1) r t(3) Cons by simp
    qed
  qed
qed simp

section \<open>Properties\<close>

text \<open>Property C27. Splitting a string with \<open>strtok\<close>: called with the string and then with NULL
  until it returns NULL, it returns exactly the words between the delimiters, in order, and no
  empty ones; at the end every pointer it has returned is still that word as a C string. It
  never reads or writes outside the string, and it needs one call more than there are words.\<close>

theorem strtok_splits:
  assumes "terminated s2" and "terminated buf" and "length (words_of (set (text_of s2)) (text_of buf)) < n"
  shows "\<exists>ps buf'. strtok_calls n (Some 0) s2 (buf, tok) = Inr (ps, buf', None) \<and>
    map (str_at buf') ps = words_of (set (text_of s2)) (text_of buf) \<and> length buf' = length buf"
  using strtok_calls_words[OF assms(1), of 0 buf "Some 0" tok n] assms(2,3) by (auto simp: str_at_def)

end
