(* ===== verification/ShellWitnesses.thy ===== *)
theory ShellWitnesses
  imports Example
begin

text \<open>
  The properties of the command handler, of \<open>show\<close>, \<open>exit\<close> and of the alarms at concrete
  inputs, on the kernel of the theory \<open>Example\<close>: \<open>typed str ch\<close> is the system in which the user
  has typed \<open>str\<close> and then \<open>ch\<close>.
\<close>

definition typed :: "string \<Rightarrow> char \<Rightarrow> system" where
  "typed str ch = \<lparr>kern = (demo 1 1 1)\<lparr>kio := set_line COM1 [] (str @- ch ## sconst NUL) demo_io\<rparr>,
     alarms = [0xD001504 \<mapsto> alarm_object 0 0 0 ''tea''], alarm_counter = 7\<rparr>"

lemma typed_simps [simp]:
  "pcbq (kern (typed str ch)) = demo_pq 1 1 1" "kvm (kern (typed str ch)) = demo_vm 0xD001504"
  "alarm_counter (typed str ch) = 7" "alarms (typed str ch) = [0xD001504 \<mapsto> alarm_object 0 0 0 ''tea'']"
  "cmos (devices (kio (kern (typed str ch)))) = (\<lambda>_. 0)"
  by (simp_all add: typed_def set_line_def demo_io_def)

lemma typed_line:
  "online COM1 (kio (kern (typed str ch)))" "pending COM1 (kio (kern (typed str ch))) = str @- ch ## sconst NUL"
  by (simp_all add: typed_def serial_devno_def)

lemma wf_demo: "wf (demo 1 1 1) demo_lists"
  using wf_run_demo[of 1 1 1] by (simp add: wf_run_def)

lemma wf_typed: "wf (kern (typed str ch)) demo_lists"
  using wf_demo by (simp add: wf_def wf_pcb_def frames_ok_def live_def typed_def serial_devno_def)

section \<open>show\<close>

lemma demo_distinct: "names_distinct (demo 1 1 1) demo_lists"
proof -
  have "{a. queued demo_lists a} = {a2, a3, a4, a5}" by (auto simp: queued_demo)
  then show ?thesis by (simp add: names_distinct_def name_of_demo)
qed

theorem show_lists_all_witness:
  "show_command (\<lambda>_. NUL) None (demo 1 1 1) =
    Inr (emit (concat (map (listing (demo 1 1 1) demo_lists) [ReadyQ, BlockedQ, SuspReadyQ, SuspBlockedQ])) (demo 1 1 1))"
  by (rule show_lists_all[OF wf_demo demo_distinct]) simp

theorem showPCB_shows_witness:
  "showPCB (\<lambda>_. NUL) (Some (lit ''one'')) (demo 1 1 1) = Inr (emit (describe one) (demo 1 1 1))"
  using showPCB_shows[OF wf_demo, of "lit ''one''"] named_demo(1) by simp

section \<open>exit\<close>

theorem exit_never_confirms_witness:
  "exit_command (Some (lit '''')) (kern (typed [] (CHR ''y''))) = Inl OutOfBounds"
proof -
  have "printable (CHR ''y'')" by code_simp
  moreover have "\<exists>b. Some (lit '''') = Some (NUL # b)" by (simp add: lit_def)
  ultimately show ?thesis
    using exit_never_confirms[of "kern (typed [] (CHR ''y''))" 0 "CHR ''y''" "sconst NUL"] typed_line by simp
qed

section \<open>Alarms\<close>

theorem alarm_command_sets_witness:
  "\<exists>k'. alarm_command (\<lambda>_. NUL) 0x1234 (Some (lit (clock_text 7 CHR '':'' 5 CHR '':'' 9 @ '' '' @ ''tea''))) (typed [] CR) =
    Inr ((typed [] CR)\<lparr>alarms := (alarms (typed [] CR))(0xD001504 \<mapsto> alarm_object 7 5 9 ''tea'', 0xD001504 + 112 \<mapsto> alarm_object 7 5 9 ''tea''),
      alarm_counter := 8, kern := k'\<rparr>)"
proof -
  have n: "show_int 7 = ''7''" by code_simp
  have "room 1300 (kvm (kern (typed [] CR)))" by (simp add: room_def demo_vm_def)
  moreover have "\<forall>a. queued demo_lists a \<longrightarrow> name_of (pcbq (kern (typed [] CR))) a \<noteq> alarm_name 7"
    by (auto simp: queued_demo name_of_demo alarm_name_def n)
  moreover have "heap_addr (kvm (kern (typed [] CR))) = 0xD001504" by (simp add: demo_vm_def)
  ultimately show ?thesis
    using alarm_command_sets[OF wf_typed[of "[]" CR], of 7 5 9 "''tea''" "\<lambda>_. NUL" "0x1234"]
    by (simp add: n Let_def) blast
qed

theorem alarm_fires_witness:
  "\<exists>k'. alarm_turn a1 0xD001504 (typed [] CR) = Inr (EXIT, (typed [] CR)\<lparr>kern := k'\<rparr>) \<and>
    console k' = ''tea'' @ [CR, LF]"
proof -
  have t: "clock_time (devices (kio (kern (typed [] CR)))) = \<lparr>second = 0, minute = 0, hour = 0\<rparr>"
    by (simp add: clock_time_def bcd_clock_def bcd_mode_def decode_def bcd_to_bin_def)
  have d: "load_alarm 0xD001504 (typed [] CR) = Inr (alarm_object 0 0 0 ''tea'')"
    by (simp add: load_alarm_def)
  have p: "load a1 (pcbq (kern (typed [] CR))) = Inr (setup_pcb ''run'' CLASS_USER 1 a1)"
    by (simp add: load_def demo_pcbs_def)
  have "console (kern (typed [] CR)) = []" by (simp add: typed_def console_def)
  then show ?thesis
    using alarm_fires[OF typed_line(1) d _ _ p] t
    by (simp add: on_the_clock_def alarm_object_def alarm_seconds_def day_seconds_def text_of_append_NUL) blast
qed

section \<open>The command handler\<close>

definition demo_env :: env where
  "demo_env = \<lparr>junk = (\<lambda>_. NUL), git = \<lparr>GIT_DATE = ''2025'', GIT_HASH = ''0'', GIT_DIRTY = ''''\<rparr>,
     proc_entry = (\<lambda>n. 0x1000 + of_nat n), alarm_entry = 0x2000\<rparr>"

theorem run_command_table_witness:
  "run_command demo_env (lit ''showready'') (typed [] CR) =
    handler demo_env ''show'' (Some (lit ''ready'')) (typed [] CR)"
  using run_command_table[of "lit ''showready''" demo_env "typed [] CR"]
  by (simp add: run_table_def command_word_def words_def arguments_def lit_def)

theorem comhand_turn_runs_line_witness:
  "\<exists>buf. text_of buf = ''yield'' \<and>
    comhand_turn demo_env Inr (typed ''yield'' CR) = run_table demo_env buf (line_read ''yield'' CR (sconst NUL) (typed ''yield'' CR))"
proof -
  have l: "\<forall>c\<in>set ''yield''. ordinary c" "fits 99 [] ''yield''" "foldl edit [] ''yield'' = ''yield''"
    by code_simp+
  show ?thesis
    using comhand_turn_runs_line[OF typed_line disjI1[OF refl] l(1,2), of demo_env Inr] unfolding l(3) by auto
qed

theorem comhand_long_line_witness:
  "comhand_loop demo_env Inr (typed (replicate 98 (CHR ''x'')) (CHR ''x'')) = Some (Inl OutOfBounds)"
proof -
  define cs where "cs = replicate 98 (CHR ''x'')"
  have "\<forall>c\<in>set (cs @ [CHR ''x'']). ordinary c" "fits 99 [] cs" "length (foldl edit [] (cs @ [CHR ''x''])) = 99"
    unfolding cs_def by code_simp+
  then show ?thesis unfolding cs_def[symmetric]
    using comhand_long_line[OF typed_line] by blast
qed

theorem comhand_leaves_witness:
  "comhand_loop demo_env Inr (typed ''exit  force'' CR) =
    Some (Inr (Exit_Request (line_read ''exit  force'' CR (sconst NUL) (typed ''exit  force'' CR))))"
proof -
  have l: "\<forall>c\<in>set ''exit  force''. ordinary c" "fits 99 [] ''exit  force''"
    "foldl edit [] ''exit  force'' = ''exit'' @ replicate 2 (CHR '' '') @ ''force''"
    by code_simp+
  show ?thesis
    using comhand_leaves[OF typed_line disjI1[OF refl] l(1,2) refl l(3), of demo_env] by simp
qed

end
