(* ===== verification/BootWitnesses.thy ===== *)
theory BootWitnesses
  imports Example Boot Processes
begin

text \<open>
  The properties of booting, of the interrupt tables, of the page tables and of the R3
  processes at concrete inputs: \<open>demo_board\<close> is a machine at the start of \<open>kmain\<close>.
\<close>

definition bare_vm :: vm where
  "bare_vm = \<lparr>frames = bitmap 0, kdir = 0, dir_tables = [], dir_tables_phys = [],
     page_tables = (\<lambda>_ _. zero_page), phys_alloc_addr = 0x150000, heap_addr = 0xD000000,
     heap_is_initialized = False, paging = False\<rparr>"

lemma bare_bare_vm: "bare bare_vm"
  by (simp add: bare_def bare_vm_def)

definition off_hw :: hw where
  "off_hw = \<lparr>uarts = (\<lambda>_. demo_uart), cmos_index = 0, cmos = (\<lambda>_. 0), interrupts_on = False, port_log = []\<rparr>"

definition off_cpu :: cpu where
  "off_cpu = \<lparr>gdt_size = 0, gdt = [], seg_ds = 0, seg_es = 0, seg_fs = 0, seg_gs = 0, seg_ss = 0,
     idt_size = 0, idt_loaded = False, idt_entries = replicate 256 no_entry\<rparr>"

definition demo_board :: board where
  "demo_board = \<lparr>bcpu = off_cpu, bkern = \<lparr>pcbq = init_pcb_state, contexts = (\<lambda>_. None), curProc = NULL,
     sysStackPtr = NULL, kvm = bare_vm, kio = \<lparr>initialized = (\<lambda>_. 0), devices = off_hw\<rparr>\<rparr>\<rparr>"

definition demo_symbols :: symbols where
  "demo_symbols = \<lparr>isr_addr = (\<lambda>_. 0x101000), comhand_addr = 0x102000, idle_addr = 0x103000\<rparr>"

theorem vm_init_maps_witness:
  "\<exists>v'. vm_init bare_vm = Inr v' \<and> translate v' 0x101000 = Some 0x101000 \<and>
    translate v' 0xD000000 = Some (page_at 359) \<and> translate v' 0 = None"
  using vm_init_maps[OF bare_bare_vm] by (auto simp: mapped_def bare_vm_def)

definition handler_addr :: "isr \<Rightarrow> u32" where
  "handler_addr i = 0x101000 + 16 * of_nat (length (takeWhile (\<lambda>j. j \<noteq> i)
     [Divide_error, Debug, Nmi, Breakpoint, Overflow, Bounds, Invalid_op, Device_not_available,
      Double_fault, Coprocessor_segment, Invalid_tss, Segment_not_present, Stack_segment,
      General_protection, Page_fault, Reserved, Coprocessor, Rtc_isr, Sys_call_isr]))"

theorem interrupt_tables_witness:
  "\<exists>c'. irq_init handler_addr off_cpu = Inr c' \<and> gate c' 1 = Some 0x101010 \<and> gate c' 2 = Some 0x101020 \<and>
    gate c' 8 = Some 0x101110 \<and> gate c' 13 = Some 0x1010D0 \<and> gate c' 14 = Some 0x1010E0 \<and>
    gate c' 31 = Some 0x1010F0 \<and> gate c' 0x60 = Some 0x101120 \<and> gate c' 40 = None"
proof -
  have "idt_entries off_cpu = replicate 256 no_entry" "port_log off_hw = []" by (simp_all add: off_cpu_def off_hw_def)
  from interrupt_tables[OF this, where addr_of = handler_addr and
      p = "\<lparr>pic_offset = 0, pic_mask = 0, pic_phase = 0\<rparr>"] obtain c' where
    c': "irq_init handler_addr off_cpu = Inr c'" "\<forall>(v, i, msg)\<in>set exceptions. gate c' v = Some (handler_addr i)"
      "gate c' 8 = Some (handler_addr Rtc_isr)" "gate c' 0x60 = Some (handler_addr Sys_call_isr)"
      "\<forall>v<256. 32 \<le> v \<and> v \<noteq> 0x60 \<longrightarrow> gate c' v = None"
    by fast
  have "gate c' 40 = None" using c'(5) by simp
  moreover have "gate c' 1 = Some 0x101010" "gate c' 2 = Some 0x101020" "gate c' 13 = Some 0x1010D0"
    "gate c' 14 = Some 0x1010E0" "gate c' 31 = Some 0x1010F0"
    using c'(2) by (simp_all add: exceptions_def upt_rec handler_addr_def)
  moreover have "gate c' 8 = Some 0x101110" "gate c' 0x60 = Some 0x101120"
    using c'(3,4) by (simp_all add: handler_addr_def)
  ultimately show ?thesis using c'(1) by blast
qed

theorem proc_life_witness:
  "\<exists>b. r3_turns (\<lambda>_. NUL) 2 (proc_name 2) (2 + 1) R3_Start (demo 1 1 1) =
    Inr (replicate 2 IDLE @ [EXIT], R3_Exited b,
      emit (concat (replicate 2 (dispatched_text (proc_name 2))) @ exiting_text (proc_name 2)) (demo 1 1 1))"
  using proc_life[of "demo 1 1 1" 2 "\<lambda>_. NUL"] by (simp add: serial_devno_def)

theorem kmain_boots_witness:
  "\<exists>b1 regs' b2. kmain_start demo_symbols demo_board = Inr b1 \<and>
    kmain_trap (zero_context\<lparr>reg_esp := 0x200000\<rparr>) b1 = Inr (regs', b2) \<and>
    reg_eip regs' = 0x102000 \<and> curProc (bkern b2) = com_pcb \<and> wf_run (bkern b2) (ready_only [idle_pcb])"
proof -
  have "powered demo_board"
    by (simp add: powered_def demo_board_def bare_bare_vm dlab_def off_hw_def demo_uart_def off_cpu_def)
       (simp add: bare_vm_def)
  moreover have "system_frame (reg_esp (zero_context\<lparr>reg_esp := 0x200000\<rparr>) - 60)" by (simp add: system_frame_def)
  ultimately show ?thesis
    using kmain_boots[of demo_board "zero_context\<lparr>reg_esp := 0x200000\<rparr>" demo_symbols]
    by (auto simp: initial_frame_def demo_symbols_def)
qed

end
