(* ===== verification/MachineWitnesses.thy ===== *)
theory MachineWitnesses
  imports Session SysReq LoadSuspended Strtok ShellWitnesses BootWitnesses
begin

text \<open>
  The properties of the whole system, of \<open>sys_req\<close>, of \<open>version\<close>, of \<open>resume all\<close> and of \<open>strtok\<close> at concrete inputs:
  \<open>typed_board str\<close> is a machine on which \<open>str\<close> and a carriage return are typed.
\<close>

definition typed_board :: "string \<Rightarrow> board" where
  "typed_board str = demo_board\<lparr>bkern := (bkern demo_board)\<lparr>kio := \<lparr>initialized = (\<lambda>_. 0),
     devices = off_hw\<lparr>uarts := (\<lambda>_. demo_uart\<lparr>rx := NUL ## str @- CR ## sconst NUL\<rparr>)\<rparr>\<rparr>\<rparr>\<rparr>"

definition trap_regs :: "addr \<Rightarrow> cpu_context" where
  "trap_regs sp = zero_context\<lparr>reg_eax := IDLE, reg_esp := sp\<rparr>"

abbreviation (input) boot_regs :: cpu_context where "boot_regs \<equiv> zero_context\<lparr>reg_esp := 0x200000\<rparr>"

lemma powered_typed: "powered (typed_board str)"
  by (simp add: powered_def typed_board_def demo_board_def bare_bare_vm dlab_def off_hw_def demo_uart_def off_cpu_def)
     (simp add: bare_vm_def)

lemma system_boot_regs: "system_frame (reg_esp boot_regs - 60)"
  by (simp add: system_frame_def)

lemma version_demo: "length (version_text (git demo_env)) \<le> 127"
  by (simp add: version_text_def demo_env_def)

lemma line_show: "\<forall>c\<in>set ''show''. ordinary c" "fits 99 [] ''show''" "foldl edit [] ''show'' = ''show''"
  by code_simp+

lemma pending_typed: "stl (pending COM1 (kio (bkern (typed_board str)))) = str @- CR ## sconst NUL"
  by (simp add: typed_board_def pending_def)

lemma apart_demo: "idle_addr demo_symbols \<noteq> comhand_addr demo_symbols"
  by (simp add: demo_symbols_def)

lemma in_com: "frame_in com_pcb (reg_esp (trap_regs 0xD000400) - 60)" "reg_eax (trap_regs sp) = IDLE"
  and in_idle: "frame_in idle_pcb (reg_esp (trap_regs 0xD000834) - 60)"
  by (simp_all add: frame_in_def trap_regs_def)

theorem first_session_witness:
  "\<exists>b1 r0 b2 m1 m2 buf. kmain_start demo_symbols (typed_board ''show'') = Inr b1 \<and>
    kmain_trap boot_regs b1 = Inr (r0, b2) \<and>
    mstep demo_symbols demo_env (booted_machine demo_symbols demo_env b2 r0) m1 \<and> mstep demo_symbols demo_env m1 m2 \<and>
    progs m2 = [com_pcb \<mapsto> Comhand_Line buf, idle_pcb \<mapsto> Idle_Loop] \<and> text_of buf = ''show''"
  using first_session[OF powered_typed system_boot_regs pending_typed disjI1[OF refl] line_show(1,2) version_demo
      apart_demo in_com in_idle in_com(2)] unfolding line_show(3) by blast

text \<open>The machine right after booting, and a turn of the command handler on it.\<close>

lemma demo_booted:
  obtains b1 r0 b2 buf s where "mreach demo_symbols demo_env (booted_machine demo_symbols demo_env b2 r0)"
    "\<not> halted (booted_machine demo_symbols demo_env b2 r0)"
    "curProc (kern (msys (booted_machine demo_symbols demo_env b2 r0))) = com_pcb"
    "progs (booted_machine demo_symbols demo_env b2 r0) = [com_pcb \<mapsto> Comhand_Start]"
    "boot_pcbs (kern (msys (booted_machine demo_symbols demo_env b2 r0)))"
    "turn demo_env Comhand_Start (msys (booted_machine demo_symbols demo_env b2 r0)) = Inr (IDLE, Comhand_Line buf, s)"
    "own_stack (kern s) (trap_regs 0xD000400)"
proof -
  obtain b1 r0 b2 where b: "kmain_start demo_symbols (typed_board ''show'') = Inr b1" "kmain_trap boot_regs b1 = Inr (r0, b2)"
    "pending COM1 (kio (bkern b2)) = ''show'' @- CR ## sconst NUL"
    using kmain_boot_ok[OF powered_typed system_boot_regs, of demo_symbols "''show''"] pending_typed[of "''show''"] by auto
  let ?m = "booted_machine demo_symbols demo_env b2 r0"
  let ?s = "\<lparr>kern = bkern b2, alarms = (\<lambda>_. None), alarm_counter = 1\<rparr>"
  note st = boot_state[OF powered_typed system_boot_regs b(1,2)]
  have m: "msys ?m = ?s" "\<not> halted ?m" "progs ?m = [com_pcb \<mapsto> Comhand_Start]"
    using st(2,4,5) by (simp_all add: booted_machine_def go_to_def start_at_def Let_def)
  have "mreach demo_symbols demo_env ?m" unfolding booted_machine_def
    by (rule mreach.boot[OF powered_typed system_boot_regs b(1,2)])
  moreover have on: "online COM1 (kio (kern ?s))" using wfD(3)[OF steady_wf[OF st(1)]] by simp
  have "pending COM1 (kio (kern ?s)) = ''show'' @- CR ## sconst NUL" using b(3) by simp
  from first_turn[OF on this disjI1[OF refl] line_show(1,2) version_demo]
  obtain buf i where "turn demo_env Comhand_Start ?s = Inr (IDLE, Comhand_Line buf, with_io i ?s)" by blast
  moreover have "own_stack (kern (with_io i ?s)) (trap_regs 0xD000400)"
    using st(2) in_com(1) by (simp add: own_stack_def with_io_def)
  ultimately show ?thesis using that m st(2,3) by simp
qed

theorem machine_invariant_witness:
  "\<exists>m. mreach demo_symbols demo_env m \<and> sound (kern (msys m)) \<and> \<not> halted m \<and>
    curProc (kern (msys m)) = com_pcb \<and> progs m com_pcb \<noteq> None"
proof -
  obtain b1 r0 b2 buf s where m: "mreach demo_symbols demo_env (booted_machine demo_symbols demo_env b2 r0)"
    "\<not> halted (booted_machine demo_symbols demo_env b2 r0)"
    "curProc (kern (msys (booted_machine demo_symbols demo_env b2 r0))) = com_pcb" by (rule demo_booted)
  show ?thesis using machine_invariant[OF m(1)] m by (intro exI[of _ "booted_machine demo_symbols demo_env b2 r0"]) simp
qed

theorem machine_bounds_witness:
  "\<exists>m p. mreach demo_symbols demo_env m \<and> pcbs (pcbq (kern (msys m))) com_pcb = Some p \<and> frame_in com_pcb (contextPtr p) \<and>
    0xD000434 \<le> unat (heap_addr (kvm (kern (msys m)))) \<and> 0 \<le> priority p"
proof -
  obtain b1 r0 b2 buf s where m: "mreach demo_symbols demo_env (booted_machine demo_symbols demo_env b2 r0)"
    "boot_pcbs (kern (msys (booted_machine demo_symbols demo_env b2 r0)))" by (rule demo_booted)
  let ?m = "booted_machine demo_symbols demo_env b2 r0"
  have "pcb_at (kern (msys ?m)) com_pcb (setup_pcb ''commhand'' CLASS_SYSTEM 0 com_pcb)" using m(2) by (simp add: boot_pcbs_def)
  then obtain p where p: "pcbs (pcbq (kern (msys ?m))) com_pcb = Some p" by (rule pcb_atD)
  show ?thesis using machine_bounds[OF m(1) p] m(1) p by (intro exI[of _ ?m] exI[of _ p]) simp
qed

theorem machine_progress_witness:
  "\<exists>m m'. mreach demo_symbols demo_env m \<and> mstep demo_symbols demo_env m m'"
proof -
  obtain b1 r0 b2 buf s where m: "mreach demo_symbols demo_env (booted_machine demo_symbols demo_env b2 r0)"
    "\<not> halted (booted_machine demo_symbols demo_env b2 r0)"
    "curProc (kern (msys (booted_machine demo_symbols demo_env b2 r0))) = com_pcb"
    "progs (booted_machine demo_symbols demo_env b2 r0) = [com_pcb \<mapsto> Comhand_Start]"
    "turn demo_env Comhand_Start (msys (booted_machine demo_symbols demo_env b2 r0)) = Inr (IDLE, Comhand_Line buf, s)"
    "own_stack (kern s) (trap_regs 0xD000400)"
    by (rule demo_booted)
  have "progs (booted_machine demo_symbols demo_env b2 r0)
      (curProc (kern (msys (booted_machine demo_symbols demo_env b2 r0)))) = Some Comhand_Start" using m(3,4) by simp
  from machine_progress[OF m(1,2) this m(5,6) in_com(2)] m(1) show ?thesis by blast
qed

section \<open>Commands\<close>

lemma sound_typed: "sound (kern (typed str ch))"
proof -
  have "below (demo 1 1 1)"
    unfolding below_def using demo_pcbs_cases by (fastforce simp: demo_vm_def)
  then have "steady (demo 1 1 1) demo_lists" using wf_run_demo[of 1 1 1] isolated_demo by (simp add: steady_def)
  then have "steady (kern (typed str ch)) demo_lists"
    unfolding typed_def by (simp add: steady_io serial_devno_def)
  then show ?thesis by (auto simp: sound_def)
qed

theorem command_keeps_witness:
  "\<exists>s. run_command demo_env (lit ''yield'') (typed [] CR) = Inr (Go_On s) \<and> sound (kern s) \<and> curProc (kern s) = a1"
proof -
  have "command_word ''yield'' = Some ''yield''" by code_simp
  then have "run_command demo_env (lit ''yield'') (typed [] CR) =
      Inr (Go_On ((typed [] CR)\<lparr>kern := emit no_longer_usable_text (kern (typed [] CR))\<rparr>))"
    using run_command_is_table[of "lit ''yield''" demo_env "typed [] CR"] typed_line(1)[of "[]" CR]
    by (simp add: run_table_def handler_simps on_kern_def go_on_def say_lit no_longer_usable_text_def)
  moreover from command_keeps[OF sound_typed this]
  have "sound (kern ((typed [] CR)\<lparr>kern := emit no_longer_usable_text (kern (typed [] CR))\<rparr>))" by simp
  ultimately show ?thesis by (simp add: typed_def)
qed

theorem version_fits_witness:
  "version_latest (\<lambda>_. NUL) (git demo_env) (demo 1 1 1) = Inr (emit (version_text (git demo_env)) (demo 1 1 1))"
  using version_fits[of "demo 1 1 1" "\<lambda>_. NUL" "git demo_env"] version_demo by (simp add: serial_devno_def)

theorem resume_all_ends_witness:
  "\<exists>k'. resume_command (Some (lit ''all'')) (demo 1 1 1) = Inr k' \<and> all_resumed (emit resuming_text (demo 1 1 1)) demo_lists k'"
proof -
  have "all_named (demo 1 1 1) demo_lists" by (auto simp: all_named_def queued_demo name_of_demo)
  moreover have "demo_lists SuspReadyQ \<noteq> []" by (simp add: demo_lists_def)
  ultimately show ?thesis using resume_all_ends[OF wf_demo demo_distinct] by auto
qed

theorem load_suspended_resume_all_witness:
  "\<exists>k1 k2. load_command (\<lambda>i. 0x1000) (Some (lit ''suspended'')) demo_alone = Inr k1 \<and>
    load_command (\<lambda>i. 0x1000) None demo_alone = Inr k2 \<and>
    resume_command (Some (lit ''all'')) k1 = Inr (emit resuming_text k2)"
proof -
  let ?A = "\<lambda>_ :: qid. [] :: addr list"
  have "wf demo_alone ?A" using wf_run_alone by (simp add: wf_run_def)
  moreover have "names_distinct demo_alone ?A" "all_named demo_alone ?A" "\<forall>nm \<in> set (map fst r3_procs). \<not> taken demo_alone ?A nm"
    by (simp_all add: names_distinct_def all_named_def taken_def queued_def)
  moreover have "room 5380 (kvm demo_alone)" by (simp add: room_def demo_alone_def demo_vm_def)
  ultimately show ?thesis using load_suspended_resume_all[of demo_alone ?A "\<lambda>i. 0x1000"] by auto
qed

section \<open>strtok\<close>

theorem strtok_splits_witness:
  "\<exists>ps buf'. strtok_calls 3 (Some 0) (lit '' ,'') (lit '' ab,, c'', None) = Inr (ps, buf', None) \<and>
    map (str_at buf') ps = [''ab'', ''c'']"
proof -
  have w: "words_of (set '' ,'') '' ab,, c'' = [''ab'', ''c'']" by code_simp
  have "length (words_of (set (text_of (lit '' ,''))) (text_of (lit '' ab,, c''))) < 3" by (simp add: w)
  from strtok_splits[OF terminated_lit terminated_lit this, of None] show ?thesis using w by auto
qed

section \<open>sys\_req\<close>

theorem sys_req_is_driver_witness:
  "\<exists>cs. sys_req 3 COM1 (lit ''hi'') 2 (trap_regs 0xD000400) (kern (typed [] CR)) =
    bindE (serial_out COM1 (lit ''hi'') 2 (kio (kern (typed [] CR)))) (\<lambda>(n, s).
      Inr (n, lit ''hi'', (trap_regs 0xD000400)\<lparr>reg_eax := -1\<rparr>, (kern (typed [] CR))\<lparr>contexts := cs, kio := s\<rparr>))"
proof -
  have c: "curProc (kern (typed [] CR)) = a1" by (simp add: typed_def)
  then have "own_stack (kern (typed [] CR)) (trap_regs 0xD000400)" using in_com(1) by (simp add: own_stack_def)
  then show ?thesis
    using sys_req_is_driver[OF sound_typed, of "[]" CR "trap_regs 0xD000400" 3 COM1 "lit ''hi''" 2] c by auto
qed

end
