(* ===== verification/Spec2Isabelle.thy ===== *)
theory Spec2Isabelle
  imports Witnesses MachineWitnesses
begin

text \<open>
  A model of the MacaroniOS kernel (MPX): a small x86 system with a serial console, a command
  handler, processes in priority queues, cooperative dispatching by a software interrupt, a
  primitive heap and the CMOS clock. Paths are relative to the repository.

  \<^bold>\<open>The program.\<close> The processes are process control blocks in a heap, chained into four
  doubly linked queues (\<^verbatim>\<open>kernel/pcb.c\<close>). A process gives up the processor by
  \<open>sys_req(IDLE)\<close> or \<open>sys_req(EXIT)\<close>: \<^verbatim>\<open>int 0x60\<close> enters \<^verbatim>\<open>kernel/sys_call_isr.s\<close>, which pushes
  a frame of registers on the stack of the process and calls \<open>sys_call\<close>
  (\<^verbatim>\<open>kernel/sys_call.c\<close>), which picks the frame to resume. Input and output run in the
  caller, through the serial driver (\<^verbatim>\<open>kernel/serial.c\<close>). The user's commands
  (\<^verbatim>\<open>user/pcb/*.c\<close>, \<^verbatim>\<open>user/clock.c\<close>, \<^verbatim>\<open>user/loadR3.c\<close>) change the queues and the clock.
  \<^verbatim>\<open>kernel/kmain.c\<close> sets up the processor, the page tables and the devices, makes the first
  two processes and hands the processor to the command handler.

  \<^bold>\<open>How code is translated.\<close> A function of the code is a function on explicit states, with the
  name it has in the code. Its result is \<open>stop + 'a\<close> (theory \<open>Prelude\<close>): a stop is a panic, a
  null or wild pointer, an access outside an array or a signed overflow; the code then does
  not go on in a way C defines, or halts. Loops whose end is not plain are
  \<open>partial_function (option)\<close>, and the properties state that they end. Machine words are
  \<open>'a word\<close>; C's \<open>int\<close> is \<open>int\<close> with every result checked against the 32-bit range by
  \<open>i32\<close>; a character array is a \<open>char list\<close> and every access to it is checked.

  \<^bold>\<open>The theories.\<close>
  \<^item> \<open>Prelude\<close>: the error monad, loops, checked arithmetic and array access.
  \<^item> \<open>CStrings\<close> (\<^verbatim>\<open>lib/string.c\<close>, \<^verbatim>\<open>lib/stdlib.c\<close>, \<^verbatim>\<open>lib/ctype.c\<close> and helpers): C strings;
    \<open>text_of\<close> is the text before the NUL.
  \<^item> \<open>Strtok\<close> (\<^verbatim>\<open>lib/string.c\<close>): \<open>strtok\<close> with its static pointer; \<open>words_of\<close> is the
    splitting it implements.
  \<^item> \<open>NumText\<close> (\<^verbatim>\<open>kernel/itoa.c\<close>, \<^verbatim>\<open>kernel/itoBCD.c\<close>): number formatting.
  \<^item> \<open>PcbQueue\<close> (\<^verbatim>\<open>kernel/pcb.c\<close>): the queues. \<open>rep s A\<close> says that the heap \<open>s\<close> represents the
    lists \<open>A\<close> of addresses; the locale \<open>process_queues\<close> is the contract of insert, remove
    and find.
  \<^item> \<open>Hardware\<close>, \<open>Serial\<close> (\<^verbatim>\<open>include/mpx/io.h\<close>, \<^verbatim>\<open>kernel/serial.c\<close>): ports, the line and its
    line editor.
  \<^item> \<open>Vm\<close> (\<^verbatim>\<open>kernel/core-c.c\<close>, \<^verbatim>\<open>lib/core.c\<close>): page tables, frames and the heap.
  \<^item> \<open>Kernel\<close> (\<^verbatim>\<open>kernel/pcb.c\<close>): the state of the kernel, allocation and set-up of a process,
    with its PCB and first frame written out; \<open>wf k A\<close> is its invariant.
  \<^item> \<open>Scheduler\<close>, \<open>Traps\<close> (\<^verbatim>\<open>kernel/sys_call.c\<close>, \<^verbatim>\<open>kernel/sys_call_isr.s\<close>): the dispatcher, its
    abstract specification \<open>sched\<close> and the refinement; \<open>yields\<close> is the step relation of
    processes that yield.
  \<^item> \<open>PcbCommands\<close> (\<^verbatim>\<open>user/pcb/*.c\<close>, \<^verbatim>\<open>user/loadR3.c\<close>): the commands on processes.
  \<^item> \<open>Load\<close> (\<^verbatim>\<open>user/loadR3.c\<close>, \<^verbatim>\<open>user/pcb/init.c\<close>): loading and deleting processes, and how many
    the heap can hold; \<open>loaded\<close> says what \<open>load\<close> leaves, \<open>worn\<close> what rounds of both leave.
  \<^item> \<open>ResumeAll\<close> (\<^verbatim>\<open>user/pcb/ready.c\<close>): the walk of \<open>resume all\<close> and its end.
  \<^item> \<open>LoadSuspended\<close> (\<^verbatim>\<open>user/loadR3.c\<close>): \<open>load suspended\<close>, and \<open>resume all\<close> after it.
  \<^item> \<open>ShowPcb\<close> (\<^verbatim>\<open>user/pcb/showPCB.c\<close>): printing processes.
  \<^item> \<open>Shell\<close> (\<^verbatim>\<open>user/exit.c\<close>, \<^verbatim>\<open>user/help.c\<close>, \<^verbatim>\<open>user/version.c\<close>, \<^verbatim>\<open>user/yield.c\<close>): the
    commands that print, and \<open>exit\<close>, whose confirmation no typed key can answer.
  \<^item> \<open>Alarm\<close> (\<^verbatim>\<open>user/alarm.c\<close>): the command and the processes it makes.
  \<^item> \<open>Comhand\<close> (\<^verbatim>\<open>kernel/comhand.c\<close>): the loop of the command handler; \<open>run_table\<close> is its
    dispatch as a table.
  \<^item> \<open>Clock\<close> (\<^verbatim>\<open>user/clock.c\<close>): the clock, its formats (locale \<open>rtc_codec\<close>) and the time zone.
  \<^item> \<open>ClockCommand\<close> (\<^verbatim>\<open>user/clock.c\<close>): the clock as its commands show it.
  \<^item> \<open>VmInit\<close> (\<^verbatim>\<open>kernel/core-c.c\<close>): what \<open>vm_init\<close> leaves; \<open>translate\<close> is the walk of the
    processor over the tables.
  \<^item> \<open>Tables\<close> (\<^verbatim>\<open>kernel/core-c.c\<close>): the descriptor tables, the handlers and the interrupt
    controllers; \<open>gate\<close> and \<open>pic_after\<close> say what the processor and the controllers make of them, and
    \<open>exceptions\<close> is the processor's own numbering of the exceptions.
  \<^item> \<open>Processes\<close> (\<^verbatim>\<open>user/core.c\<close>): the R3 processes and the idle process.
  \<^item> \<open>Boot\<close> (\<^verbatim>\<open>kernel/kmain.c\<close>): \<open>kmain\<close>, from the start of the machine to the first dispatch.
  \<^item> \<open>Banner\<close> (\<^verbatim>\<open>user/version.c\<close>, \<^verbatim>\<open>kernel/comhand.c\<close>): the text of the version and of the
    greeting.
  \<^item> \<open>Line\<close>, \<open>Keeps\<close>: what every command keeps, whatever its arguments and whatever is typed.
    \<open>returns m Q\<close> is partial correctness; \<open>sound k\<close> is the invariant of the kernel between two
    statements of a process (queues, frames, separate stacks, heap), and \<open>safe E k k'\<close> relates
    the states before and after; the rules in \<open>keep\<close> follow the statements of the commands.
  \<^item> \<open>SysReq\<close> (\<^verbatim>\<open>user/core.c\<close>): \<open>sys_req\<close>, and why reading and writing need not go through
    the trap in the other theories.
  \<^item> \<open>Machine\<close>: the whole system. \<open>turn\<close> is the code of a process up to its next \<open>IDLE\<close> or
    \<open>EXIT\<close>; \<open>mstep\<close> is a turn and its trap, \<open>mreach\<close> the states reached from \<open>kmain\<close>. The
    properties are an invariant of all of them, the bounds of the memory and progress.
  \<^item> \<open>Session\<close>: the first session, from power-on to the first command.
  \<^item> \<open>Example\<close>, \<open>Witnesses\<close>, \<open>ShellWitnesses\<close>, \<open>BootWitnesses\<close>, \<open>MachineWitnesses\<close>: a concrete
    kernel, a concrete machine, and the properties at concrete inputs.

  \<^bold>\<open>Bounds.\<close> The only fuel is the number of turns in \<open>r3_turns\<close> and the number of calls in
  \<open>strtok_calls\<close>, where the properties name the number that is enough; the number of rounds in
  \<open>load_rounds\<close> is a quantity of the property. The loops that may not
  end (the walks over the queues, the input of a line, the command handler, the identity
  mapping of \<open>vm_init\<close>) are partial functions, and the properties about them have the form that
  the result is \<open>Some\<close>. Names have 15 characters, the heap 64 KB, a process takes 1076 bytes of
  it, a line 99 characters, as in the code.

  \<^bold>\<open>Not modelled.\<close> \<^verbatim>\<open>kernel/core-asm.s\<close> and the linker script: assembly without logic of its
  own. The instructions \<open>lgdt\<close>, \<open>lidt\<close> and the loads of the segment registers set fields of a
  record, and \<open>hlt\<close> ends a function. Memory is typed: a PCB, a frame of registers or an alarm is
  what was stored at its address, and a character array is not seen through a pointer of
  another type. Interrupts of the devices do not occur, as the controllers mask all of them.
  Values the code reads from memory it has not written (local arrays) are arguments named
  \<open>junk\<close>. The depth of the calls inside a process is not modelled: that its stack pointer is
  inside its stack at a trap is the hypothesis \<open>own_stack\<close>. Inside a turn the frames that
  \<open>READ\<close> and \<open>WRITE\<close> push and pop below the stack pointer are left out, as \<open>SysReq\<close> justifies.
\<close>

end
